(* ===== verification/Go_Prelude.thy ===== *)
theory Go_Prelude
  imports Main "HOL-Library.Word" "HOL-Library.List_Lexorder" "HOL-Library.Char_ord"
begin

text \<open>
  What every component of the bidbot model shares: the Go machine integers as words, Go error
  values with the difference between \<open>%w\<close> and \<open>%v\<close> wrapping, the time arithmetic of the
  standard library, the sum of a weight over the entries of a finite map, and lemmas on these.
  The collection \<open>acct\<close> holds the facts on map and list sums that the accounting proofs use.
\<close>

named_theorems acct \<open>facts on weights summed over maps and lists\<close>

section \<open>Machine integers\<close>

type_synonym u32 = "32 word"
type_synonym u64 = "64 word"
type_synonym i64 = "64 word" \<comment> \<open>read as two's complement with \<open>sint\<close>\<close>

lemma unat_add_no_wrap:
  fixes a b :: "'a::len word"
  assumes "unat a + unat b < 2 ^ LENGTH('a)"
  shows "unat (a + b) = unat a + unat b"
  using assms by (simp add: unat_word_ariths)

lemma unat_sub_no_wrap:
  fixes a b :: "'a::len word"
  assumes "unat b \<le> unat a"
  shows "unat (a - b) = unat a - unat b"
  using assms by (simp add: unat_sub word_le_nat_alt)

section \<open>Errors\<close>

text \<open>
  \<open>Sentinel\<close> is a package level error variable, compared by identity; \<open>New\<close> an
  \<open>errors.New\<close> or \<open>fmt.Errorf\<close> without an operand error; \<open>Wrapw p e\<close> is
  \<open>fmt.Errorf("p: %w", e)\<close>, which \<open>errors.Is\<close> looks through; \<open>Wrapv p e\<close> is
  \<open>fmt.Errorf("p: %v", e)\<close> (or \<open>%s\<close>), which keeps the text only.
\<close>

datatype go_error =
    Sentinel string
  | New string
  | Wrapw string go_error
  | Wrapv string go_error

fun Error :: "go_error \<Rightarrow> string" where
  "Error (Sentinel m) = m"
| "Error (New m) = m"
| "Error (Wrapw p e) = p @ '': '' @ Error e"
| "Error (Wrapv p e) = p @ '': '' @ Error e"

text \<open>\<open>errors.Is(err, target)\<close> for a sentinel target: only \<open>%w\<close> is looked through.\<close>

fun errors_Is :: "go_error \<Rightarrow> go_error \<Rightarrow> bool" where
  "errors_Is (Wrapw p e) target = (Wrapw p e = target \<or> errors_Is e target)"
| "errors_Is e target = (e = target)"

section \<open>Panics and numbers as text\<close>

text \<open>What a call comes to: a panic that ends the goroutine, or the values it returns.\<close>

datatype 'a go_out = Panic string | Ret 'a

fun bind_out :: "'a go_out \<Rightarrow> ('a \<Rightarrow> 'b go_out) \<Rightarrow> 'b go_out" where
  "bind_out (Panic m) f = Panic m"
| "bind_out (Ret x) f = f x"

lemma bind_out_Ret: "bind_out r f = Ret y \<longleftrightarrow> (\<exists>x. r = Ret x \<and> f x = Ret y)"
  by (cases r) auto

text \<open>\<open>%d\<close> of a number that is not negative.\<close>

fun itoa :: "nat \<Rightarrow> string" where
  "itoa n = (if n < 10 then [char_of (48 + n)] else itoa (n div 10) @ [char_of (48 + n mod 10)])"

declare itoa.simps [simp del]

definition quoted :: "string \<Rightarrow> string" where
  "quoted s = [CHR 0x27] @ s @ [CHR 0x27]"

section \<open>Time\<close>

text \<open>
  A \<open>time.Time\<close> is a number of nanoseconds since the zero time, a \<open>time.Duration\<close> a signed
  64 bit number of nanoseconds. \<open>Time.Sub\<close> saturates at the ends of the duration range.
\<close>

type_synonym go_time = int
type_synonym duration = int

definition maxDuration :: duration where "maxDuration = 2 ^ 63 - 1"
definition minDuration :: duration where "minDuration = - (2 ^ 63)"

definition time_Sub :: "go_time \<Rightarrow> go_time \<Rightarrow> duration" where
  "time_Sub t u = max minDuration (min maxDuration (t - u))"

definition IsZero :: "go_time \<Rightarrow> bool" where
  "IsZero t \<longleftrightarrow> t = 0"

lemma time_Sub_mono: "t \<le> t' \<Longrightarrow> time_Sub t u \<le> time_Sub t' u"
  by (simp add: time_Sub_def)

lemma time_Sub_antimono: "u \<le> u' \<Longrightarrow> time_Sub t u' \<le> time_Sub t u"
  by (simp add: time_Sub_def)

section \<open>Weights summed over maps and lists\<close>

definition map_weight :: "('v \<Rightarrow> nat) \<Rightarrow> ('k \<rightharpoonup> 'v) \<Rightarrow> nat" where
  "map_weight f m = (\<Sum>k \<in> dom m. f (the (m k)))"

definition weight_at :: "('v \<Rightarrow> nat) \<Rightarrow> ('k \<rightharpoonup> 'v) \<Rightarrow> 'k \<Rightarrow> nat" where
  "weight_at f m k = (case m k of None \<Rightarrow> 0 | Some v \<Rightarrow> f v)"

lemma map_weight_empty [simp, acct]: "map_weight f Map.empty = 0"
  by (simp add: map_weight_def)

lemma map_weight_split:
  assumes "finite (dom m)"
  shows "map_weight f m = weight_at f m k + map_weight f (m(k := None))"
proof (cases "m k")
  case None
  then have "m(k := None) = m" by auto
  with None show ?thesis by (simp add: weight_at_def)
next
  case (Some v)
  then have "k \<in> dom m" by auto
  moreover have "(\<Sum>j \<in> dom m - {k}. f (the (m j))) =
      (\<Sum>j \<in> dom m - {k}. f (the ((m(k := None)) j)))"
    by (rule sum.cong) auto
  ultimately show ?thesis
    using assms Some by (simp add: map_weight_def weight_at_def sum.remove [of _ k])
qed

lemma map_weight_update [acct]:
  assumes "finite (dom m)"
  shows "map_weight f (m(k \<mapsto> v)) = f v + map_weight f (m(k := None))"
  using map_weight_split [of "m(k \<mapsto> v)" f k] assms by (simp add: weight_at_def)

lemma map_weight_delete [acct]:
  assumes "finite (dom m)" and "m k = Some v"
  shows "map_weight f (m(k := None)) = map_weight f m - f v"
  using map_weight_split [of m f k] assms by (simp add: weight_at_def)

lemma weight_at_le_map_weight:
  assumes "finite (dom m)" and "m k = Some v"
  shows "f v \<le> map_weight f m"
  using map_weight_split [of m f k] assms by (simp add: weight_at_def)

section \<open>Bounded runs\<close>

text \<open>A relation whose runs from a state are bounded leads from there to a state that is at rest.\<close>

lemma bounded_run_rests:
  assumes "\<And>k y. (R ^^ k) x y \<Longrightarrow> k \<le> (n::nat)"
  shows "\<exists>k y. (R ^^ k) x y \<and> (\<nexists>z. R y z)"
proof (rule ccontr)
  assume on: "\<nexists>k y. (R ^^ k) x y \<and> (\<nexists>z. R y z)"
  have "\<exists>y. (R ^^ k) x y" for k
  proof (induction k)
    case (Suc k)
    then obtain y where y: "(R ^^ k) x y" by blast
    with on obtain z where "R y z" by blast
    with y show ?case by auto
  qed simp
  then obtain y where "(R ^^ Suc n) x y" by blast
  from assms [OF this] show False by simp
qed

end
