(* ===== verification/Auction.thy ===== *)
theory Auction
  imports Go_Prelude
begin

text \<open>
  \<open>lib/auction/auction.go\<close> and \<open>lib/auction/topics.go\<close>: the download sources of a won auction
  and their validation, and the names of the pubsub topics, with \<open>path.Join\<close> of the standard
  library.
\<close>

section \<open>Sources\<close>

text \<open>
  Of a \<open>url.URL\<close> the program reads the scheme and the text; a content id is undefined or a
  binary string; a multiaddress is known by its text. \<open>nil\<close> pointers are \<open>None\<close>.
\<close>

datatype cid = Undef | Cid string

definition Defined :: "cid \<Rightarrow> bool" where
  "Defined c \<longleftrightarrow> c \<noteq> Undef"

record URL =
  Scheme :: string
  URLString :: string

record CARURL =
  URL :: URL

record CARIPFS =
  IPFSCid :: cid
  Multiaddrs :: "string list"

record Sources =
  CARURL :: "CARURL option"
  CARIPFS :: "CARIPFS option"

definition Sources_Validate :: "Sources \<Rightarrow> go_error option" where
  "Sources_Validate s =
     (if CARURL s = None \<and> CARIPFS s = None
      then Some (New ''should contain at least one source'')
      else
        let ipfs = (case CARIPFS s of
              None \<Rightarrow> None
            | Some i \<Rightarrow>
                if \<not> Defined (IPFSCid i) then Some (New ''cid undefined'')
                else if Multiaddrs i = [] then Some (New ''no multiaddr'')
                else None)
        in case CARURL s of
             None \<Rightarrow> ipfs
           | Some u \<Rightarrow>
               if Scheme (URL u) = ''http'' \<or> Scheme (URL u) = ''https'' then ipfs
               else Some (New (''unsupported scheme '' @ Scheme (URL u))))"

definition Sources_String :: "(cid \<Rightarrow> string) \<Rightarrow> Sources \<Rightarrow> string" where
  "Sources_String cid_String s =
     ''{''
     @ (case CARURL s of None \<Rightarrow> '''' | Some u \<Rightarrow> ''url: '' @ URLString (URL u) @ '','')
     @ (case CARIPFS s of None \<Rightarrow> '''' | Some i \<Rightarrow> ''cid: '' @ cid_String (IPFSCid i) @ '','')
     @ ''}''"

definition usable_sources :: "Sources \<Rightarrow> bool" where
  "usable_sources s \<longleftrightarrow>
     (CARURL s \<noteq> None \<or> CARIPFS s \<noteq> None) \<and>
     (\<forall>u. CARURL s = Some u \<longrightarrow> Scheme (URL u) \<in> {''http'', ''https''}) \<and>
     (\<forall>i. CARIPFS s = Some i \<longrightarrow> Defined (IPFSCid i) \<and> Multiaddrs i \<noteq> [])"

lemma Sources_Validate_None: "Sources_Validate s = None \<longleftrightarrow> usable_sources s"
  by (auto simp: Sources_Validate_def usable_sources_def Let_def split: option.splits if_splits)

section \<open>Deal durations\<close>

definition epochsPerDay :: u64 where "epochsPerDay = 60 * 24 * 2"
definition MinDealDuration :: u64 where "MinDealDuration = epochsPerDay * 365 div 2"
definition MaxDealDuration :: u64 where "MaxDealDuration = epochsPerDay * 510"

definition HTTPCarHeaderOnly :: string where "HTTPCarHeaderOnly = ''X-Bidbot-Car-Header-Only''"

section \<open>Paths\<close>

text \<open>
  \<open>path.Clean\<close>: split at slashes, drop empty and dot segments, let a dot-dot segment remove the
  segment before it; at the root it has nothing to remove. The accumulator is reversed.
\<close>

fun split_on :: "char \<Rightarrow> string \<Rightarrow> string list" where
  "split_on c [] = [[]]"
| "split_on c (x # xs) =
     (if x = c then [] # split_on c xs
      else case split_on c xs of [] \<Rightarrow> [[x]] | seg # segs \<Rightarrow> (x # seg) # segs)"

fun clean_segs :: "bool \<Rightarrow> string list \<Rightarrow> string list \<Rightarrow> string list" where
  "clean_segs rooted acc [] = rev acc"
| "clean_segs rooted acc (s # ss) =
     (if s = '''' \<or> s = ''.'' then clean_segs rooted acc ss
      else if s = ''..'' then
        (case acc of
           [] \<Rightarrow> clean_segs rooted (if rooted then [] else [''..'']) ss
         | a # as \<Rightarrow> if a = ''..'' then clean_segs rooted (''..'' # acc) ss
                     else clean_segs rooted as ss)
      else clean_segs rooted (s # acc) ss)"

fun join_with :: "string \<Rightarrow> string list \<Rightarrow> string" where
  "join_with sep [] = ''''"
| "join_with sep [s] = s"
| "join_with sep (s # ss) = s @ sep @ join_with sep ss"

definition path_Clean :: "string \<Rightarrow> string" where
  "path_Clean p =
     (let rooted = (p \<noteq> [] \<and> hd p = CHR ''/'');
          q = join_with ''/'' (clean_segs rooted [] (split_on CHR ''/'' p))
      in if rooted then CHR ''/'' # q else if q = '''' then ''.'' else q)"

text \<open>\<open>path.Join\<close> leaves empty elements out; of nothing but empty elements it makes the empty path.\<close>

definition path_Join :: "string list \<Rightarrow> string" where
  "path_Join es =
     (let fs = filter (\<lambda>e. e \<noteq> '''') es
      in if fs = [] then '''' else path_Clean (join_with ''/'' fs))"

section \<open>Topics\<close>

definition Topic :: string where "Topic = ''/textile/auction/0.0.1''"

definition BidbotEventsTopic :: string where
  "BidbotEventsTopic = path_Join [Topic, ''bidbot_events'']"

definition BidsTopic :: "string \<Rightarrow> string" where
  "BidsTopic auctionID = path_Join [Topic, auctionID, ''bids'']"

definition WinsTopic :: "string \<Rightarrow> string" where
  "WinsTopic pid = path_Join [Topic, pid, ''wins'']"

definition ProposalsTopic :: "string \<Rightarrow> string" where
  "ProposalsTopic pid = path_Join [Topic, pid, ''proposals'']"

text \<open>An id that is one path segment: ULIDs and peer ids are.\<close>

definition plain_segment :: "string \<Rightarrow> bool" where
  "plain_segment s \<longleftrightarrow> s \<noteq> '''' \<and> s \<noteq> ''.'' \<and> s \<noteq> ''..'' \<and> CHR ''/'' \<notin> set s"

lemma split_on_nonempty [simp]: "split_on c xs \<noteq> []"
  by (cases xs) (simp_all split: list.split)

lemma split_on_segment: "c \<notin> set xs \<Longrightarrow> split_on c xs = [xs]"
  by (induction xs) auto

lemma split_on_append: "c \<notin> set xs \<Longrightarrow> split_on c (xs @ c # ys) = xs # split_on c ys"
  by (induction xs) auto

lemma topic_path:
  assumes "plain_segment s" "plain_segment l"
  shows "path_Join [Topic, s, l] = Topic @ ''/'' @ s @ ''/'' @ l"
proof -
  have "split_on CHR ''/'' (Topic @ ''/'' @ s @ ''/'' @ l) =
      ['''', ''textile'', ''auction'', ''0.0.1'', s, l]"
    using assms split_on_append [of "CHR ''/''" s l] split_on_segment [of "CHR ''/''" l]
    by (simp add: Topic_def plain_segment_def)
  then show ?thesis
    using assms by (simp add: path_Join_def path_Clean_def Topic_def plain_segment_def Let_def)
qed

lemma segment_append_inj:
  assumes "c \<notin> set xs" "c \<notin> set ys" "xs @ c # us = ys @ c # vs"
  shows "xs = ys" "split_on c us = split_on c vs"
  using assms split_on_append [of c xs us] split_on_append [of c ys vs] by simp_all

lemma topic_eqs:
  assumes "plain_segment s"
  shows "BidsTopic s = Topic @ ''/'' @ s @ ''/bids''"
    "WinsTopic s = Topic @ ''/'' @ s @ ''/wins''"
    "ProposalsTopic s = Topic @ ''/'' @ s @ ''/proposals''"
    "BidbotEventsTopic = Topic @ ''/bidbot_events''"
  using topic_path [OF assms, of "''bids''"] topic_path [OF assms, of "''wins''"]
    topic_path [OF assms, of "''proposals''"]
  by (simp_all add: plain_segment_def BidsTopic_def WinsTopic_def ProposalsTopic_def
      BidbotEventsTopic_def path_Join_def path_Clean_def Topic_def Let_def)

lemma suffix_neq:
  assumes "plain_segment a" "plain_segment b"
  shows "a @ ''/bids'' \<noteq> b @ ''/wins''" "a @ ''/bids'' \<noteq> b @ ''/proposals''"
    "a @ ''/wins'' \<noteq> b @ ''/proposals''"
  using segment_append_inj(2) [of "CHR ''/''" a b] assms by (fastforce simp: plain_segment_def)+

lemma event_neq: "''bidbot_events'' \<noteq> a @ CHR ''/'' # l"
proof
  assume eq: "''bidbot_events'' = a @ CHR ''/'' # l"
  have "CHR ''/'' \<in> set (a @ CHR ''/'' # l)" by simp
  then show False unfolding eq [symmetric] by simp
qed

text \<open>
  For plain ids, the bids, wins and proposals topics of different auctions and peers are
  different topics, and none of them is the auction feed or the event topic.
\<close>

theorem topics_distinct:
  assumes "plain_segment a" "plain_segment b"
  shows "(BidsTopic a = BidsTopic b \<longleftrightarrow> a = b) \<and> (WinsTopic a = WinsTopic b \<longleftrightarrow> a = b) \<and>
    (ProposalsTopic a = ProposalsTopic b \<longleftrightarrow> a = b) \<and>
    distinct [BidsTopic a, WinsTopic b, ProposalsTopic b, Topic, BidbotEventsTopic]"
  using suffix_neq [OF assms] suffix_neq [OF assms(2,2)] event_neq [of a] event_neq [of b]
  by (simp add: topic_eqs [OF assms(1)] topic_eqs [OF assms(2)])

theorem topics_distinct_witness:
  "BidsTopic ''01f6taxy'' \<noteq> WinsTopic ''12D3KooW'' \<and>
   BidsTopic ''01f6taxy'' = ''/textile/auction/0.0.1/01f6taxy/bids''"
  using topics_distinct [of "''01f6taxy''" "''12D3KooW''"] topic_eqs(1) [of "''01f6taxy''"]
  by (simp add: plain_segment_def Topic_def)

end
