(* ===== verification/Limiter.thy ===== *)
theory Limiter
  imports Go_Prelude
begin

text \<open>
  The running total limiter of \<open>service/limiter/running_total_limiter.go\<close>: the interface, the
  sliding log implementation with its expiry timers, and the limiter that does nothing.
\<close>

section \<open>State\<close>

text \<open>
  \<open>requested.t\<close> is a pointer to the timer made by \<open>time.AfterFunc\<close>; the model numbers the
  timers. \<open>rl_timers\<close> holds the armed ones with the id their callback closes over and the time
  at which they fire, \<open>rl_fired\<close> the callbacks that were started in their own goroutine and have
  not yet taken the lock.
\<close>

record requested =
  rq_n :: u64
  rq_t :: nat

record elem =
  el_id :: string
  el_n :: u64
  el_ts :: go_time

record timer =
  tm_id :: string
  tm_deadline :: go_time

record RunningTotalLimiter =
  rl_period :: duration
  rl_limit :: u64
  rl_total :: u64
  rl_requested :: "string \<rightharpoonup> requested"
  rl_committed :: "elem list"
  rl_timers :: "nat \<rightharpoonup> timer"
  rl_nextTimer :: nat
  rl_fired :: "string list"

definition NewRunningTotalLimiter :: "u64 \<Rightarrow> duration \<Rightarrow> RunningTotalLimiter" where
  "NewRunningTotalLimiter lim period =
     \<lparr>rl_period = period, rl_limit = lim, rl_total = 0, rl_requested = Map.empty,
      rl_committed = [], rl_timers = Map.empty, rl_nextTimer = 0, rl_fired = []\<rparr>"

section \<open>Operations\<close>

text \<open>The loop at the head of \<open>Request\<close>: drop committed tokens older than the period.\<close>

fun evict :: "go_time \<Rightarrow> duration \<Rightarrow> elem list \<Rightarrow> u64 \<Rightarrow> elem list \<times> u64" where
  "evict now period [] tot = ([], tot)"
| "evict now period (item # es) tot =
     (if time_Sub now (el_ts item) \<le> period then (item # es, tot)
      else evict now period es (tot - el_n item))"

definition evictOld :: "go_time \<Rightarrow> RunningTotalLimiter \<Rightarrow> RunningTotalLimiter" where
  "evictOld now rl =
     (let (com, tot) = evict now (rl_period rl) (rl_committed rl) (rl_total rl)
      in rl\<lparr>rl_committed := com, rl_total := tot\<rparr>)"

text \<open>
  \<open>now\<close> is read before the lock is taken, \<open>now'\<close> is the time at which \<open>time.AfterFunc\<close>
  arms the timer. A request for an id that already has one overwrites the map entry.
\<close>

definition Request ::
  "go_time \<Rightarrow> go_time \<Rightarrow> string \<Rightarrow> u64 \<Rightarrow> duration \<Rightarrow> RunningTotalLimiter \<Rightarrow>
     bool \<times> RunningTotalLimiter" where
  "Request now now' k n expiration rl =
     (let rl1 = evictOld now rl
      in if rl_total rl1 + n > rl_limit rl then (False, rl1)
         else (True, rl1\<lparr>rl_total := rl_total rl1 + n,
                 rl_requested := (rl_requested rl)(k \<mapsto> \<lparr>rq_n = n, rq_t = rl_nextTimer rl\<rparr>),
                 rl_timers := (rl_timers rl)
                   (rl_nextTimer rl \<mapsto> \<lparr>tm_id = k, tm_deadline = now' + expiration\<rparr>),
                 rl_nextTimer := Suc (rl_nextTimer rl)\<rparr>))"

text \<open>\<open>Timer.Stop\<close> on a timer that already fired does nothing.\<close>

definition Secure :: "string \<Rightarrow> RunningTotalLimiter \<Rightarrow> RunningTotalLimiter" where
  "Secure k rl =
     (case rl_requested rl k of
        Some pa \<Rightarrow> rl\<lparr>rl_timers := (rl_timers rl)(rq_t pa := None)\<rparr>
      | None \<Rightarrow> rl)"

definition Commit :: "go_time \<Rightarrow> string \<Rightarrow> RunningTotalLimiter \<Rightarrow> RunningTotalLimiter" where
  "Commit now k rl =
     (case rl_requested rl k of
        Some pa \<Rightarrow>
          rl\<lparr>rl_committed := rl_committed rl @ [\<lparr>el_id = k, el_n = rq_n pa, el_ts = now\<rparr>],
             rl_requested := (rl_requested rl)(k := None)\<rparr>
      | None \<Rightarrow> rl)"

definition Withdraw :: "string \<Rightarrow> RunningTotalLimiter \<Rightarrow> RunningTotalLimiter" where
  "Withdraw k rl =
     (case rl_requested rl k of
        Some pa \<Rightarrow>
          rl\<lparr>rl_requested := (rl_requested rl)(k := None), rl_total := rl_total rl - rq_n pa\<rparr>
      | None \<Rightarrow> rl)"

text \<open>The two halves of an expiry: the runtime fires a due timer, then its callback runs.\<close>

definition fireTimer :: "go_time \<Rightarrow> nat \<Rightarrow> RunningTotalLimiter \<Rightarrow> RunningTotalLimiter" where
  "fireTimer now t rl =
     (case rl_timers rl t of
        Some tm \<Rightarrow>
          if tm_deadline tm \<le> now
          then rl\<lparr>rl_timers := (rl_timers rl)(t := None), rl_fired := rl_fired rl @ [tm_id tm]\<rparr>
          else rl
      | None \<Rightarrow> rl)"

definition runFired :: "nat \<Rightarrow> RunningTotalLimiter \<Rightarrow> RunningTotalLimiter" where
  "runFired i rl =
     (if i < length (rl_fired rl)
      then Withdraw (rl_fired rl ! i)
             (rl\<lparr>rl_fired := take i (rl_fired rl) @ drop (Suc i) (rl_fired rl)\<rparr>)
      else rl)"

section \<open>Runs\<close>

datatype lim_op =
    OpRequest go_time go_time string u64 duration
  | OpSecure string
  | OpCommit go_time string
  | OpWithdraw string
  | OpFire go_time nat
  | OpRunFired nat

fun lim_step :: "RunningTotalLimiter \<Rightarrow> lim_op \<Rightarrow> RunningTotalLimiter" where
  "lim_step rl (OpRequest now now' k n e) = snd (Request now now' k n e rl)"
| "lim_step rl (OpSecure k) = Secure k rl"
| "lim_step rl (OpCommit now k) = Commit now k rl"
| "lim_step rl (OpWithdraw k) = Withdraw k rl"
| "lim_step rl (OpFire now t) = fireTimer now t rl"
| "lim_step rl (OpRunFired i) = runFired i rl"

definition lim_run :: "RunningTotalLimiter \<Rightarrow> lim_op list \<Rightarrow> RunningTotalLimiter" where
  "lim_run = foldl lim_step"

section \<open>Accounting\<close>

text \<open>Tokens requested and not yet committed or withdrawn, and tokens in the log.\<close>

definition outstanding :: "RunningTotalLimiter \<Rightarrow> nat" where
  "outstanding rl = map_weight (\<lambda>r. unat (rq_n r)) (rl_requested rl)"

definition held :: "RunningTotalLimiter \<Rightarrow> string \<Rightarrow> nat" where
  "held rl k = weight_at (\<lambda>r. unat (rq_n r)) (rl_requested rl) k"

definition logged :: "elem list \<Rightarrow> nat" where
  "logged es = (\<Sum>e\<leftarrow>es. unat (el_n e))"

definition accounted :: "RunningTotalLimiter \<Rightarrow> nat" where
  "accounted rl = outstanding rl + logged (rl_committed rl)"

text \<open>
  The total covers every token the limiter accounts for and stays within the limit. The difference
  \<open>slack\<close> is what the total counts and no request or log entry explains.
\<close>

definition lim_inv :: "RunningTotalLimiter \<Rightarrow> bool" where
  "lim_inv rl \<longleftrightarrow> finite (dom (rl_requested rl)) \<and>
     accounted rl \<le> unat (rl_total rl) \<and> unat (rl_total rl) \<le> unat (rl_limit rl)"

definition slack :: "RunningTotalLimiter \<Rightarrow> nat" where
  "slack rl = unat (rl_total rl) - accounted rl"

lemma logged_simps [simp, acct]:
  "logged [] = 0"
  "logged (e # es) = unat (el_n e) + logged es"
  "logged (es @ fs) = logged es + logged fs"
  by (simp_all add: logged_def)

lemma evict_suffix:
  "evict now p es tot = (fs, t) \<Longrightarrow> \<exists>ds. es = ds @ fs \<and>
     (\<forall>d \<in> set ds. time_Sub now (el_ts d) > p) \<and>
     (fs \<noteq> [] \<longrightarrow> time_Sub now (el_ts (hd fs)) \<le> p)"
proof (induction now p es tot rule: evict.induct)
  case (2 now p e es tot)
  show ?case
  proof (cases "time_Sub now (el_ts e) \<le> p")
    case False
    with 2 obtain ds where "es = ds @ fs \<and> (\<forall>d \<in> set ds. time_Sub now (el_ts d) > p) \<and>
        (fs \<noteq> [] \<longrightarrow> time_Sub now (el_ts (hd fs)) \<le> p)" by auto
    with False show ?thesis by (intro exI [of _ "e # ds"]) auto
  qed (use 2 in auto)
qed simp

lemma evict_total:
  "evict now p es tot = (fs, t) \<Longrightarrow> logged es \<le> unat tot \<Longrightarrow>
     unat t + logged es = unat tot + logged fs"
proof (induction now p es tot rule: evict.induct)
  case (2 now p e es tot)
  show ?case
  proof (cases "time_Sub now (el_ts e) \<le> p")
    case False
    have "unat (tot - el_n e) = unat tot - unat (el_n e)"
      using "2.prems"(2) by (intro unat_sub_no_wrap) simp
    moreover from this 2 False have "unat t + logged es = unat (tot - el_n e) + logged fs" by auto
    ultimately show ?thesis using "2.prems"(2) by simp
  qed (use 2 in auto)
qed simp

subsection \<open>What one operation does to the books\<close>

lemma evictOld_frame [simp]:
  "rl_period (evictOld now rl) = rl_period rl" "rl_limit (evictOld now rl) = rl_limit rl"
  "rl_requested (evictOld now rl) = rl_requested rl" "rl_timers (evictOld now rl) = rl_timers rl"
  "rl_nextTimer (evictOld now rl) = rl_nextTimer rl" "rl_fired (evictOld now rl) = rl_fired rl"
  by (simp_all add: evictOld_def split: prod.split)

lemma evictOld_books:
  assumes "lim_inv rl"
  shows "unat (rl_total (evictOld now rl)) + logged (rl_committed rl) =
         unat (rl_total rl) + logged (rl_committed (evictOld now rl))"
    and "logged (rl_committed (evictOld now rl)) \<le> logged (rl_committed rl)"
proof -
  obtain com tot where ev: "evict now (rl_period rl) (rl_committed rl) (rl_total rl) = (com, tot)"
    by fastforce
  have "logged (rl_committed rl) \<le> unat (rl_total rl)"
    using assms by (simp add: lim_inv_def accounted_def)
  from evict_total [OF ev this] ev
  show "unat (rl_total (evictOld now rl)) + logged (rl_committed rl) =
        unat (rl_total rl) + logged (rl_committed (evictOld now rl))"
    by (simp add: evictOld_def)
  from evict_suffix [OF ev] ev
  show "logged (rl_committed (evictOld now rl)) \<le> logged (rl_committed rl)"
    by (auto simp: evictOld_def)
qed

lemma evictOld_inv:
  assumes "lim_inv rl"
  shows "lim_inv (evictOld now rl)" "slack (evictOld now rl) = slack rl"
  using assms evictOld_books [OF assms, of now]
  by (simp_all add: lim_inv_def slack_def accounted_def outstanding_def)

lemma held_evictOld [simp]: "held (evictOld now rl) k = held rl k"
  by (simp add: held_def)

text \<open>The size of a request stays below the point where adding it to the limit would wrap.\<close>

definition in_range :: "RunningTotalLimiter \<Rightarrow> u64 \<Rightarrow> bool" where
  "in_range rl n \<longleftrightarrow> unat (rl_limit rl) + unat n < 2 ^ 64"

lemma add_in_range:
  assumes "lim_inv rl" "in_range rl n"
  shows "unat (rl_total rl + n) = unat (rl_total rl) + unat n"
  using assms by (intro unat_add_no_wrap) (simp add: lim_inv_def in_range_def)

lemma Request_granted:
  assumes "Request now now' k n e rl = (True, rl')" "lim_inv rl" "in_range rl n"
  shows "lim_inv rl'" "slack rl' = slack rl + held rl k"
    "held rl' k = unat n" "rl_limit rl' = rl_limit rl"
proof -
  let ?ev = "evictOld now rl"
  have inv: "lim_inv ?ev" and sl: "slack ?ev = slack rl" using assms(2) by (auto intro: evictOld_inv)
  have tot: "unat (rl_total ?ev + n) = unat (rl_total ?ev) + unat n"
    using inv assms(3) by (intro add_in_range) (simp_all add: in_range_def)
  have le: "unat (rl_total ?ev) + unat n \<le> unat (rl_limit rl)"
    using assms(1) tot by (auto simp: Request_def Let_def word_less_nat_alt split: if_splits)
  have rl': "rl_total rl' = rl_total ?ev + n" "rl_limit rl' = rl_limit rl"
    "rl_committed rl' = rl_committed ?ev"
    "rl_requested rl' = (rl_requested rl)(k \<mapsto> \<lparr>rq_n = n, rq_t = rl_nextTimer rl\<rparr>)"
    using assms(1) by (auto simp: Request_def Let_def split: if_splits)
  have fin: "finite (dom (rl_requested rl))" using assms(2) by (simp add: lim_inv_def)
  have out: "outstanding rl' + held rl k = outstanding rl + unat n"
    using map_weight_split [OF fin, of "\<lambda>r. unat (rq_n r)" k]
    by (simp add: outstanding_def held_def rl' map_weight_update [OF fin])
  have acc: "accounted rl' + held rl k = accounted ?ev + unat n"
    using out by (simp add: accounted_def rl' outstanding_def)
  show "rl_limit rl' = rl_limit rl" by (rule rl')
  show "held rl' k = unat n" by (simp add: held_def rl' weight_at_def)
  show "lim_inv rl'" using inv acc le fin by (auto simp: lim_inv_def rl' tot)
  have "accounted ?ev \<le> unat (rl_total ?ev)" using inv by (simp add: lim_inv_def)
  then show "slack rl' = slack rl + held rl k"
    using acc sl by (simp add: slack_def rl' tot)
qed

lemma Request_denied:
  assumes "Request now now' k n e rl = (False, rl')"
  shows "rl' = evictOld now rl"
  using assms by (auto simp: Request_def Let_def split: if_splits)

lemma Secure_frame [simp]:
  "rl_requested (Secure k rl) = rl_requested rl" "rl_committed (Secure k rl) = rl_committed rl"
  "rl_total (Secure k rl) = rl_total rl" "rl_limit (Secure k rl) = rl_limit rl"
  "rl_fired (Secure k rl) = rl_fired rl" "rl_nextTimer (Secure k rl) = rl_nextTimer rl"
  by (simp_all add: Secure_def split: option.split)

lemma fireTimer_frame [simp]:
  "rl_requested (fireTimer now t rl) = rl_requested rl"
  "rl_committed (fireTimer now t rl) = rl_committed rl"
  "rl_total (fireTimer now t rl) = rl_total rl" "rl_limit (fireTimer now t rl) = rl_limit rl"
  by (simp_all add: fireTimer_def split: option.split)

lemma books_eq_inv:
  assumes "rl_requested rl' = rl_requested rl" "rl_committed rl' = rl_committed rl"
    "rl_total rl' = rl_total rl" "rl_limit rl' = rl_limit rl"
  shows "lim_inv rl' \<longleftrightarrow> lim_inv rl" "slack rl' = slack rl"
  using assms by (simp_all add: lim_inv_def slack_def accounted_def outstanding_def)

lemma Commit_books:
  assumes "lim_inv rl"
  shows "lim_inv (Commit now k rl)" "slack (Commit now k rl) = slack rl"
    "held (Commit now k rl) = (held rl)(k := 0)" "rl_limit (Commit now k rl) = rl_limit rl"
proof -
  have fin: "finite (dom (rl_requested rl))" using assms by (simp add: lim_inv_def)
  have "accounted (Commit now k rl) = accounted rl"
    using map_weight_split [OF fin, of "\<lambda>r. unat (rq_n r)" k]
    by (auto simp: Commit_def accounted_def outstanding_def weight_at_def split: option.split)
  moreover have "rl_total (Commit now k rl) = rl_total rl"
    by (simp add: Commit_def split: option.split)
  moreover have "finite (dom (rl_requested (Commit now k rl)))"
    using fin by (simp add: Commit_def split: option.split)
  moreover show "rl_limit (Commit now k rl) = rl_limit rl"
    by (simp add: Commit_def split: option.split)
  ultimately show "lim_inv (Commit now k rl)" "slack (Commit now k rl) = slack rl"
    using assms by (simp_all add: lim_inv_def slack_def)
  show "held (Commit now k rl) = (held rl)(k := 0)"
    by (auto simp: Commit_def held_def weight_at_def fun_eq_iff split: option.split)
qed

lemma Withdraw_books:
  assumes "lim_inv rl"
  shows "lim_inv (Withdraw k rl)" "slack (Withdraw k rl) = slack rl"
    "held (Withdraw k rl) = (held rl)(k := 0)" "rl_limit (Withdraw k rl) = rl_limit rl"
    "unat (rl_total (Withdraw k rl)) + held rl k = unat (rl_total rl)"
proof -
  have fin: "finite (dom (rl_requested rl))" using assms by (simp add: lim_inv_def)
  note split = map_weight_split [OF fin, of "\<lambda>r. unat (rq_n r)" k]
  have acc: "accounted (Withdraw k rl) + held rl k = accounted rl"
    using split by (auto simp: Withdraw_def accounted_def outstanding_def held_def weight_at_def
        split: option.split)
  have "held rl k \<le> unat (rl_total rl)"
    using assms acc by (simp add: lim_inv_def)
  then show tot: "unat (rl_total (Withdraw k rl)) + held rl k = unat (rl_total rl)"
    by (auto simp: Withdraw_def held_def weight_at_def unat_sub_no_wrap split: option.split)
  have fin': "finite (dom (rl_requested (Withdraw k rl)))"
    using fin by (simp add: Withdraw_def split: option.split)
  show lim: "rl_limit (Withdraw k rl) = rl_limit rl"
    by (simp add: Withdraw_def split: option.split)
  show "lim_inv (Withdraw k rl)" "slack (Withdraw k rl) = slack rl"
    using assms acc tot fin' lim by (auto simp: lim_inv_def slack_def)
  show "held (Withdraw k rl) = (held rl)(k := 0)"
    by (auto simp: Withdraw_def held_def weight_at_def fun_eq_iff split: option.split)
qed

lemma runFired_books:
  assumes "lim_inv rl"
  shows "lim_inv (runFired i rl)" "slack (runFired i rl) = slack rl"
    "rl_limit (runFired i rl) = rl_limit rl"
proof -
  let ?rl = "rl\<lparr>rl_fired := take i (rl_fired rl) @ drop (Suc i) (rl_fired rl)\<rparr>"
  have eq: "lim_inv ?rl" "slack ?rl = slack rl"
    using assms books_eq_inv [of ?rl rl] by simp_all
  show "lim_inv (runFired i rl)" "slack (runFired i rl) = slack rl"
    "rl_limit (runFired i rl) = rl_limit rl"
    using assms eq Withdraw_books [OF eq(1)] by (simp_all add: runFired_def)
qed

subsection \<open>Whole runs\<close>

fun op_in_range :: "RunningTotalLimiter \<Rightarrow> lim_op \<Rightarrow> bool" where
  "op_in_range rl (OpRequest _ _ _ n _) = in_range rl n"
| "op_in_range rl _ = True"

lemma op_in_range_limit: "rl_limit rl' = rl_limit rl \<Longrightarrow> op_in_range rl' = op_in_range rl"
  by (rule ext, case_tac x) (simp_all add: in_range_def)

text \<open>An operation leaves the slack alone unless it is a granted request for an id already held.\<close>

fun leak :: "RunningTotalLimiter \<Rightarrow> lim_op \<Rightarrow> nat" where
  "leak rl (OpRequest now now' k n e) = (if fst (Request now now' k n e rl) then held rl k else 0)"
| "leak rl _ = 0"

lemma lim_step_books:
  assumes "lim_inv rl" "op_in_range rl x"
  shows "lim_inv (lim_step rl x)" "slack (lim_step rl x) = slack rl + leak rl x"
    "rl_limit (lim_step rl x) = rl_limit rl"
proof -
  have "lim_inv (lim_step rl x) \<and> slack (lim_step rl x) = slack rl + leak rl x \<and>
    rl_limit (lim_step rl x) = rl_limit rl"
  proof (cases x)
    case (OpRequest now now' k n e)
    obtain g rl' where req: "Request now now' k n e rl = (g, rl')" by fastforce
    show ?thesis
    proof (cases g)
      case True
      with req have req: "Request now now' k n e rl = (True, rl')" by simp
      show ?thesis
        using Request_granted [OF req assms(1)] assms(2) OpRequest req by simp
    next
      case False
      with req have req: "Request now now' k n e rl = (False, rl')" by simp
      then show ?thesis
        using Request_denied [OF req] evictOld_inv [OF assms(1)] OpRequest by simp
    qed
  next
    case (OpSecure k)
    then show ?thesis using books_eq_inv [of "Secure k rl" rl] assms by simp
  next
    case (OpFire now t)
    then show ?thesis using books_eq_inv [of "fireTimer now t rl" rl] assms by simp
  qed (use assms Commit_books Withdraw_books runFired_books in simp_all)
  then show "lim_inv (lim_step rl x)" "slack (lim_step rl x) = slack rl + leak rl x"
    "rl_limit (lim_step rl x) = rl_limit rl" by simp_all
qed

lemma lim_run_simps [simp]:
  "lim_run rl [] = rl" "lim_run rl (x # xs) = lim_run (lim_step rl x) xs"
  by (simp_all add: lim_run_def)

lemma lim_run_inv:
  "lim_inv rl \<Longrightarrow> (\<forall>x \<in> set xs. op_in_range rl x) \<Longrightarrow>
     lim_inv (lim_run rl xs) \<and> rl_limit (lim_run rl xs) = rl_limit rl \<and>
     slack rl \<le> slack (lim_run rl xs)"
proof (induction xs arbitrary: rl)
  case (Cons x xs)
  have x: "op_in_range rl x" using Cons.prems(2) by simp
  note step = lim_step_books [OF Cons.prems(1) x]
  have "\<forall>y \<in> set xs. op_in_range (lim_step rl x) y"
    using Cons.prems(2) unfolding op_in_range_limit [OF step(3)] by simp
  from Cons.IH [OF step(1) this] Cons.prems(2) step(2,3) show ?case by simp
qed simp

text \<open>A run in which no granted request is for an id that still holds tokens.\<close>

fun no_rerequest :: "RunningTotalLimiter \<Rightarrow> lim_op list \<Rightarrow> bool" where
  "no_rerequest rl [] = True"
| "no_rerequest rl (x # xs) = (leak rl x = 0 \<and> no_rerequest (lim_step rl x) xs)"

lemma lim_run_exact:
  "lim_inv rl \<Longrightarrow> (\<forall>x \<in> set xs. op_in_range rl x) \<Longrightarrow> no_rerequest rl xs \<Longrightarrow>
     slack (lim_run rl xs) = slack rl"
proof (induction xs arbitrary: rl)
  case (Cons x xs)
  have x: "op_in_range rl x" using Cons.prems(2) by simp
  note step = lim_step_books [OF Cons.prems(1) x]
  have "\<forall>y \<in> set xs. op_in_range (lim_step rl x) y"
    using Cons.prems(2) unfolding op_in_range_limit [OF step(3)] by simp
  from Cons.IH [OF step(1) this] Cons.prems(3) step(2) show ?case by simp
qed simp

lemma New_inv:
  "lim_inv (NewRunningTotalLimiter lim p)" "slack (NewRunningTotalLimiter lim p) = 0"
  "rl_limit (NewRunningTotalLimiter lim p) = lim"
  by (simp_all add: NewRunningTotalLimiter_def lim_inv_def slack_def accounted_def outstanding_def)

section \<open>The sliding window\<close>

text \<open>
  What the comment of the source promises as the running total at time \<open>now\<close>: the tokens
  requested and not expired, plus those committed in the last \<open>period\<close>.
\<close>

definition recent :: "go_time \<Rightarrow> RunningTotalLimiter \<Rightarrow> elem list" where
  "recent now rl = filter (\<lambda>e. time_Sub now (el_ts e) \<le> rl_period rl) (rl_committed rl)"

definition running_total :: "go_time \<Rightarrow> RunningTotalLimiter \<Rightarrow> nat" where
  "running_total now rl = outstanding rl + logged (recent now rl)"

abbreviation chronological :: "RunningTotalLimiter \<Rightarrow> bool" where
  "chronological rl \<equiv> sorted (map el_ts (rl_committed rl))"

lemma evict_chronological:
  "sorted (map el_ts es) \<Longrightarrow> fst (evict now p es tot) = filter (\<lambda>e. time_Sub now (el_ts e) \<le> p) es"
proof (induction now p es tot rule: evict.induct)
  case (2 now p e es tot)
  show ?case
  proof (cases "time_Sub now (el_ts e) \<le> p")
    case True
    have "time_Sub now (el_ts d) \<le> p" if "d \<in> set es" for d
    proof -
      have "el_ts e \<le> el_ts d" using "2.prems" that by auto
      from time_Sub_antimono [OF this, of now] True show ?thesis by linarith
    qed
    then have "filter (\<lambda>e. time_Sub now (el_ts e) \<le> p) es = es" by simp
    with True show ?thesis by simp
  qed (use 2 in auto)
qed simp

lemma evictOld_recent: "chronological rl \<Longrightarrow> rl_committed (evictOld now rl) = recent now rl"
  using evict_chronological [of "rl_committed rl" now "rl_period rl" "rl_total rl"]
  by (simp add: evictOld_def recent_def case_prod_unfold)

lemma evictOld_total:
  assumes "lim_inv rl" "slack rl = 0" "chronological rl"
  shows "unat (rl_total (evictOld now rl)) = running_total now rl"
proof -
  have "lim_inv (evictOld now rl)" "slack (evictOld now rl) = 0"
    using evictOld_inv [OF assms(1)] assms(2) by simp_all
  then have "unat (rl_total (evictOld now rl)) = accounted (evictOld now rl)"
    by (simp add: lim_inv_def slack_def)
  then show ?thesis
    by (simp add: accounted_def running_total_def outstanding_def evictOld_recent [OF assms(3)])
qed

lemma Request_window:
  assumes "lim_inv rl" "slack rl = 0" "chronological rl" "in_range rl n"
  shows "fst (Request now now' k n e rl) \<longleftrightarrow> running_total now rl + unat n \<le> unat (rl_limit rl)"
proof -
  let ?ev = "evictOld now rl"
  have "unat (rl_total ?ev + n) = unat (rl_total ?ev) + unat n"
    using evictOld_inv [OF assms(1), of now] assms(4)
    by (intro add_in_range) (simp_all add: in_range_def)
  then show ?thesis
    using evictOld_total [OF assms(1-3), of now]
    by (auto simp: Request_def Let_def word_less_nat_alt)
qed

text \<open>The log is in order when the clock read under the lock never goes back.\<close>

fun commit_times :: "lim_op list \<Rightarrow> go_time list" where
  "commit_times [] = []"
| "commit_times (OpCommit now k # xs) = now # commit_times xs"
| "commit_times (x # xs) = commit_times xs"

lemma chronological_evictOld:
  "sorted (map el_ts (rl_committed rl) @ ts) \<Longrightarrow>
     sorted (map el_ts (rl_committed (evictOld now rl)) @ ts)"
  using evictOld_recent [of rl now] by (auto simp: sorted_append recent_def sorted_map_same sorted_filter)

lemma Request_committed: "rl_committed (snd (Request now now' k n e rl)) = rl_committed (evictOld now rl)"
  by (simp add: Request_def Let_def)

lemma Withdraw_committed: "rl_committed (Withdraw k rl) = rl_committed rl"
  by (simp add: Withdraw_def split: option.split)

lemma chronological_step:
  "sorted (map el_ts (rl_committed rl) @ commit_times (x # xs)) \<Longrightarrow>
     sorted (map el_ts (rl_committed (lim_step rl x)) @ commit_times xs)"
proof (cases x)
  case (OpCommit now k)
  then show "sorted (map el_ts (rl_committed rl) @ commit_times (x # xs)) \<Longrightarrow> ?thesis"
    by (auto simp: Commit_def sorted_append split: option.split)
qed (auto simp: Request_committed Withdraw_committed runFired_def
    intro: chronological_evictOld split: option.split)

lemma chronological_run:
  "sorted (map el_ts (rl_committed rl) @ commit_times xs) \<Longrightarrow> chronological (lim_run rl xs)"
proof (induction xs arbitrary: rl)
  case (Cons x xs)
  from Cons.IH [OF chronological_step [OF Cons.prems]] show ?case by simp
qed simp

section \<open>The history of a limiter\<close>

text \<open>
  What can be seen of a run from outside: which requests were granted, which ids were committed and
  when, and which were withdrawn, by a call or by the callback of a timer.
\<close>

datatype lim_event = Granted string nat | Imported go_time string | Released string

fun observed :: "RunningTotalLimiter \<Rightarrow> lim_op \<Rightarrow> lim_event list" where
  "observed rl (OpRequest now now' k n e) = (if fst (Request now now' k n e rl) then [Granted k (unat n)] else [])"
| "observed rl (OpCommit now k) = [Imported now k]"
| "observed rl (OpWithdraw k) = [Released k]"
| "observed rl (OpRunFired i) = (if i < length (rl_fired rl) then [Released (rl_fired rl ! i)] else [])"
| "observed rl x = []"

fun history :: "RunningTotalLimiter \<Rightarrow> lim_op list \<Rightarrow> lim_event list" where
  "history rl [] = []"
| "history rl (x # xs) = observed rl x @ history (lim_step rl x) xs"

text \<open>
  The books that such a history makes, kept for ever: the tokens that wait for each id, and every
  import with its time and its tokens.
\<close>

type_synonym books = "(string \<rightharpoonup> nat) \<times> (go_time \<times> nat) list"

fun replay :: "lim_event \<Rightarrow> books \<Rightarrow> books" where
  "replay (Granted k n) (w, h) = (w(k \<mapsto> n), h)"
| "replay (Imported t k) (w, h) =
     (case w k of None \<Rightarrow> (w, h) | Some n \<Rightarrow> (w(k := None), h @ [(t, n)]))"
| "replay (Released k) (w, h) = (w(k := None), h)"

definition books_of :: "lim_event list \<Rightarrow> books" where
  "books_of es = fold replay es (Map.empty, [])"

text \<open>The tokens that wait, and those of the imports of the last \<open>p\<close> before \<open>now\<close>.\<close>

definition in_window :: "go_time \<Rightarrow> duration \<Rightarrow> books \<Rightarrow> nat" where
  "in_window now p b = map_weight (\<lambda>n. n) (fst b) +
     (\<Sum>(t, n) \<leftarrow> snd b. if time_Sub now t \<le> p then n else 0)"

text \<open>The state against these books: the log lacks only imports that were too old at time \<open>T\<close>.\<close>

definition mirrors :: "duration \<Rightarrow> go_time \<Rightarrow> RunningTotalLimiter \<Rightarrow> books \<Rightarrow> bool" where
  "mirrors p T rl b \<longleftrightarrow> rl_period rl = p \<and> fst b = (\<lambda>k. map_option (\<lambda>r. unat (rq_n r)) (rl_requested rl k)) \<and>
     (\<exists>old. snd b = old @ map (\<lambda>e. (el_ts e, unat (el_n e))) (rl_committed rl) \<and>
        (\<forall>(t, n) \<in> set old. p < time_Sub T t))"

fun request_times :: "lim_op list \<Rightarrow> go_time list" where
  "request_times [] = []"
| "request_times (OpRequest now now' k n e # xs) = now # request_times xs"
| "request_times (x # xs) = request_times xs"

lemma mirrors_same:
  assumes "mirrors p T rl b" "rl_period rl' = rl_period rl" "rl_requested rl' = rl_requested rl"
    "rl_committed rl' = rl_committed rl"
  shows "mirrors p T rl' b"
  using assms by (simp add: mirrors_def)

lemma mirrors_evictOld:
  assumes "mirrors p T rl b" "T \<le> now"
  shows "mirrors p now (evictOld now rl) b"
proof -
  from assms(1) obtain old where old: "snd b = old @ map (\<lambda>e. (el_ts e, unat (el_n e))) (rl_committed rl)"
    "\<forall>(t, n) \<in> set old. p < time_Sub T t" and rest: "rl_period rl = p"
    "fst b = (\<lambda>k. map_option (\<lambda>r. unat (rq_n r)) (rl_requested rl k))"
    by (auto simp: mirrors_def)
  obtain fs t where ev: "evict now (rl_period rl) (rl_committed rl) (rl_total rl) = (fs, t)" by fastforce
  from evict_suffix [OF ev] rest obtain ds where ds: "rl_committed rl = ds @ fs" "\<forall>d \<in> set ds. p < time_Sub now (el_ts d)"
    by auto
  have "p < time_Sub now t" if "(t, n) \<in> set old" for t n
    using that old(2) time_Sub_mono [OF assms(2), of t] by fastforce
  with ds have "\<forall>(t, n) \<in> set (old @ map (\<lambda>e. (el_ts e, unat (el_n e))) ds). p < time_Sub now t" by auto
  moreover have "snd b = (old @ map (\<lambda>e. (el_ts e, unat (el_n e))) ds) @ map (\<lambda>e. (el_ts e, unat (el_n e))) fs"
    using old(1) ds(1) by simp
  moreover have "rl_committed (evictOld now rl) = fs" using ev by (simp add: evictOld_def)
  ultimately show ?thesis using rest unfolding mirrors_def by auto
qed

lemma mirrors_Withdraw: "mirrors p T rl b \<Longrightarrow> mirrors p T (Withdraw k rl) (replay (Released k) b)"
  by (cases b) (auto simp: mirrors_def Withdraw_def fun_eq_iff split: option.split)

lemma mirrors_Commit: "mirrors p T rl b \<Longrightarrow> mirrors p T (Commit now k rl) (replay (Imported now k) b)"
  by (cases b) (auto simp: mirrors_def Commit_def fun_eq_iff split: option.split)

lemma mirrors_step:
  assumes "mirrors p T rl b" and "\<forall>now \<in> set (request_times [x]). T \<le> now"
  shows "mirrors p (last (T # request_times [x])) (lim_step rl x) (fold replay (observed rl x) b)"
proof (cases x)
  case (OpRequest now now' k n e)
  with assms have ev: "mirrors p now (evictOld now rl) b" by (intro mirrors_evictOld) simp_all
  obtain g rl' where req: "Request now now' k n e rl = (g, rl')" by fastforce
  show ?thesis
  proof (cases g)
    case True
    then have "mirrors p now rl' (replay (Granted k (unat n)) b)"
      using ev req by (cases b) (auto simp: Request_def Let_def mirrors_def fun_eq_iff split: if_splits)
    with OpRequest req True show ?thesis by simp
  next
    case False
    with req have "rl' = evictOld now rl" using Request_denied by simp
    with OpRequest req False ev show ?thesis by simp
  qed
next
  case (OpRunFired i)
  let ?rl = "rl\<lparr>rl_fired := take i (rl_fired rl) @ drop (Suc i) (rl_fired rl)\<rparr>"
  have "mirrors p T ?rl b" by (rule mirrors_same [OF assms(1)]) simp_all
  from mirrors_Withdraw [OF this] assms(1) OpRunFired show ?thesis by (simp add: runFired_def)
next
  case (OpSecure k)
  have "mirrors p T (Secure k rl) b"
    by (rule mirrors_same [OF assms(1)]) (simp_all add: Secure_def split: option.split)
  with OpSecure show ?thesis by simp
next
  case (OpFire now t)
  have "mirrors p T (fireTimer now t rl) b"
    by (rule mirrors_same [OF assms(1)]) (simp_all add: fireTimer_def split: option.split)
  with OpFire show ?thesis by simp
qed (use assms mirrors_Withdraw mirrors_Commit in auto)

lemma mirrors_run:
  "mirrors p T rl b \<Longrightarrow> sorted (T # request_times xs @ [now]) \<Longrightarrow>
     \<exists>T' \<le> now. mirrors p T' (lim_run rl xs) (fold replay (history rl xs) b)"
proof (induction xs arbitrary: T rl b)
  case Nil
  then show ?case by auto
next
  case (Cons x xs)
  have split: "request_times (x # xs) = request_times [x] @ request_times xs" by (cases x) simp_all
  have "sorted (last (T # request_times [x]) # request_times xs @ [now])"
    using Cons.prems(2) by (cases x) auto
  moreover have "\<forall>now \<in> set (request_times [x]). T \<le> now" using Cons.prems(2) unfolding split by auto
  note mirrors_step [OF Cons.prems(1) this]
  ultimately show ?case using Cons.IH by simp
qed

lemma mirrors_New: "mirrors p T (NewRunningTotalLimiter lim p) (Map.empty, [])"
  by (simp add: mirrors_def NewRunningTotalLimiter_def)

lemma mirrors_window:
  assumes "mirrors p T rl b" "T \<le> now"
  shows "in_window now p b = running_total now rl"
proof -
  from assms(1) obtain old where old: "snd b = old @ map (\<lambda>e. (el_ts e, unat (el_n e))) (rl_committed rl)"
    "\<forall>(t, n) \<in> set old. p < time_Sub T t" and rest: "rl_period rl = p"
    "fst b = (\<lambda>k. map_option (\<lambda>r. unat (rq_n r)) (rl_requested rl k))"
    by (auto simp: mirrors_def)
  have "p < time_Sub now t" if "(t, n) \<in> set old" for t n
    using that old(2) time_Sub_mono [OF assms(2), of t] by fastforce
  then have "(\<Sum>(t, n) \<leftarrow> old. if time_Sub now t \<le> p then n else 0) = 0"
    by (induction old) fastforce+
  moreover have "(\<Sum>(t, n) \<leftarrow> map (\<lambda>e. (el_ts e, unat (el_n e))) es. if time_Sub now t \<le> p then n else 0) =
      logged (filter (\<lambda>e. time_Sub now (el_ts e) \<le> p) es)" for es
    by (induction es) auto
  moreover have "map_weight (\<lambda>n. n) (fst b) = outstanding rl"
  proof -
    have "dom (fst b) = dom (rl_requested rl)" using rest(2) by auto
    then show ?thesis unfolding map_weight_def outstanding_def by (auto simp: rest(2) intro!: sum.cong)
  qed
  ultimately show ?thesis by (simp add: in_window_def running_total_def recent_def old(1) rest(1))
qed

section \<open>Expiry\<close>

definition expirable :: "RunningTotalLimiter \<Rightarrow> string \<Rightarrow> bool" where
  "expirable rl k \<longleftrightarrow> (\<exists>t tm. rl_timers rl t = Some tm \<and> tm_id tm = k) \<or> k \<in> set (rl_fired rl)"

fun touches :: "string \<Rightarrow> lim_op \<Rightarrow> bool" where
  "touches k (OpRequest _ _ j _ _) = (j = k)"
| "touches k (OpCommit _ j) = (j = k)"
| "touches k (OpWithdraw j) = (j = k)"
| "touches k _ = False"

lemma secured_step:
  assumes "rl_requested rl k = Some r" "\<not> expirable rl k" "\<not> touches k x"
  shows "rl_requested (lim_step rl x) k = Some r \<and> \<not> expirable (lim_step rl x) k"
proof (cases x)
  case (OpRequest now now' j n e)
  with assms show ?thesis by (auto simp: Request_def Let_def expirable_def)
next
  case (OpSecure j)
  with assms show ?thesis by (auto simp: Secure_def expirable_def split: option.splits if_splits)
next
  case (OpCommit now j)
  with assms show ?thesis by (auto simp: Commit_def expirable_def split: option.split)
next
  case (OpWithdraw j)
  with assms show ?thesis by (auto simp: Withdraw_def expirable_def split: option.split)
next
  case (OpFire now t)
  with assms show ?thesis by (auto simp: fireTimer_def expirable_def split: option.split)
next
  case (OpRunFired i)
  show ?thesis
  proof (cases "i < length (rl_fired rl)")
    case True
    then have "rl_fired rl ! i \<noteq> k" using assms(2) by (auto simp: expirable_def)
    moreover have "k \<notin> set (take i (rl_fired rl)) \<union> set (drop (Suc i) (rl_fired rl))"
      using assms(2) by (auto simp: expirable_def dest: in_set_takeD in_set_dropD)
    ultimately show ?thesis
      using assms OpRunFired True
      by (auto simp: runFired_def Withdraw_def expirable_def split: option.split)
  next
    case False
    with assms OpRunFired show ?thesis by (simp add: runFired_def)
  qed
qed

lemma secured_run:
  "rl_requested rl k = Some r \<Longrightarrow> \<not> expirable rl k \<Longrightarrow> \<forall>x \<in> set xs. \<not> touches k x \<Longrightarrow>
     rl_requested (lim_run rl xs) k = Some r"
proof (induction xs arbitrary: rl)
  case (Cons x xs)
  from secured_step [OF Cons.prems(1,2), of x] Cons.prems(3) Cons.IH [of "lim_step rl x"]
  show ?case by simp
qed simp

lemma Secure_not_expirable:
  assumes "Request now now' k n e rl = (True, rl')" "\<not> expirable rl k"
  shows "rl_requested (Secure k rl') k = Some \<lparr>rq_n = n, rq_t = rl_nextTimer rl\<rparr>"
    "\<not> expirable (Secure k rl') k"
  using assms by (auto simp: Request_def Let_def Secure_def expirable_def split: if_splits) blast

section \<open>The interface\<close>

text \<open>
  The contract of the Go interface \<open>Limiter\<close> that its clients, the bid store and the message
  handlers, rely on. \<open>holds s k\<close> is the number of tokens that wait for \<open>k\<close> to be settled.
\<close>

locale limiter_contract =
  fixes holds :: "'s \<Rightarrow> string \<Rightarrow> nat"
    and request :: "go_time \<Rightarrow> go_time \<Rightarrow> string \<Rightarrow> u64 \<Rightarrow> duration \<Rightarrow> 's \<Rightarrow> bool \<times> 's"
    and secure :: "string \<Rightarrow> 's \<Rightarrow> 's"
    and commit :: "go_time \<Rightarrow> string \<Rightarrow> 's \<Rightarrow> 's"
    and withdraw :: "string \<Rightarrow> 's \<Rightarrow> 's"
  assumes request_other: "j \<noteq> k \<Longrightarrow> holds (snd (request t t' k n e s)) j = holds s j"
    and request_denied: "\<not> fst (request t t' k n e s) \<Longrightarrow> holds (snd (request t t' k n e s)) = holds s"
    and secure_holds: "holds (secure k s) = holds s"
    and commit_holds: "holds (commit t k s) = (holds s)(k := 0)"
    and withdraw_holds: "holds (withdraw k s) = (holds s)(k := 0)"
begin

lemmas settle_holds = commit_holds withdraw_holds

lemma settled_twice:
  "holds (commit t k (withdraw k s)) = holds (withdraw k s)"
  "holds (withdraw k (commit t k s)) = holds (commit t k s)"
  "holds (commit t' k (commit t k s)) = holds (commit t k s)"
  "holds (withdraw k (withdraw k s)) = holds (withdraw k s)"
  by (simp_all add: settle_holds)

lemma settle_other: "j \<noteq> k \<Longrightarrow> holds (commit t k s) j = holds s j"
  "j \<noteq> k \<Longrightarrow> holds (withdraw k s) j = holds s j"
  by (simp_all add: settle_holds)

end

lemma held_laws:
  "j \<noteq> k \<Longrightarrow> held (snd (Request t t' k n e rl)) j = held rl j"
  "\<not> fst (Request t t' k n e rl) \<Longrightarrow> held (snd (Request t t' k n e rl)) = held rl"
  "held (Secure k rl) = held rl"
  "held (Commit t k rl) = (held rl)(k := 0)"
  "held (Withdraw k rl) = (held rl)(k := 0)"
  by (auto simp: Request_def Let_def Secure_def Commit_def Withdraw_def held_def weight_at_def
      fun_eq_iff split: option.split)

interpretation running: limiter_contract held Request Secure Commit Withdraw
  by unfold_locales (simp_all add: held_laws)

text \<open>The dynamic type of a \<open>Limiter\<close>: \<open>NopeLimiter\<close> grants everything and keeps nothing.\<close>

datatype Limiter = Running RunningTotalLimiter | NopeLimiter

fun lim_Request ::
  "go_time \<Rightarrow> go_time \<Rightarrow> string \<Rightarrow> u64 \<Rightarrow> duration \<Rightarrow> Limiter \<Rightarrow> bool \<times> Limiter" where
  "lim_Request now now' k n e (Running rl) =
     (case Request now now' k n e rl of (granted, rl') \<Rightarrow> (granted, Running rl'))"
| "lim_Request now now' k n e NopeLimiter = (True, NopeLimiter)"

fun lim_Secure :: "string \<Rightarrow> Limiter \<Rightarrow> Limiter" where
  "lim_Secure k (Running rl) = Running (Secure k rl)"
| "lim_Secure k NopeLimiter = NopeLimiter"

fun lim_Commit :: "go_time \<Rightarrow> string \<Rightarrow> Limiter \<Rightarrow> Limiter" where
  "lim_Commit now k (Running rl) = Running (Commit now k rl)"
| "lim_Commit now k NopeLimiter = NopeLimiter"

fun lim_Withdraw :: "string \<Rightarrow> Limiter \<Rightarrow> Limiter" where
  "lim_Withdraw k (Running rl) = Running (Withdraw k rl)"
| "lim_Withdraw k NopeLimiter = NopeLimiter"

fun lim_held :: "Limiter \<Rightarrow> string \<Rightarrow> nat" where
  "lim_held (Running rl) k = held rl k"
| "lim_held NopeLimiter k = 0"

lemma lim_held_Running [simp]: "lim_held (Running rl) = held rl"
  and lim_held_Nope [simp]: "lim_held NopeLimiter = (\<lambda>_. 0)"
  by (simp_all add: fun_eq_iff)

interpretation limiter: limiter_contract lim_held lim_Request lim_Secure lim_Commit lim_Withdraw
proof unfold_locales
  fix j k :: string and t t' :: go_time and n e s
  show "j \<noteq> k \<Longrightarrow> lim_held (snd (lim_Request t t' k n e s)) j = lim_held s j"
    using running.request_other [of j k] by (cases s) (auto simp: case_prod_unfold)
  show "\<not> fst (lim_Request t t' k n e s) \<Longrightarrow> lim_held (snd (lim_Request t t' k n e s)) = lim_held s"
    using running.request_denied by (cases s) (auto simp: case_prod_unfold)
  show "lim_held (lim_Secure k s) = lim_held s"
    by (cases s) (simp_all add: running.secure_holds)
  show "lim_held (lim_Commit t k s) = (lim_held s)(k := 0)"
    by (cases s) (auto simp: running.commit_holds fun_eq_iff)
  show "lim_held (lim_Withdraw k s) = (lim_held s)(k := 0)"
    by (cases s) (auto simp: running.withdraw_holds fun_eq_iff)
qed

section \<open>Properties\<close>

text \<open>
  C11: from a new limiter, any sequence of requests (of sizes that do not overflow the counter),
  expiries and settlements leaves the running total within the limit, and the total covers every
  token outstanding or in the log: the limiter never gives out more than its limit.
\<close>

theorem limiter_within_limit:
  assumes "\<forall>x \<in> set xs. op_in_range (NewRunningTotalLimiter lim p) x"
  shows "accounted (lim_run (NewRunningTotalLimiter lim p) xs)
           \<le> unat (rl_total (lim_run (NewRunningTotalLimiter lim p) xs)) \<and>
         unat (rl_total (lim_run (NewRunningTotalLimiter lim p) xs)) \<le> unat lim"
  using lim_run_inv [OF New_inv(1) assms] by (auto simp: New_inv lim_inv_def)

abbreviation sample_ops :: "lim_op list" where
  "sample_ops \<equiv> [OpRequest 0 0 ''a'' 3 10, OpSecure ''a'', OpCommit 1 ''a'',
     OpRequest 2 2 ''b'' 1 10]"

definition sample_run :: RunningTotalLimiter where
  "sample_run = lim_run (NewRunningTotalLimiter 5 50) sample_ops"

lemmas lim_eval = NewRunningTotalLimiter_def Request_def Secure_def Commit_def Withdraw_def
  fireTimer_def runFired_def evictOld_def Let_def time_Sub_def maxDuration_def minDuration_def
  in_range_def

lemma sample_run_facts:
  "rl_committed sample_run = [\<lparr>el_id = ''a'', el_n = 3, el_ts = 1\<rparr>]"
  "rl_requested sample_run = [''b'' \<mapsto> \<lparr>rq_n = 1, rq_t = 1\<rparr>]"
  "rl_total sample_run = 4" "rl_limit sample_run = 5" "rl_period sample_run = 50"
  "rl_nextTimer sample_run = 2" "rl_fired sample_run = []"
  "rl_timers sample_run = [1 \<mapsto> \<lparr>tm_id = ''b'', tm_deadline = 12\<rparr>]"
  by (simp_all add: sample_run_def lim_eval)

lemma sample_run_hyps:
  "\<forall>x \<in> set sample_ops. op_in_range (NewRunningTotalLimiter 5 50) x"
  "no_rerequest (NewRunningTotalLimiter 5 50) sample_ops" "sorted (commit_times sample_ops)"
  by (simp_all add: lim_eval held_def weight_at_def)

lemma sample_run_inv: "lim_inv sample_run"
  using lim_run_inv [OF New_inv(1) sample_run_hyps(1)] by (simp add: sample_run_def)

theorem limiter_within_limit_witness:
  "accounted sample_run \<le> 4 \<and> unat (rl_total sample_run) = 4"
  using limiter_within_limit [OF sample_run_hyps(1), folded sample_run_def] by (simp add: sample_run_facts)

text \<open>
  C10: the limiter answers as a sliding window over its whole history does. After any run in which no
  id is requested again while it still holds tokens, and whose clocks do not go back, a request is
  granted exactly when the tokens granted and neither committed nor withdrawn since, plus those of all
  commits in the last period, plus the new ones stay within the limit.
\<close>

theorem request_granted_iff:
  assumes "\<forall>x \<in> set xs. op_in_range (NewRunningTotalLimiter lim p) x"
    and "no_rerequest (NewRunningTotalLimiter lim p) xs"
    and "sorted (commit_times xs)" and "sorted (request_times xs @ [now])"
    and "unat lim + unat n < 2 ^ 64"
  shows "fst (Request now now' k n e (lim_run (NewRunningTotalLimiter lim p) xs)) \<longleftrightarrow>
    in_window now p (books_of (history (NewRunningTotalLimiter lim p) xs)) + unat n \<le> unat lim"
proof -
  let ?rl = "lim_run (NewRunningTotalLimiter lim p) xs"
  have inv: "lim_inv ?rl" and lim: "rl_limit ?rl = lim"
    using lim_run_inv [OF New_inv(1) assms(1)] by (simp_all add: New_inv)
  have "slack ?rl = 0" using lim_run_exact [OF New_inv(1) assms(1,2)] by (simp add: New_inv)
  moreover have "chronological ?rl"
    using assms(3) by (intro chronological_run) (simp add: NewRunningTotalLimiter_def)
  moreover have "in_range ?rl n" using assms(5) lim by (simp add: in_range_def)
  moreover have "sorted (hd (request_times xs @ [now]) # request_times xs @ [now])"
    using assms(4) by (cases "request_times xs") auto
  with mirrors_run [OF mirrors_New] mirrors_window
  have "in_window now p (books_of (history (NewRunningTotalLimiter lim p) xs)) = running_total now ?rl"
    unfolding books_of_def by blast
  ultimately show ?thesis using Request_window [OF inv] lim by simp
qed

text \<open>
  Three tokens imported at time 1 and one that waits: two more fit a limit of 5 once the import is
  older than the period of 50.
\<close>

theorem request_granted_iff_witness:
  "\<not> fst (Request 20 20 ''c'' 2 10 sample_run) \<and> fst (Request 52 52 ''c'' 2 10 sample_run)"
proof -
  have "books_of (history (NewRunningTotalLimiter 5 50) sample_ops) = ([''b'' \<mapsto> 1], [(1, 3)])"
    by (simp add: books_of_def lim_eval fun_eq_iff)
  then have "in_window 20 50 (books_of (history (NewRunningTotalLimiter 5 50) sample_ops)) = 4"
    "in_window 52 50 (books_of (history (NewRunningTotalLimiter 5 50) sample_ops)) = 1"
    by (simp_all add: in_window_def map_weight_def time_Sub_def maxDuration_def minDuration_def)
  with request_granted_iff [OF sample_run_hyps, of 20 2 20 "''c''" 10, folded sample_run_def]
    request_granted_iff [OF sample_run_hyps, of 52 2 52 "''c''" 10, folded sample_run_def]
  show ?thesis by simp
qed

text \<open>
  Tokens secured before their timer is due stay outstanding, whatever else happens, until the
  id itself is committed, withdrawn or requested again.
\<close>

theorem secured_tokens_stay:
  assumes "\<not> expirable rl k" and "Request now now' k n e rl = (True, rl')"
    and "\<forall>x \<in> set xs. \<not> touches k x"
  shows "held (lim_run (Secure k rl') xs) k = unat n"
  using secured_run [OF Secure_not_expirable [OF assms(2,1)] assms(3)]
  by (simp add: held_def weight_at_def)

theorem secured_tokens_stay_witness:
  "held (lim_run (Secure ''c'' (snd (Request 5 5 ''c'' 1 10 sample_run)))
     [OpFire 100 2, OpRunFired 0, OpFire 100 1, OpRunFired 0]) ''c'' = 1"
proof -
  have "\<not> expirable sample_run ''c''" by (auto simp: expirable_def sample_run_facts)
  moreover have "Request 5 5 ''c'' 1 10 sample_run =
      (True, snd (Request 5 5 ''c'' 1 10 sample_run))" by (simp add: lim_eval sample_run_facts)
  ultimately show ?thesis
    using secured_tokens_stay [of sample_run "''c''" 5 5 1 10 _
        "[OpFire 100 2, OpRunFired 0, OpFire 100 1, OpRunFired 0]"] by simp
qed

text \<open>
  Tokens that are not secured come back: once the expiration has passed, the timer fires, its
  callback withdraws them and the running total drops by their number.
\<close>

theorem unsecured_tokens_expire:
  assumes "lim_inv rl" and "in_range rl n" and "Request now now' k n e rl = (True, rl')"
    and "now' + e \<le> t" and "rl_fired rl = []"
  shows "held (lim_run rl' [OpFire t (rl_nextTimer rl), OpRunFired 0]) k = 0 \<and>
    unat (rl_total (lim_run rl' [OpFire t (rl_nextTimer rl), OpRunFired 0])) + unat n =
      unat (rl_total rl')"
proof -
  let ?f = "fireTimer t (rl_nextTimer rl) rl'"
  have inv: "lim_inv rl'" and k: "held rl' k = unat n"
    using Request_granted [OF assms(3,1,2)] by simp_all
  have "rl_timers rl' (rl_nextTimer rl) = Some \<lparr>tm_id = k, tm_deadline = now' + e\<rparr>"
    "rl_fired rl' = []"
    using assms(3,5) by (auto simp: Request_def Let_def split: if_splits)
  then have run: "runFired 0 ?f = Withdraw k (?f\<lparr>rl_fired := []\<rparr>)"
    using assms(4) by (simp add: fireTimer_def runFired_def)
  have "lim_inv (?f\<lparr>rl_fired := []\<rparr>)" "held (?f\<lparr>rl_fired := []\<rparr>) k = unat n"
    using inv k books_eq_inv(1) [of "?f\<lparr>rl_fired := []\<rparr>" rl'] by (simp_all add: held_def)
  from Withdraw_books [OF this(1), of k] this show ?thesis by (simp add: run)
qed

theorem unsecured_tokens_expire_witness:
  "held (lim_run (snd (Request 5 5 ''c'' 1 10 sample_run)) [OpFire 15 2, OpRunFired 0]) ''c'' = 0"
proof -
  note sample_run_inv
  moreover have "in_range sample_run 1" "rl_fired sample_run = []" "rl_nextTimer sample_run = 2"
    by (simp_all add: in_range_def sample_run_facts)
  moreover have "Request 5 5 ''c'' 1 10 sample_run =
      (True, snd (Request 5 5 ''c'' 1 10 sample_run))" by (simp add: lim_eval sample_run_facts)
  ultimately show ?thesis
    using unsecured_tokens_expire [of sample_run 1 5 5 "''c''" 10 _ 15] by simp
qed

text \<open>
  A second granted request for an id that still holds tokens leaks the first ones: the slack
  of the total grows by their number, and no later operation ever gives them back.
\<close>

theorem rerequest_leaks:
  assumes "lim_inv rl" and "in_range rl n" and "Request now now' k n e rl = (True, rl')"
    and "\<forall>x \<in> set xs. op_in_range rl' x"
  shows "slack rl + held rl k \<le> slack (lim_run rl' xs)"
  using Request_granted [OF assms(3,1,2)] lim_run_inv [OF _ assms(4)] by simp

theorem rerequest_leaks_witness:
  "1 \<le> slack (lim_run (snd (Request 5 5 ''b'' 1 10 sample_run)) [OpWithdraw ''b''])"
proof -
  note sample_run_inv
  moreover have "in_range sample_run 1" "held sample_run ''b'' = 1"
    by (simp_all add: in_range_def held_def weight_at_def sample_run_facts)
  moreover have "Request 5 5 ''b'' 1 10 sample_run =
      (True, snd (Request 5 5 ''b'' 1 10 sample_run))" by (simp add: lim_eval sample_run_facts)
  ultimately have "slack sample_run + held sample_run ''b'' \<le>
      slack (lim_run (snd (Request 5 5 ''b'' 1 10 sample_run)) [OpWithdraw ''b''])"
    by (intro rerequest_leaks) simp_all
  with \<open>held sample_run ''b'' = 1\<close> show ?thesis by simp
qed

text \<open>
  The guard compares a wrapped sum, so a request near the top of the 64 bit range is granted
  by a limiter that has no room for it, and makes its total smaller.
\<close>

theorem huge_request_wraps:
  "fst (Request 5 5 ''c'' (2 ^ 64 - 2) 10 sample_run) \<and>
   rl_total (snd (Request 5 5 ''c'' (2 ^ 64 - 2) 10 sample_run)) = 2"
  by (simp add: lim_eval sample_run_facts)

text \<open>
  \<open>Commit\<close> and \<open>Withdraw\<close> leave the timer of the request armed. If the id is requested
  again, the old timer withdraws the new tokens before their own expiration.
\<close>

theorem stale_timer_withdraws_new_tokens:
  "held (lim_run (NewRunningTotalLimiter 5 50) [OpRequest 0 0 ''a'' 3 10, OpWithdraw ''a'',
     OpRequest 8 8 ''a'' 2 10]) ''a'' = 2 \<and>
   held (lim_run (NewRunningTotalLimiter 5 50) [OpRequest 0 0 ''a'' 3 10, OpWithdraw ''a'',
     OpRequest 8 8 ''a'' 2 10, OpFire 10 0, OpRunFired 0]) ''a'' = 0"
  by (simp add: lim_eval held_def weight_at_def)

end
