(* ===== verification/Datastore.thy ===== *)
theory Datastore
  imports Go_Prelude "HOL-Library.AList"
begin

text \<open>
  The transactional key value store the bid store is written against. It is third party code
  (\<open>go-datastore\<close>, \<open>go-datastore-extensions\<close>, Badger), so its operations are a record of
  functions that the model takes as an argument; \<open>'d\<close> is the database, \<open>'t\<close> an open
  transaction, \<open>'v\<close> a stored value. The locales state what these operations are documented to
  do; every operation may fail. A small reference instance interprets them.
\<close>

section \<open>Keys and queries\<close>

text \<open>
  A \<open>ds.Key\<close> is kept as the list of its namespaces; its text is that list with a slash before
  each. \<open>ChildString\<close> appends a namespace: the cleaning of the path, which go-datastore does as well,
  would change only parts that are empty or hold a slash or dots, and the parts here are ids of bids.
\<close>

type_synonym key = "string list"

definition key_string :: "key \<Rightarrow> string" where
  "key_string k = concat (map (\<lambda>s. ''/'' @ s) k)"

definition ChildString :: "key \<Rightarrow> string \<Rightarrow> key" where
  "ChildString k s = k @ [s]"

text \<open>\<open>k\<close> lies strictly below the prefix \<open>p\<close>.\<close>

definition below :: "key \<Rightarrow> key \<Rightarrow> bool" where
  "below p k \<longleftrightarrow> take (length p) k = p \<and> length p < length k"

lemma below_ChildString [simp]: "below p (ChildString p s)"
  by (simp add: below_def ChildString_def)

lemma ChildString_inject [simp]: "ChildString p s = ChildString q t \<longleftrightarrow> p = q \<and> s = t"
  by (simp add: ChildString_def)

lemma key_string_ChildString: "key_string (ChildString p s) = key_string p @ ''/'' @ s"
  by (simp add: key_string_def ChildString_def)

datatype Order =
    OrderByValue
  | OrderByValueDescending
  | OrderByKey
  | OrderByKeyDescending
  | OrderByFunction nat

datatype Filter =
    FilterValueCompare nat string
  | FilterKeyCompare nat string
  | FilterKeyPrefix string
  | FilterFunction nat

text \<open>The key and the prefix of a filter are texts. \<open>SeekPrefix\<close> is \<open>None\<close> for the empty string; a \<open>Limit\<close> of 0 is no limit.\<close>

record Query =
  Prefix :: key
  Filters :: "Filter list"
  Orders :: "Order list"
  Limit :: nat
  Offset :: nat
  KeysOnly :: bool
  SeekPrefix :: "key option"

definition take_limit :: "nat \<Rightarrow> 'a list \<Rightarrow> 'a list" where
  "take_limit n xs = (if n = 0 then xs else take n xs)"

section \<open>Operations\<close>

definition ErrNotFound :: go_error where
  "ErrNotFound = Sentinel ''datastore: key not found''"

record ('d, 't, 'v) datastore =
  NewTransaction :: "'d \<Rightarrow> go_error + 't"
  TxnGet :: "'t \<Rightarrow> key \<Rightarrow> go_error + 'v"
  TxnPut :: "'t \<Rightarrow> key \<Rightarrow> 'v \<Rightarrow> go_error option \<times> 't"
  TxnDelete :: "'t \<Rightarrow> key \<Rightarrow> go_error option \<times> 't"
  TxnQuery :: "'t \<Rightarrow> Query \<Rightarrow> go_error + (go_error + key \<times> 'v) list"
  TxnCommit :: "'t \<Rightarrow> 'd \<Rightarrow> go_error option \<times> 'd"
  StoreGet :: "'d \<Rightarrow> key \<Rightarrow> go_error + 'v"
  StoreDelete :: "'d \<Rightarrow> key \<Rightarrow> go_error option \<times> 'd"
  QueryExtended :: "'d \<Rightarrow> Query \<Rightarrow> go_error + (go_error + key \<times> 'v) list"

text \<open>
  What a query over the contents \<open>m\<close> answers: the entries strictly below the prefix, ordered by
  the text of their keys, from the seek key on, cut at the limit.
\<close>

definition seek_ok :: "(string \<Rightarrow> string \<Rightarrow> bool) \<Rightarrow> key option \<Rightarrow> key \<Rightarrow> bool" where
  "seek_ok le seek k \<longleftrightarrow> (case seek of None \<Rightarrow> True | Some s \<Rightarrow> le (key_string s) (key_string k))"

definition key_order :: "Order list \<Rightarrow> string \<Rightarrow> string \<Rightarrow> bool" where
  "key_order os a b \<longleftrightarrow> (if os = [OrderByKeyDescending] then b \<le> a else a \<le> b)"

lemma key_order_cases:
  "os \<noteq> [OrderByKeyDescending] \<Longrightarrow> key_order os = (\<le>)"
  "key_order [OrderByKeyDescending] = (\<ge>)"
  by (simp_all add: key_order_def fun_eq_iff)

definition answers :: "(key \<rightharpoonup> 'v) \<Rightarrow> Query \<Rightarrow> (key \<times> 'v) list \<Rightarrow> bool" where
  "answers m q es \<longleftrightarrow> (\<exists>full. es = take_limit (Limit q) full \<and> distinct (map fst full) \<and>
     set full = {(k, v). m k = Some v \<and> below (Prefix q) k \<and>
       seek_ok (key_order (Orders q)) (SeekPrefix q) k} \<and>
     sorted_wrt (key_order (Orders q)) (map (key_string \<circ> fst) full))"

definition plain_query :: "Query \<Rightarrow> bool" where
  "plain_query q \<longleftrightarrow> Orders q \<in> {[OrderByKey], [OrderByKeyDescending]} \<and> Filters q = [] \<and> Offset q = 0"

section \<open>Laws\<close>

text \<open>
  Transactions see and change a private copy of the contents; a failed write changes nothing; a
  commit installs the copy or fails and changes nothing.
\<close>

locale txn_datastore =
  fixes B :: "('d, 't, 'v, 'm) datastore_scheme"
    and vd :: "'d \<Rightarrow> key \<Rightarrow> 'v option"
    and vt :: "'t \<Rightarrow> key \<Rightarrow> 'v option"
  assumes new_view: "NewTransaction B d = Inr t \<Longrightarrow> vt t = vd d"
    and get_found: "TxnGet B t k = Inr v \<Longrightarrow> vt t k = Some v"
    and get_missing: "TxnGet B t k = Inl e \<Longrightarrow> errors_Is e ErrNotFound \<Longrightarrow> vt t k = None"
    and put_ok: "TxnPut B t k v = (None, t') \<Longrightarrow> vt t' = (vt t)(k \<mapsto> v)"
    and put_fail: "TxnPut B t k v = (Some e, t') \<Longrightarrow> vt t' = vt t"
    and delete_ok: "TxnDelete B t k = (None, t') \<Longrightarrow> vt t' = (vt t)(k := None)"
    and delete_fail: "TxnDelete B t k = (Some e, t') \<Longrightarrow> vt t' = vt t"
    and commit_ok: "TxnCommit B t d = (None, d') \<Longrightarrow> vd d' = vt t"
    and commit_fail: "TxnCommit B t d = (Some e, d') \<Longrightarrow> vd d' = vd d"
    and query_law: "plain_query q \<Longrightarrow> SeekPrefix q = None \<Longrightarrow> TxnQuery B t q = Inr rs \<Longrightarrow>
      rs = map Inr es \<Longrightarrow> answers (vt t) q es"

text \<open>The operations outside a transaction.\<close>

locale ext_datastore = txn_datastore +
  assumes store_get_found: "StoreGet B d k = Inr v \<Longrightarrow> vd d k = Some v"
    and store_get_missing: "StoreGet B d k = Inl e \<Longrightarrow> errors_Is e ErrNotFound \<Longrightarrow> vd d k = None"
    and store_delete_ok: "StoreDelete B d k = (None, d') \<Longrightarrow> vd d' = (vd d)(k := None)"
    and store_delete_fail: "StoreDelete B d k = (Some e, d') \<Longrightarrow> vd d' = vd d"
    and query_ext_law: "plain_query q \<Longrightarrow> QueryExtended B d q = Inr rs \<Longrightarrow>
      rs = map Inr es \<Longrightarrow> answers (vd d) q es"

text \<open>A store none of whose operations fails, the usual case: gives progress, not only safety.\<close>

locale reliable_datastore = ext_datastore +
  assumes new_reliable: "\<exists>t. NewTransaction B d = Inr t"
    and get_reliable: "vt t k = Some v \<Longrightarrow> TxnGet B t k = Inr v"
    and get_reliable_missing: "vt t k = None \<Longrightarrow> TxnGet B t k = Inl ErrNotFound"
    and put_reliable: "\<exists>t'. TxnPut B t k v = (None, t')"
    and delete_reliable: "\<exists>t'. TxnDelete B t k = (None, t')"
    and commit_reliable: "\<exists>d'. TxnCommit B t d = (None, d')"
    and query_reliable: "\<exists>es. TxnQuery B t q = Inr (map Inr es)"
    and store_get_reliable: "vd d k = Some v \<Longrightarrow> StoreGet B d k = Inr v"
    and store_get_reliable_missing: "vd d k = None \<Longrightarrow> StoreGet B d k = Inl ErrNotFound"
    and store_delete_reliable: "\<exists>d'. StoreDelete B d k = (None, d')"
    and query_ext_reliable: "\<exists>es. QueryExtended B d q = Inr (map Inr es)"
begin

lemma put_fst: "fst (TxnPut B t k v) = None"
  using put_reliable [of t k v] by auto

lemma delete_fst: "fst (TxnDelete B t k) = None"
  using delete_reliable [of t k] by auto

lemma commit_fst: "fst (TxnCommit B t d) = None"
  using commit_reliable [of t d] by auto

lemma put_total: "TxnPut B t k v = (None, snd (TxnPut B t k v))"
  using put_reliable [of t k v] by auto

lemma delete_total: "TxnDelete B t k = (None, snd (TxnDelete B t k))"
  using delete_reliable [of t k] by auto

lemma commit_total: "TxnCommit B t d = (None, snd (TxnCommit B t d))"
  using commit_reliable [of t d] by auto

lemma put_view: "vt (snd (TxnPut B t k v)) = (vt t)(k \<mapsto> v)"
  by (rule put_ok [OF put_total])

lemma delete_view: "vt (snd (TxnDelete B t k)) = (vt t)(k := None)"
  by (rule delete_ok [OF delete_total])

lemma commit_view: "vd (snd (TxnCommit B t d)) = vt t"
  by (rule commit_ok [OF commit_total])

end

section \<open>A reference instance\<close>

text \<open>
  Contents as an association list, read through \<open>map_of\<close>; a transaction is a copy of it. No
  operation fails. It shows that the laws can hold together and serves in the witnesses.
\<close>

definition mem_entries :: "(key \<times> 'v) list \<Rightarrow> Query \<Rightarrow> (key \<times> 'v) list" where
  "mem_entries d q =
     (let ks = filter (\<lambda>k. below (Prefix q) k \<and> seek_ok (key_order (Orders q)) (SeekPrefix q) k)
                 (remdups (map fst d));
          up = sort_key key_string ks;
          ordered = (if Orders q = [OrderByKeyDescending] then rev up else up)
      in take_limit (Limit q) (map (\<lambda>k. (k, the (map_of d k))) ordered))"

definition mem_get :: "(key \<times> 'v) list \<Rightarrow> key \<Rightarrow> go_error + 'v" where
  "mem_get d k = (case map_of d k of None \<Rightarrow> Inl ErrNotFound | Some v \<Rightarrow> Inr v)"

definition mem_datastore :: "((key \<times> 'v) list, (key \<times> 'v) list, 'v) datastore" where
  "mem_datastore =
     \<lparr>NewTransaction = Inr, TxnGet = mem_get,
      TxnPut = (\<lambda>t k v. (None, AList.update k v t)),
      TxnDelete = (\<lambda>t k. (None, AList.delete k t)),
      TxnQuery = (\<lambda>t q. Inr (map Inr (mem_entries t q))),
      TxnCommit = (\<lambda>t d. (None, t)), StoreGet = mem_get,
      StoreDelete = (\<lambda>d k. (None, AList.delete k d)),
      QueryExtended = (\<lambda>d q. Inr (map Inr (mem_entries d q)))\<rparr>"

lemma mem_entries_answers:
  assumes "plain_query q"
  shows "answers (map_of d) q (mem_entries d q)"
proof -
  let ?ks = "filter (\<lambda>k. below (Prefix q) k \<and> seek_ok (key_order (Orders q)) (SeekPrefix q) k)
               (remdups (map fst d))"
  let ?up = "sort_key key_string ?ks"
  let ?ord = "if Orders q = [OrderByKeyDescending] then rev ?up else ?up"
  let ?full = "map (\<lambda>k. (k, the (map_of d k))) ?ord"
  have keys: "map fst ?full = ?ord" by (simp add: comp_def)
  have "distinct ?ord" by simp
  moreover have "set ?full = {(k, v). map_of d k = Some v \<and> below (Prefix q) k \<and>
      seek_ok (key_order (Orders q)) (SeekPrefix q) k}"
  proof -
    have dom: "k \<in> fst ` set d \<longleftrightarrow> (\<exists>v. map_of d k = Some v)" for k
      using map_of_eq_None_iff [of d k] by (cases "map_of d k") auto
    have "set ?ord = {k. (\<exists>v. map_of d k = Some v) \<and> below (Prefix q) k \<and>
        seek_ok (key_order (Orders q)) (SeekPrefix q) k}"
      by (auto simp: dom)
    then show ?thesis by (auto simp only: set_map image_def mem_Collect_eq) auto
  qed
  moreover have "sorted (map key_string ?up)" by simp
  then have "sorted_wrt (key_order (Orders q)) (map key_string ?ord)"
    by (cases "Orders q = [OrderByKeyDescending]")
       (simp_all add: key_order_cases rev_map [symmetric] sorted_wrt_rev)
  then have "sorted_wrt (key_order (Orders q)) (map (key_string \<circ> fst) ?full)"
    by (simp add: comp_def)
  moreover have "mem_entries d q = take_limit (Limit q) ?full"
    by (simp add: mem_entries_def Let_def)
  ultimately show ?thesis
    unfolding answers_def by (intro exI [of _ ?full]) (simp only: keys simp_thms)
qed

interpretation mem: reliable_datastore mem_datastore map_of map_of
proof unfold_locales
  fix q :: Query and t :: "(key \<times> 'v) list" and rs :: "(go_error + key \<times> 'v) list" and es
  assume q: "plain_query q" and rs: "rs = map Inr es"
  show "TxnQuery mem_datastore t q = Inr rs \<Longrightarrow> answers (map_of t) q es"
    and "QueryExtended mem_datastore t q = Inr rs \<Longrightarrow> answers (map_of t) q es"
    using mem_entries_answers [OF q, of t] rs
    by (auto simp: mem_datastore_def dest!: inj_onD [OF inj_on_mapI, rotated])
qed (auto simp: mem_datastore_def mem_get_def update_conv' delete_conv' split: option.splits)

end
