(* ===== verification/Bid_Store.thy ===== *)
theory Bid_Store
  imports Auction Limiter Datastore
begin

text \<open>
  The bid store of \<open>service/store/store.go\<close>: the bid record and its status, saving a bid with
  the status transition of its index keys, and the operations the message handlers call. A bid
  lies under \<open>/bids\<close>; while it is queued or being fetched, an empty entry lies under
  \<open>/data_queued\<close> or \<open>/data_fetching\<close> as well. The abstract view of the database is a map from
  ids to bids, and \<open>represents\<close> relates the two.
\<close>

section \<open>Status\<close>

datatype BidStatus =
    Unspecified
  | Submitted
  | AwaitingProposal
  | QueuedData
  | FetchingData
  | Finalized
  | Errored

fun status_rank :: "BidStatus \<Rightarrow> nat" where
  "status_rank Unspecified = 0"
| "status_rank Submitted = 1"
| "status_rank AwaitingProposal = 2"
| "status_rank QueuedData = 3"
| "status_rank FetchingData = 4"
| "status_rank Finalized = 5"
| "status_rank Errored = 6"

text \<open>The constants are an \<open>iota\<close> block, compared as integers.\<close>

instantiation BidStatus :: linorder
begin

definition less_eq_BidStatus :: "BidStatus \<Rightarrow> BidStatus \<Rightarrow> bool" where
  "less_eq_BidStatus a b \<longleftrightarrow> status_rank a \<le> status_rank b"

definition less_BidStatus :: "BidStatus \<Rightarrow> BidStatus \<Rightarrow> bool" where
  "less_BidStatus a b \<longleftrightarrow> status_rank a < status_rank b"

instance
proof
  fix x y :: BidStatus
  show "x \<le> y \<Longrightarrow> y \<le> x \<Longrightarrow> x = y"
    by (cases x; cases y) (simp_all add: less_eq_BidStatus_def)
qed (auto simp: less_eq_BidStatus_def less_BidStatus_def)

end

lemmas status_order = less_eq_BidStatus_def less_BidStatus_def

definition bidStatusStrings :: "(BidStatus \<times> string) list" where
  "bidStatusStrings =
     [(Unspecified, ''unspecified''), (Submitted, ''submitted''),
      (AwaitingProposal, ''awaiting_proposal''), (QueuedData, ''queued_data''),
      (FetchingData, ''fetching_data''), (Finalized, ''finalized''), (Errored, ''errored'')]"

definition bidStatusByString :: "(string \<times> BidStatus) list" where
  "bidStatusByString = map (\<lambda>(b, s). (s, b)) bidStatusStrings"

definition BidStatus_String :: "BidStatus \<Rightarrow> string" where
  "BidStatus_String st =
     (case map_of bidStatusStrings st of Some s \<Rightarrow> s | None \<Rightarrow> ''invalid'')"

definition BidStatusByString :: "string \<Rightarrow> go_error + BidStatus" where
  "BidStatusByString s =
     (case map_of bidStatusByString s of Some b \<Rightarrow> Inr b | None \<Rightarrow> Inl (New ''invalid bid status''))"

text \<open>
  The text of a status parses back to it, and every text that parses is the text of the
  status it parses to; all other texts are an error.
\<close>

theorem status_roundtrip:
  "BidStatusByString s = Inr st \<longleftrightarrow> s = BidStatus_String st"
  by (cases st) (auto simp: BidStatusByString_def BidStatus_String_def bidStatusByString_def
      bidStatusStrings_def)

section \<open>Bids\<close>

record Bid =
  ID :: string
  AuctionID :: string
  AuctioneerID :: string
  PayloadCid :: cid
  DealSize :: u64
  DealDuration :: u64
  ClientAddress :: string
  BidSources :: Sources
  Status :: BidStatus
  AskPrice :: i64
  VerifiedAskPrice :: i64
  StartEpoch :: u64
  FastRetrieval :: bool
  ProposalCid :: cid
  DealUID :: string
  DataURIFetchAttempts :: u32
  CreatedAt :: go_time
  UpdatedAt :: go_time
  ErrorCause :: string

text \<open>Third party functions on values: the validation of a peer id and the text of a content id.\<close>

record libs =
  peer_Validate :: "string \<Rightarrow> go_error option"
  cid_String :: "cid \<Rightarrow> string"

definition validate :: "'z libs_scheme \<Rightarrow> Bid \<Rightarrow> go_error option" where
  "validate L b =
     (if ID b = '''' then Some (New ''id is empty'')
      else if AuctionID b = '''' then Some (New ''auction id is empty'')
      else case peer_Validate L (AuctioneerID b) of
        Some e \<Rightarrow> Some (Wrapv ''auctioneer id is not a valid peer id'' e)
      | None \<Rightarrow>
      if DealSize b = 0 then Some (New ''deal size must be greater than zero'')
      else if DealDuration b = 0 then Some (New ''deal duration must be greater than zero'')
      else if Status b \<noteq> Unspecified then Some (New ''invalid initial bid status'')
      else if sint (AskPrice b) < 0
        then Some (New ''ask price must be greater than or equal to zero'')
      else if sint (VerifiedAskPrice b) < 0
        then Some (New ''verified ask price must be greater than or equal to zero'')
      else if StartEpoch b \<le> 0 then Some (New ''start epoch must be greater than zero'')
      else if Defined (ProposalCid b) then Some (New ''initial proposal cid cannot be defined'')
      else if DataURIFetchAttempts b \<noteq> 0
        then Some (New ''initial data uri fetch attempts must be zero'')
      else if \<not> IsZero (CreatedAt b) then Some (New ''initial created at must be zero'')
      else if \<not> IsZero (UpdatedAt b) then Some (New ''initial updated at must be zero'')
      else if ErrorCause b \<noteq> '''' then Some (New ''initial error cause must be empty'')
      else None)"

section \<open>Backend and store\<close>

text \<open>
  The datastore together with \<open>encoding/gob\<close> on bids and the nil value of an index entry.
\<close>

record ('d, 't, 'v) backend = "('d, 't, 'v) datastore" +
  Encode :: "Bid \<Rightarrow> go_error + 'v"
  Decode :: "'v \<Rightarrow> go_error + Bid"
  NilValue :: 'v

definition ErrBidNotFound :: go_error where "ErrBidNotFound = Sentinel ''bid not found''"

definition dsPrefix :: key where "dsPrefix = [''bids'']"
definition dsQueuedPrefix :: key where "dsQueuedPrefix = [''data_queued'']"
definition dsFetchingPrefix :: key where "dsFetchingPrefix = [''data_fetching'']"

lemmas prefix_defs = dsPrefix_def dsQueuedPrefix_def dsFetchingPrefix_def

text \<open>
  The calls a worker makes to the progress reporter, in order.
\<close>

datatype report =
    StartFetching string u32
  | ErrorFetching string u32 go_error
  | StartImporting string u32
  | EndImporting string u32 "go_error option"
  | ReportFinalized string
  | ReportErrored string string

text \<open>
  The fields of \<open>Store\<close>. \<open>jobCh\<close> carries pointers to bids, so the model has a heap of bids;
  \<open>tickCh\<close> carries no data and is a count. Both channels have the capacity \<open>chanCap\<close>, the
  number of concurrent downloads. \<open>reports\<close> lists what was sent to the progress reporter.
  \<open>semImports\<close> is the optional semaphore, its size and how many units are taken; \<open>ctxDone\<close> says
  that the context was cancelled.
\<close>

record 'd Store =
  db :: 'd
  bytesLimiter :: Limiter
  jobCh :: "nat list"
  tickCh :: nat
  chanCap :: nat
  dealDataDirectory :: string
  dealDataFetchAttempts :: u32
  dealDataFetchTimeout :: duration
  chunkedDownload :: bool
  semImports :: "(nat \<times> nat) option"
  ctxDone :: bool
  heap :: "nat \<Rightarrow> Bid"
  nextAddr :: nat
  reports :: "report list"

definition alloc :: "Bid \<Rightarrow> 'd Store \<Rightarrow> nat \<times> 'd Store" where
  "alloc b s = (nextAddr s, s\<lparr>heap := (heap s)(nextAddr s := b), nextAddr := Suc (nextAddr s)\<rparr>)"

section \<open>Saving and reading a bid\<close>

definition getBid ::
  "('d, 't, 'v) backend \<Rightarrow> (key \<Rightarrow> go_error + 'v) \<Rightarrow> string \<Rightarrow> go_error + Bid" where
  "getBid B read i =
     (case read (ChildString dsPrefix i) of
        Inl e \<Rightarrow> if errors_Is e ErrNotFound then Inl ErrBidNotFound else Inl (Wrapv ''getting key'' e)
      | Inr val \<Rightarrow>
          (case Decode B val of
             Inl e \<Rightarrow> Inl (Wrapv ''decoding value'' e)
           | Inr r \<Rightarrow> Inr r))"

definition GetBid :: "('d, 't, 'v) backend \<Rightarrow> string \<Rightarrow> 'd Store \<Rightarrow> go_error + Bid" where
  "GetBid B i s = getBid B (StoreGet B (db s)) i"

text \<open>The index entries of the status the bid leaves and of the one it enters.\<close>

definition leaveIndex ::
  "('d, 't, 'v) backend \<Rightarrow> 't \<Rightarrow> Bid \<Rightarrow> go_error option \<times> 't" where
  "leaveIndex B t b =
     (if Status b = QueuedData then
        (case TxnDelete B t (ChildString dsQueuedPrefix (ID b)) of
           (Some e, t1) \<Rightarrow> (Some (Wrapv ''deleting from queued'' e), t1)
         | (None, t1) \<Rightarrow> (None, t1))
      else if Status b = FetchingData then
        (case TxnDelete B t (ChildString dsFetchingPrefix (ID b)) of
           (Some e, t1) \<Rightarrow> (Some (Wrapv ''deleting from fetching'' e), t1)
         | (None, t1) \<Rightarrow> (None, t1))
      else (None, t))"

definition enterIndex ::
  "('d, 't, 'v) backend \<Rightarrow> 't \<Rightarrow> string \<Rightarrow> BidStatus \<Rightarrow> go_error option \<times> 't" where
  "enterIndex B t i newStatus =
     (if newStatus = QueuedData then
        (case TxnPut B t (ChildString dsQueuedPrefix i) (NilValue B) of
           (Some e, t1) \<Rightarrow> (Some (Wrapv ''putting to queued'' e), t1)
         | (None, t1) \<Rightarrow> (None, t1))
      else if newStatus = FetchingData then
        (case TxnPut B t (ChildString dsFetchingPrefix i) (NilValue B) of
           (Some e, t1) \<Rightarrow> (Some (Wrapv ''putting to fetching'' e), t1)
         | (None, t1) \<Rightarrow> (None, t1))
      else (None, t))"

definition touch :: "go_time \<Rightarrow> Bid \<Rightarrow> Bid" where
  "touch now b = b\<lparr>UpdatedAt := (if IsZero now then CreatedAt b else now)\<rparr>"

definition putBid ::
  "('d, 't, 'v) backend \<Rightarrow> go_time \<Rightarrow> 't \<Rightarrow> Bid \<Rightarrow> go_error option \<times> 't \<times> Bid" where
  "putBid B now t b =
     (case Encode B (touch now b) of
        Inl e \<Rightarrow> (Some (Wrapv ''encoding value'' e), t, touch now b)
      | Inr val \<Rightarrow>
          (case TxnPut B t (ChildString dsPrefix (ID b)) val of
             (Some e, t1) \<Rightarrow> (Some (Wrapv ''putting value'' e), t1, touch now b)
           | (None, t1) \<Rightarrow> (None, t1, touch now b)))"

text \<open>
  \<open>saveAndTransitionStatus\<close> inside the caller's transaction. The bid is behind a pointer, so its
  changed value is returned, on errors too.
\<close>

definition saveTxn ::
  "('d, 't, 'v) backend \<Rightarrow> go_time \<Rightarrow> 't \<Rightarrow> Bid \<Rightarrow> BidStatus \<Rightarrow> go_error option \<times> 't \<times> Bid" where
  "saveTxn B now t b newStatus =
     (if Status b \<noteq> newStatus then
        (case leaveIndex B t b of
           (Some e, t1) \<Rightarrow> (Some e, t1, b)
         | (None, t1) \<Rightarrow>
             (case enterIndex B t1 (ID b) newStatus of
                (Some e, t2) \<Rightarrow> (Some e, t2, b)
              | (None, t2) \<Rightarrow> putBid B now t2 (b\<lparr>Status := newStatus\<rparr>)))
      else putBid B now t b)"

text \<open>The same with a \<open>nil\<close> transaction: it makes and commits its own.\<close>

definition saveAndTransitionStatus ::
  "('d, 't, 'v) backend \<Rightarrow> go_time \<Rightarrow> 'd \<Rightarrow> Bid \<Rightarrow> BidStatus \<Rightarrow> go_error option \<times> 'd \<times> Bid" where
  "saveAndTransitionStatus B now d b newStatus =
     (case NewTransaction B d of
        Inl e \<Rightarrow> (Some (Wrapv ''creating txn'' e), d, b)
      | Inr t \<Rightarrow>
          (case saveTxn B now t b newStatus of
             (Some e, t1, b1) \<Rightarrow> (Some e, d, b1)
           | (None, t1, b1) \<Rightarrow>
               (case TxnCommit B t1 d of
                  (Some e, d1) \<Rightarrow> (Some (Wrapv ''committing txn'' e), d1, b1)
                | (None, d1) \<Rightarrow> (None, d1, b1))))"

definition SaveBid ::
  "('d, 't, 'v) backend \<Rightarrow> 'z libs_scheme \<Rightarrow> go_time \<Rightarrow> go_time \<Rightarrow> Bid \<Rightarrow> 'd Store \<Rightarrow>
     go_error option \<times> 'd Store" where
  "SaveBid B L now now' bid s =
     (case validate L bid of
        Some e \<Rightarrow> (Some (Wrapv ''invalid bid data'' e), s)
      | None \<Rightarrow>
          (case saveAndTransitionStatus B now' (db s) (bid\<lparr>CreatedAt := now\<rparr>) Submitted of
             (Some e, d, _) \<Rightarrow> (Some (Wrapv ''saving bid'' e), s\<lparr>db := d\<rparr>)
           | (None, d, _) \<Rightarrow> (None, s\<lparr>db := d\<rparr>)))"

section \<open>Queueing a fetch\<close>

text \<open>
  \<open>p\<close> is the address of the bid. A send on \<open>jobCh\<close> proceeds when the buffer has room; a worker
  that waits to receive implies that it has. If it has none, the bid goes back to the queue, and
  an error of that second save is only logged.
\<close>

definition enqueueDataURI ::
  "('d, 't, 'v) backend \<Rightarrow> go_time \<Rightarrow> go_time \<Rightarrow> 't \<Rightarrow> nat \<Rightarrow> 'd Store \<Rightarrow>
     go_error option \<times> 't \<times> 'd Store" where
  "enqueueDataURI B now now' t p s =
     (case saveTxn B now t (heap s p) FetchingData of
        (Some e, t1, b1) \<Rightarrow>
          (Some (Wrapv ''updating status (fetching_data)'' e), t1, s\<lparr>heap := (heap s)(p := b1)\<rparr>)
      | (None, t1, b1) \<Rightarrow>
          if length (jobCh s) < chanCap s
          then (None, t1, s\<lparr>heap := (heap s)(p := b1), jobCh := jobCh s @ [p]\<rparr>)
          else (case saveTxn B now' t1 b1 QueuedData of
                  (_, t2, b2) \<Rightarrow> (None, t2, s\<lparr>heap := (heap s)(p := b2)\<rparr>)))"

section \<open>The operations of the message handlers\<close>

definition commitStore ::
  "('d, 't, 'v) backend \<Rightarrow> 't \<Rightarrow> 'd Store \<Rightarrow> go_error option \<times> 'd Store" where
  "commitStore B t s =
     (case TxnCommit B t (db s) of
        (Some e, d) \<Rightarrow> (Some (Wrapv ''committing txn'' e), s\<lparr>db := d\<rparr>)
      | (None, d) \<Rightarrow> (None, s\<lparr>db := d\<rparr>))"

definition wrongStatus :: "BidStatus \<Rightarrow> BidStatus \<Rightarrow> go_error" where
  "wrongStatus expected got = New (''expect bid to have status '' @ [CHR 0x27] @
     BidStatus_String expected @ [CHR 0x27] @ '', got '' @ [CHR 0x27] @ BidStatus_String got @ [CHR 0x27])"

definition SetAwaitingProposalCid ::
  "('d, 't, 'v) backend \<Rightarrow> go_time \<Rightarrow> string \<Rightarrow> Sources \<Rightarrow> 'd Store \<Rightarrow>
     go_error option \<times> 'd Store" where
  "SetAwaitingProposalCid B now i sources s =
     (case Sources_Validate sources of
        Some e \<Rightarrow> (Some e, s)
      | None \<Rightarrow>
     (case NewTransaction B (db s) of
        Inl e \<Rightarrow> (Some (Wrapv ''creating txn'' e), s)
      | Inr t \<Rightarrow>
     (case getBid B (TxnGet B t) i of
        Inl e \<Rightarrow> (Some e, s)
      | Inr b \<Rightarrow>
          if Status b = AwaitingProposal then (None, s)
          else if Status b \<noteq> Submitted then (Some (wrongStatus Submitted (Status b)), s)
          else (case saveTxn B now t (b\<lparr>BidSources := sources\<rparr>) AwaitingProposal of
                  (Some e, t1, _) \<Rightarrow> (Some (Wrapv ''updating bid'' e), s)
                | (None, t1, _) \<Rightarrow> commitStore B t1 s))))"

definition SetProposalCid ::
  "('d, 't, 'v) backend \<Rightarrow> go_time \<Rightarrow> go_time \<Rightarrow> string \<Rightarrow> cid \<Rightarrow> 'd Store \<Rightarrow>
     go_error option \<times> 'd Store" where
  "SetProposalCid B now now' i pcid s =
     (if \<not> Defined pcid then (Some (New ''proposal cid must be defined''), s)
      else
     (case NewTransaction B (db s) of
        Inl e \<Rightarrow> (Some (Wrapv ''creating txn'' e), s)
      | Inr t \<Rightarrow>
     (case getBid B (TxnGet B t) i of
        Inl e \<Rightarrow> (Some e, s)
      | Inr b \<Rightarrow>
          if Status b > AwaitingProposal then (None, s)
          else if Status b \<noteq> AwaitingProposal
            then (Some (wrongStatus AwaitingProposal (Status b)), s)
          else (case alloc (b\<lparr>ProposalCid := pcid\<rparr>) s of (p, s1) \<Rightarrow>
                 (case enqueueDataURI B now now' t p s1 of
                    (Some e, t1, s2) \<Rightarrow> (Some (Wrapv ''enqueueing data uri'' e), s2)
                  | (None, t1, s2) \<Rightarrow> commitStore B t1 s2)))))"

definition SetDealUID ::
  "('d, 't, 'v) backend \<Rightarrow> go_time \<Rightarrow> string \<Rightarrow> string \<Rightarrow> 'd Store \<Rightarrow>
     go_error option \<times> 'd Store" where
  "SetDealUID B now i dealUID s =
     (if dealUID = '''' then (Some (New ''deal uid is empty''), s)
      else
     (case NewTransaction B (db s) of
        Inl e \<Rightarrow> (Some (Wrapv ''creating txn'' e), s)
      | Inr t \<Rightarrow>
     (case getBid B (TxnGet B t) i of
        Inl e \<Rightarrow> (Some e, s)
      | Inr b \<Rightarrow>
          if Status b > AwaitingProposal then (None, s)
          else if Status b \<noteq> AwaitingProposal
            then (Some (wrongStatus AwaitingProposal (Status b)), s)
          else (case saveTxn B now t (b\<lparr>DealUID := dealUID\<rparr>) Finalized of
                  (Some e, t1, _) \<Rightarrow> (Some (Wrapv ''saving finalized status data uri'' e), s)
                | (None, t1, _) \<Rightarrow> commitStore B t1 s))))"

section \<open>The abstract view\<close>

text \<open>
  The contents \<open>view\<close> represent the map \<open>m\<close> of bids: every bid is stored under its own id, the
  index entries are exactly those the statuses call for, and nothing else lies below the prefixes.
\<close>

definition flat :: "key \<Rightarrow> (key \<rightharpoonup> 'v) \<Rightarrow> bool" where
  "flat p view \<longleftrightarrow> (\<forall>k. below p k \<longrightarrow> view k \<noteq> None \<longrightarrow> (\<exists>i. k = ChildString p i))"

definition index_at :: "(key \<rightharpoonup> 'v) \<Rightarrow> (string \<rightharpoonup> Bid) \<Rightarrow> key \<Rightarrow> BidStatus \<Rightarrow> string \<Rightarrow> bool" where
  "index_at view m p st i \<longleftrightarrow>
     (view (ChildString p i) \<noteq> None \<longleftrightarrow> (\<exists>b. m i = Some b \<and> Status b = st))"

definition stored_at :: "('v \<Rightarrow> go_error + Bid) \<Rightarrow> (key \<rightharpoonup> 'v) \<Rightarrow> (string \<rightharpoonup> Bid) \<Rightarrow> string \<Rightarrow> bool" where
  "stored_at dec view m i \<longleftrightarrow>
     (case m i of
        None \<Rightarrow> view (ChildString dsPrefix i) = None
      | Some b \<Rightarrow> ID b = i \<and> (\<exists>v. view (ChildString dsPrefix i) = Some v \<and> dec v = Inr b))"

definition indexed :: "(key \<rightharpoonup> 'v) \<Rightarrow> (string \<rightharpoonup> Bid) \<Rightarrow> key \<Rightarrow> BidStatus \<Rightarrow> bool" where
  "indexed view m p st \<longleftrightarrow> (\<forall>i. index_at view m p st i) \<and> flat p view"

definition stores :: "('v \<Rightarrow> go_error + Bid) \<Rightarrow> (key \<rightharpoonup> 'v) \<Rightarrow> (string \<rightharpoonup> Bid) \<Rightarrow> bool" where
  "stores dec view m \<longleftrightarrow> (\<forall>i. stored_at dec view m i) \<and> flat dsPrefix view"

definition represents :: "('v \<Rightarrow> go_error + Bid) \<Rightarrow> (key \<rightharpoonup> 'v) \<Rightarrow> (string \<rightharpoonup> Bid) \<Rightarrow> bool" where
  "represents dec view m \<longleftrightarrow> stores dec view m \<and>
     indexed view m dsQueuedPrefix QueuedData \<and> indexed view m dsFetchingPrefix FetchingData"

lemma below_prefixes [simp]:
  "\<not> below dsPrefix (ChildString dsQueuedPrefix i)" "\<not> below dsPrefix (ChildString dsFetchingPrefix i)"
  "\<not> below dsQueuedPrefix (ChildString dsPrefix i)" "\<not> below dsQueuedPrefix (ChildString dsFetchingPrefix i)"
  "\<not> below dsFetchingPrefix (ChildString dsPrefix i)" "\<not> below dsFetchingPrefix (ChildString dsQueuedPrefix i)"
  by (simp_all add: below_def ChildString_def prefix_defs)

text \<open>Writes below another prefix do not matter.\<close>

lemma below_neq: "\<not> below p k \<Longrightarrow> ChildString p i \<noteq> k"
  by auto

lemma flat_frame: "\<not> below p k \<Longrightarrow> flat p (view(k := x)) = flat p view"
  by (force simp: flat_def)

lemma flat_child: "flat p view \<Longrightarrow> flat p (view(ChildString p i := x))"
  by (simp add: flat_def)

lemma indexed_frame: "\<not> below p k \<Longrightarrow> indexed (view(k := x)) m p st = indexed view m p st"
  by (simp add: indexed_def index_at_def flat_frame below_neq)

lemma stored_at_cong:
  assumes "view' (ChildString dsPrefix i) = view (ChildString dsPrefix i)" "m' i = m i"
  shows "stored_at dec view' m' i = stored_at dec view m i"
  by (simp add: stored_at_def assms split: option.split)

lemma stores_frame:
  assumes "\<not> below dsPrefix k"
  shows "stores dec (view(k := x)) m = stores dec view m"
proof -
  have "stored_at dec (view(k := x)) m i = stored_at dec view m i" for i
    using assms by (intro stored_at_cong) (simp_all add: below_neq)
  with assms show ?thesis by (simp add: stores_def flat_frame)
qed

lemma stores_put:
  assumes "stores dec view m" "dec v = Inr b"
  shows "stores dec (view(ChildString dsPrefix (ID b) \<mapsto> v)) (m(ID b \<mapsto> b))"
proof -
  let ?view = "view(ChildString dsPrefix (ID b) \<mapsto> v)" and ?m = "m(ID b \<mapsto> b)"
  have "stored_at dec ?view ?m i" for i
  proof (cases "i = ID b")
    case True
    with assms(2) show ?thesis by (simp add: stored_at_def)
  next
    case False
    then have "stored_at dec ?view ?m i = stored_at dec view m i"
      by (intro stored_at_cong) simp_all
    with assms(1) show ?thesis by (simp add: stores_def)
  qed
  with assms(1) show ?thesis by (simp add: stores_def flat_child)
qed

text \<open>The index entry of one bid after its transition.\<close>

lemma indexed_same:
  assumes "indexed view m p st" "(\<exists>b'. m i = Some b' \<and> Status b' = st) \<longleftrightarrow> Status b = st"
  shows "indexed view (m(i \<mapsto> b)) p st"
  using assms by (simp add: indexed_def index_at_def)

lemma indexed_transition:
  assumes "indexed view m p s0"
    and "(\<exists>b'. m i = Some b' \<and> Status b' = s0) \<Longrightarrow> left \<or> Status b = s0"
  shows "indexed ((if left then view(ChildString p i := None) else view)
      (ChildString p i := (if Status b = s0 then Some v
         else if left then None else view (ChildString p i)))) (m(i \<mapsto> b)) p s0"
  using assms by (auto simp: indexed_def index_at_def flat_child)

lemma represents_at:
  assumes "represents dec view m"
  shows "stored_at dec view m i" "index_at view m dsQueuedPrefix QueuedData i"
    "index_at view m dsFetchingPrefix FetchingData i"
    "flat dsPrefix view" "flat dsQueuedPrefix view" "flat dsFetchingPrefix view"
  using assms by (simp_all add: represents_def stores_def indexed_def)

lemma represents_get:
  "represents dec view m \<Longrightarrow> m i = Some b \<Longrightarrow>
     ID b = i \<and> (\<exists>v. view (ChildString dsPrefix i) = Some v \<and> dec v = Inr b)"
  using represents_at(1) [of dec view m i] by (simp add: stored_at_def)

lemma represents_none:
  "represents dec view m \<Longrightarrow> m i = None \<longleftrightarrow> view (ChildString dsPrefix i) = None"
  using represents_at(1) [of dec view m i] by (auto simp: stored_at_def split: option.splits)

text \<open>
  When the status in memory may be moved to \<open>newStatus\<close> without leaving a stray index entry: the
  stored status, if it has an entry, is the one left or the one entered.
\<close>

definition consistent :: "(string \<rightharpoonup> Bid) \<Rightarrow> Bid \<Rightarrow> BidStatus \<Rightarrow> bool" where
  "consistent m b newStatus \<longleftrightarrow> (\<forall>st \<in> {QueuedData, FetchingData}.
     let has = (\<exists>old. m (ID b) = Some old \<and> Status old = st)
     in if Status b \<noteq> newStatus then has \<longrightarrow> Status b = st \<or> newStatus = st
        else has \<longleftrightarrow> newStatus = st)"

lemma consistent_same: "m (ID b) = Some old \<Longrightarrow> Status old = Status b \<Longrightarrow> consistent m b st"
  by (auto simp: consistent_def Let_def)

lemma consistent_new:
  "m (ID b) = None \<Longrightarrow> Status b \<noteq> st \<Longrightarrow> consistent m b st"
  by (simp add: consistent_def Let_def)

lemma touch_simps [simp]:
  "ID (touch now b) = ID b" "Status (touch now b) = Status b" "BidSources (touch now b) = BidSources b"
  "AuctionID (touch now b) = AuctionID b" "StartEpoch (touch now b) = StartEpoch b"
  "DataURIFetchAttempts (touch now b) = DataURIFetchAttempts b"
  "ProposalCid (touch now b) = ProposalCid b" "DealUID (touch now b) = DealUID b"
  "ErrorCause (touch now b) = ErrorCause b" "PayloadCid (touch now b) = PayloadCid b"
  "CreatedAt (touch now b) = CreatedAt b" "DealSize (touch now b) = DealSize b"
  by (simp_all add: touch_def)

text \<open>The value a save leaves behind the pointer.\<close>

definition saved :: "go_time \<Rightarrow> BidStatus \<Rightarrow> Bid \<Rightarrow> Bid" where
  "saved now st b = touch now (b\<lparr>Status := st\<rparr>)"

lemma saved_simps [simp]:
  "ID (saved now st b) = ID b" "Status (saved now st b) = st"
  "BidSources (saved now st b) = BidSources b" "AuctionID (saved now st b) = AuctionID b"
  "StartEpoch (saved now st b) = StartEpoch b" "ProposalCid (saved now st b) = ProposalCid b"
  "DataURIFetchAttempts (saved now st b) = DataURIFetchAttempts b"
  "ErrorCause (saved now st b) = ErrorCause b" "DealUID (saved now st b) = DealUID b"
  "PayloadCid (saved now st b) = PayloadCid b" "CreatedAt (saved now st b) = CreatedAt b"
  "DealSize (saved now st b) = DealSize b"
  by (simp_all add: saved_def)

section \<open>The contract of the backend\<close>

text \<open>What was encoded is decoded again.\<close>

locale bid_backend = ext_datastore B vd vt
  for B :: "('d, 't, 'v) backend" and vd :: "'d \<Rightarrow> key \<Rightarrow> 'v option"
    and vt :: "'t \<Rightarrow> key \<Rightarrow> 'v option" +
  assumes codec: "Encode B b = Inr v \<Longrightarrow> Decode B v = Inr b"
begin

lemma leaveIndex_view:
  "leaveIndex B t b = (None, t1) \<Longrightarrow>
     vt t1 = (if Status b = QueuedData then (vt t)(ChildString dsQueuedPrefix (ID b) := None)
              else if Status b = FetchingData then (vt t)(ChildString dsFetchingPrefix (ID b) := None)
              else vt t)"
  by (auto simp: leaveIndex_def dest: delete_ok split: if_splits prod.splits option.splits)

lemma enterIndex_view:
  "enterIndex B t i st = (None, t1) \<Longrightarrow>
     vt t1 = (if st = QueuedData then (vt t)(ChildString dsQueuedPrefix i \<mapsto> NilValue B)
              else if st = FetchingData then (vt t)(ChildString dsFetchingPrefix i \<mapsto> NilValue B)
              else vt t)"
  by (auto simp: enterIndex_def dest: put_ok split: if_splits prod.splits option.splits)

lemma putBid_view:
  "putBid B now t b = (None, t1, b1) \<Longrightarrow>
     b1 = touch now b \<and>
     (\<exists>v. Decode B v = Inr b1 \<and> vt t1 = (vt t)(ChildString dsPrefix (ID b) \<mapsto> v))"
  by (auto simp: putBid_def dest: put_ok codec split: sum.splits prod.splits option.splits)

lemmas view_frames = indexed_frame stores_frame

lemma entry_twist:
  "view(ChildString dsFetchingPrefix i := x, ChildString dsQueuedPrefix j := y) =
     (view(ChildString dsQueuedPrefix j := y))(ChildString dsFetchingPrefix i := x)"
  by (rule fun_upd_twist) (simp add: prefix_defs)

text \<open>
  The simulation: a save that succeeds on represented contents is an update of the map of bids.
\<close>

lemma saveTxn_represents:
  assumes "saveTxn B now t b st = (None, t1, b1)" "represents (Decode B) (vt t) m"
    and "consistent m b st"
  shows "b1 = saved now st b \<and> represents (Decode B) (vt t1) (m(ID b \<mapsto> b1))"
proof (cases "Status b = st")
  case True
  then have put: "putBid B now t b = (None, t1, b1)" using assms(1) by (simp add: saveTxn_def)
  from putBid_view [OF this] obtain v where v: "b1 = touch now b" "Decode B v = Inr b1"
    "vt t1 = (vt t)(ChildString dsPrefix (ID b) \<mapsto> v)" by blast
  have "indexed (vt t) (m(ID b \<mapsto> b1)) dsQueuedPrefix QueuedData"
    "indexed (vt t) (m(ID b \<mapsto> b1)) dsFetchingPrefix FetchingData"
    using assms(2,3) True by (auto intro!: indexed_same simp: represents_def consistent_def v(1))
  moreover have "b\<lparr>Status := st\<rparr> = b" using True by simp
  ultimately show ?thesis
    using assms(2) stores_put [of "Decode B" "vt t" m v b1] v
    by (simp add: represents_def view_frames saved_def)
next
  case False
  then obtain t2 t3 where leave: "leaveIndex B t b = (None, t2)"
    and enter: "enterIndex B t2 (ID b) st = (None, t3)"
    and put: "putBid B now t3 (b\<lparr>Status := st\<rparr>) = (None, t1, b1)"
    using assms(1) by (auto simp: saveTxn_def split: prod.splits option.splits)
  from putBid_view [OF put] obtain v where v: "b1 = saved now st b" "Decode B v = Inr b1"
    "vt t1 = (vt t3)(ChildString dsPrefix (ID b1) \<mapsto> v)" by (auto simp: saved_def)
  note t3 = enterIndex_view [OF enter] leaveIndex_view [OF leave]
  have b1: "ID b1 = ID b" "Status b1 = st" by (simp_all add: v(1))
  have reps: "stores (Decode B) (vt t) m" "indexed (vt t) m dsQueuedPrefix QueuedData"
    "indexed (vt t) m dsFetchingPrefix FetchingData"
    using assms(2) by (simp_all add: represents_def)
  have "stores (Decode B) (vt t3) m" using reps(1) by (simp add: t3 view_frames)
  moreover have "indexed (vt t3) (m(ID b \<mapsto> b1)) dsQueuedPrefix QueuedData"
    using indexed_transition [OF reps(2), of "ID b" "Status b = QueuedData" b1 "NilValue B"]
      assms(3) False by (simp add: t3 b1 entry_twist view_frames consistent_def split: if_splits)
  moreover have "indexed (vt t3) (m(ID b \<mapsto> b1)) dsFetchingPrefix FetchingData"
    using indexed_transition [OF reps(3), of "ID b" "Status b = FetchingData" b1 "NilValue B"]
      assms(3) False
    by (simp add: t3 b1 entry_twist [symmetric] view_frames consistent_def split: if_splits)
  ultimately show ?thesis
    using stores_put [of "Decode B" "vt t3" m v b1] v b1
    by (simp add: represents_def view_frames)
qed

subsection \<open>Reading\<close>

lemma getBid_sound:
  assumes "represents (Decode B) view m" "getBid B read i = Inr b"
    and "\<And>k v. read k = Inr v \<Longrightarrow> view k = Some v"
  shows "m i = Some b"
proof -
  obtain v where v: "read (ChildString dsPrefix i) = Inr v" "Decode B v = Inr b"
    using assms(2) by (auto simp: getBid_def split: sum.splits if_splits)
  from assms(3) [OF v(1)] represents_none [OF assms(1), of i] obtain b' where "m i = Some b'"
    by auto
  with represents_get [OF assms(1) this] assms(3) [OF v(1)] v(2) show ?thesis by auto
qed

lemma txn_getBid:
  assumes "represents (Decode B) (vd d) m" "NewTransaction B d = Inr t"
    and "getBid B (TxnGet B t) i = Inr b"
  shows "m i = Some b" "represents (Decode B) (vt t) m"
proof -
  show t: "represents (Decode B) (vt t) m" using assms(1) new_view [OF assms(2)] by simp
  show "m i = Some b" by (rule getBid_sound [OF t assms(3) get_found])
qed

subsection \<open>Saving and committing\<close>

lemma saveAndTransitionStatus_represents:
  assumes "saveAndTransitionStatus B now d b st = (r, d1, b1)" "represents (Decode B) (vd d) m"
    and "consistent m b st"
  shows "case r of
      None \<Rightarrow> b1 = saved now st b \<and> represents (Decode B) (vd d1) (m(ID b \<mapsto> b1))
    | Some e \<Rightarrow> represents (Decode B) (vd d1) m"
proof (cases "NewTransaction B d")
  case (Inr t)
  from new_view [OF Inr] assms(2) have t: "represents (Decode B) (vt t) m" by simp
  obtain r1 t1 b2 where save: "saveTxn B now t b st = (r1, t1, b2)" by (metis prod_cases3)
  obtain r2 d2 where com: "TxnCommit B t1 d = (r2, d2)" by fastforce
  show ?thesis
  proof (cases r1)
    case None
    from saveTxn_represents [OF save [unfolded None] t assms(3)]
    show ?thesis
      using assms(1,2) Inr save None com commit_ok [of t1 d d2] commit_fail [of t1 d _ d2]
      by (cases r2) (auto simp: saveAndTransitionStatus_def)
  qed (use assms(1,2) Inr save in \<open>auto simp: saveAndTransitionStatus_def\<close>)
qed (use assms in \<open>auto simp: saveAndTransitionStatus_def\<close>)

lemma commitStore_represents:
  assumes "commitStore B t s = (r, s')" "represents (Decode B) (vd (db s)) m"
    and "represents (Decode B) (vt t) m'"
  shows "represents (Decode B) (vd (db s')) (case r of None \<Rightarrow> m' | Some e \<Rightarrow> m)"
proof -
  obtain r1 d1 where com: "TxnCommit B t (db s) = (r1, d1)" by fastforce
  then show ?thesis
    using assms commit_ok [of t "db s" d1] commit_fail [of t "db s" _ d1]
    by (cases r1) (auto simp: commitStore_def)
qed

end

section \<open>A backend that does not fail\<close>

text \<open>
  It encodes every bid, too. The multiaddresses of IPFS sources are interface values, which gob only
  encodes when their type is registered; that is left to the library they come from.
\<close>

locale reliable_backend = bid_backend B vd vt + reliable_datastore B vd vt
  for B :: "('d, 't, 'v) backend" and vd :: "'d \<Rightarrow> key \<Rightarrow> 'v option"
    and vt :: "'t \<Rightarrow> key \<Rightarrow> 'v option" +
  assumes encode_reliable: "\<exists>v. Encode B b = Inr v"
begin

lemma leaveIndex_reliable: "fst (leaveIndex B t b) = None"
  by (simp add: leaveIndex_def case_prod_unfold delete_fst)

lemma enterIndex_reliable: "fst (enterIndex B t i st) = None"
  by (simp add: enterIndex_def case_prod_unfold put_fst)

lemma putBid_reliable: "fst (putBid B now t b) = None"
proof -
  obtain v where "Encode B (touch now b) = Inr v" using encode_reliable by blast
  moreover obtain t1 where "TxnPut B t (ChildString dsPrefix (ID b)) v = (None, t1)"
    using put_reliable by blast
  ultimately show ?thesis by (simp add: putBid_def)
qed

lemma saveTxn_reliable: "fst (saveTxn B now t b st) = None"
proof -
  obtain t1 where "leaveIndex B t b = (None, t1)"
    using leaveIndex_reliable [of t b] by (metis prod.collapse)
  moreover obtain t2 where "enterIndex B t1 (ID b) st = (None, t2)"
    using enterIndex_reliable [of t1 "ID b" st] by (metis prod.collapse)
  ultimately show ?thesis using putBid_reliable by (simp add: saveTxn_def)
qed

lemma saveTxn_total:
  assumes "represents (Decode B) (vt t) m" "consistent m b st"
  obtains t1 where "saveTxn B now t b st = (None, t1, saved now st b)"
    "represents (Decode B) (vt t1) (m(ID b \<mapsto> saved now st b))"
proof -
  obtain t1 b1 where eq: "saveTxn B now t b st = (None, t1, b1)"
    using saveTxn_reliable [of now t b st] by (metis prod.collapse)
  from saveTxn_represents [OF eq assms] eq that show thesis by auto
qed

lemma getBid_reliable:
  assumes "represents (Decode B) (vt t) m"
  shows "getBid B (TxnGet B t) i = (case m i of None \<Rightarrow> Inl ErrBidNotFound | Some b \<Rightarrow> Inr b)"
proof (cases "m i")
  case None
  with represents_none [OF assms, of i] have "vt t (ChildString dsPrefix i) = None" by simp
  from get_reliable_missing [OF this] None show ?thesis
    by (simp add: getBid_def ErrNotFound_def)
next
  case (Some b)
  from represents_get [OF assms Some] get_reliable Some show ?thesis
    by (auto simp: getBid_def)
qed

lemma GetBid_reliable:
  assumes "represents (Decode B) (vd (db s)) m"
  shows "GetBid B i s = (case m i of None \<Rightarrow> Inl ErrBidNotFound | Some b \<Rightarrow> Inr b)"
proof (cases "m i")
  case None
  with represents_none [OF assms, of i] have "vd (db s) (ChildString dsPrefix i) = None" by simp
  from store_get_reliable_missing [OF this] None show ?thesis
    by (simp add: GetBid_def getBid_def ErrNotFound_def)
next
  case (Some b)
  from represents_get [OF assms Some] store_get_reliable Some show ?thesis
    by (auto simp: GetBid_def getBid_def)
qed

lemma commitStore_total:
  assumes "represents (Decode B) (vt t) m"
  obtains d where "commitStore B t s = (None, s\<lparr>db := d\<rparr>)" "represents (Decode B) (vd d) m"
  using that commit_total [of t "db s"] commit_view [of t "db s"] assms
  by (cases "TxnCommit B t (db s)") (simp add: commitStore_def)

lemma txn_total:
  obtains t where "NewTransaction B d = Inr t" "vt t = vd d"
  using new_reliable [of d] new_view that by blast

end

section \<open>A backend in memory\<close>

text \<open>
  An encoded bid is the bid itself and the nil value is the missing one, which does not decode.
\<close>

definition mem_backend :: "((key \<times> Bid option) list, (key \<times> Bid option) list, Bid option) backend" where
  "mem_backend = datastore.extend mem_datastore
     \<lparr>Encode = (\<lambda>b. Inr (Some b)),
      Decode = (\<lambda>v. case v of None \<Rightarrow> Inl (New ''EOF'') | Some b \<Rightarrow> Inr b),
      NilValue = None\<rparr>"

lemma mem_backend_simps [simp]:
  "NewTransaction mem_backend = NewTransaction mem_datastore" "TxnGet mem_backend = TxnGet mem_datastore"
  "TxnPut mem_backend = TxnPut mem_datastore" "TxnDelete mem_backend = TxnDelete mem_datastore"
  "TxnQuery mem_backend = TxnQuery mem_datastore" "TxnCommit mem_backend = TxnCommit mem_datastore"
  "StoreGet mem_backend = StoreGet mem_datastore" "StoreDelete mem_backend = StoreDelete mem_datastore"
  "QueryExtended mem_backend = QueryExtended mem_datastore"
  "Encode mem_backend = (\<lambda>b. Inr (Some b))" "NilValue mem_backend = None"
  "Decode mem_backend = (\<lambda>v. case v of None \<Rightarrow> Inl (New ''EOF'') | Some b \<Rightarrow> Inr b)"
  by (simp_all add: mem_backend_def datastore.extend_def)

interpretation memb: reliable_backend mem_backend map_of map_of
proof (unfold_locales, goal_cases)
  case (10 q t rs es)
  from 10(1,2) 10(3) [simplified] 10(4) show ?case by (rule mem.query_law)
next
  case (15 q d rs es)
  from 15(1) 15(2) [simplified] 15(3) show ?case by (rule mem.query_ext_law)
qed (auto simp: mem.get_reliable mem.get_reliable_missing mem.store_get_reliable
  mem.store_get_reliable_missing mem_datastore_def mem_get_def update_conv' delete_conv'
  split: option.splits)

section \<open>The handlers as updates of the map of bids\<close>

definition awaiting_spec ::
  "go_time \<Rightarrow> string \<Rightarrow> Sources \<Rightarrow> (string \<rightharpoonup> Bid) \<Rightarrow> go_error option \<times> (string \<rightharpoonup> Bid)" where
  "awaiting_spec now i sources m =
     (case (Sources_Validate sources, m i) of
        (Some e, _) \<Rightarrow> (Some e, m)
      | (None, None) \<Rightarrow> (Some ErrBidNotFound, m)
      | (None, Some b) \<Rightarrow>
          if Status b = AwaitingProposal then (None, m)
          else if Status b \<noteq> Submitted then (Some (wrongStatus Submitted (Status b)), m)
          else (None, m(i \<mapsto> saved now AwaitingProposal (b\<lparr>BidSources := sources\<rparr>))))"

text \<open>
  Setting the proposal cid and setting the deal id share their guards: \<open>ok\<close> checks the argument,
  \<open>upd\<close> is what a bid that awaits its proposal becomes.
\<close>

definition proposal_spec ::
  "go_error option \<Rightarrow> (Bid \<Rightarrow> Bid) \<Rightarrow> string \<Rightarrow> (string \<rightharpoonup> Bid) \<Rightarrow> go_error option \<times> (string \<rightharpoonup> Bid)" where
  "proposal_spec bad upd i m =
     (case (bad, m i) of
        (Some e, _) \<Rightarrow> (Some e, m)
      | (None, None) \<Rightarrow> (Some ErrBidNotFound, m)
      | (None, Some b) \<Rightarrow>
          if Status b > AwaitingProposal then (None, m)
          else if Status b \<noteq> AwaitingProposal
            then (Some (wrongStatus AwaitingProposal (Status b)), m)
          else (None, m(i \<mapsto> upd b)))"

definition deal_uid_spec ::
  "go_time \<Rightarrow> string \<Rightarrow> string \<Rightarrow> (string \<rightharpoonup> Bid) \<Rightarrow> go_error option \<times> (string \<rightharpoonup> Bid)" where
  "deal_uid_spec now i uid m =
     proposal_spec (if uid = '''' then Some (New ''deal uid is empty'') else None)
       (\<lambda>b. saved now Finalized (b\<lparr>DealUID := uid\<rparr>)) i m"

text \<open>What enqueueing makes of a bid and of the store.\<close>

definition has_room :: "'d Store \<Rightarrow> bool" where
  "has_room s \<longleftrightarrow> length (jobCh s) < chanCap s"

definition queued_or_fetching :: "go_time \<Rightarrow> go_time \<Rightarrow> bool \<Rightarrow> Bid \<Rightarrow> Bid" where
  "queued_or_fetching now now' room b =
     (if room then saved now FetchingData b else saved now' QueuedData (saved now FetchingData b))"

definition enqueued :: "go_time \<Rightarrow> go_time \<Rightarrow> Bid \<Rightarrow> 'd Store \<Rightarrow> 'd Store" where
  "enqueued now now' b s = s\<lparr>heap := (heap s)(nextAddr s := queued_or_fetching now now' (has_room s) b),
     nextAddr := Suc (nextAddr s), jobCh := (if has_room s then jobCh s @ [nextAddr s] else jobCh s)\<rparr>"

definition with_status :: "(string \<rightharpoonup> Bid) \<Rightarrow> BidStatus \<Rightarrow> string set" where
  "with_status m st = {i. \<exists>b. m i = Some b \<and> Status b = st}"

definition proposal_cid_spec ::
  "go_time \<Rightarrow> go_time \<Rightarrow> bool \<Rightarrow> string \<Rightarrow> cid \<Rightarrow> (string \<rightharpoonup> Bid) \<Rightarrow> go_error option \<times> (string \<rightharpoonup> Bid)" where
  "proposal_cid_spec now now' room i pcid m =
     proposal_spec (if Defined pcid then None else Some (New ''proposal cid must be defined''))
       (\<lambda>b. queued_or_fetching now now' room (b\<lparr>ProposalCid := pcid\<rparr>)) i m"

definition save_spec ::
  "'z libs_scheme \<Rightarrow> go_time \<Rightarrow> go_time \<Rightarrow> Bid \<Rightarrow> (string \<rightharpoonup> Bid) \<Rightarrow> go_error option \<times> (string \<rightharpoonup> Bid)" where
  "save_spec L now now' b m =
     (case validate L b of
        Some e \<Rightarrow> (Some (Wrapv ''invalid bid data'' e), m)
      | None \<Rightarrow> (None, m(ID b \<mapsto> saved now' Submitted (b\<lparr>CreatedAt := now\<rparr>))))"

lemma validate_status: "validate L b = None \<Longrightarrow> Status b = Unspecified"
  by (auto simp: validate_def split: if_splits option.splits)

text \<open>
  What a handler may do to the contents when the backend may fail: all of the update on success,
  nothing on an error.
\<close>

definition all_or_nothing ::
  "('v \<Rightarrow> go_error + Bid) \<Rightarrow> (key \<rightharpoonup> 'v) \<Rightarrow> (string \<rightharpoonup> Bid) \<Rightarrow> go_error option \<Rightarrow>
     go_error option \<times> (string \<rightharpoonup> Bid) \<Rightarrow> bool" where
  "all_or_nothing dec view m r spec \<longleftrightarrow>
     (case r of None \<Rightarrow> fst spec = None \<and> represents dec view (snd spec)
              | Some e \<Rightarrow> represents dec view m)"

context bid_backend
begin

lemma SetAwaitingProposalCid_refines:
  assumes "SetAwaitingProposalCid B now i sources s = (r, s')" "represents (Decode B) (vd (db s)) m"
  shows "all_or_nothing (Decode B) (vd (db s')) m r (awaiting_spec now i sources m)"
proof (cases "Sources_Validate sources")
  case valid: None
  show ?thesis
  proof (cases "NewTransaction B (db s)")
    case (Inr t)
    show ?thesis
    proof (cases "getBid B (TxnGet B t) i")
      case b: (Inr b)
      note m = txn_getBid [OF assms(2) Inr b]
      have ID: "ID b = i" using represents_get [OF assms(2) m(1)] by simp
      let ?b = "b\<lparr>BidSources := sources\<rparr>"
      obtain r1 t1 b1 where save: "saveTxn B now t ?b AwaitingProposal = (r1, t1, b1)"
        by (metis prod_cases3)
      show ?thesis
      proof (cases "Status b = Submitted \<and> r1 = None")
        case True
        then have "consistent m ?b AwaitingProposal"
          using m(1) ID by (intro consistent_same [of _ _ b]) simp_all
        with saveTxn_represents [of now t ?b] save True m(2) ID
        have t1: "represents (Decode B) (vt t1) (m(i \<mapsto> saved now AwaitingProposal ?b))" by simp
        from True have "commitStore B t1 s = (r, s')"
          using assms(1) valid Inr b save by (simp add: SetAwaitingProposalCid_def)
        from commitStore_represents [OF this assms(2) t1] True show ?thesis
          by (simp add: all_or_nothing_def awaiting_spec_def valid m(1) split: option.splits)
      next
        case False
        then show ?thesis using assms valid Inr b save m(1)
          by (auto simp: SetAwaitingProposalCid_def all_or_nothing_def awaiting_spec_def
              split: if_splits option.splits)
      qed
    qed (use assms valid Inr in \<open>auto simp: SetAwaitingProposalCid_def all_or_nothing_def\<close>)
  qed (use assms valid in \<open>auto simp: SetAwaitingProposalCid_def all_or_nothing_def\<close>)
next
  case (Some e)
  with assms(1) have "r = Some e" "s' = s" by (auto simp: SetAwaitingProposalCid_def)
  with assms(2) show ?thesis by (simp add: all_or_nothing_def)
qed

lemma SetDealUID_refines:
  assumes "SetDealUID B now i uid s = (r, s')" "represents (Decode B) (vd (db s)) m"
  shows "all_or_nothing (Decode B) (vd (db s')) m r (deal_uid_spec now i uid m)"
proof (cases "uid = ''''")
  case valid: False
  show ?thesis
  proof (cases "NewTransaction B (db s)")
    case (Inr t)
    show ?thesis
    proof (cases "getBid B (TxnGet B t) i")
      case b: (Inr b)
      note m = txn_getBid [OF assms(2) Inr b]
      have ID: "ID b = i" using represents_get [OF assms(2) m(1)] by simp
      let ?b = "b\<lparr>DealUID := uid\<rparr>"
      obtain r1 t1 b1 where save: "saveTxn B now t ?b Finalized = (r1, t1, b1)"
        by (metis prod_cases3)
      show ?thesis
      proof (cases "Status b = AwaitingProposal \<and> r1 = None")
        case True
        then have "consistent m ?b Finalized"
          using m(1) ID by (intro consistent_same [of _ _ b]) simp_all
        with saveTxn_represents [of now t ?b] save True m(2) ID
        have t1: "represents (Decode B) (vt t1) (m(i \<mapsto> saved now Finalized ?b))" by simp
        from True have "commitStore B t1 s = (r, s')"
          using assms(1) valid Inr b save by (simp add: SetDealUID_def)
        from commitStore_represents [OF this assms(2) t1] True show ?thesis
          by (simp add: all_or_nothing_def deal_uid_spec_def proposal_spec_def valid m(1)
              split: option.splits)
      next
        case False
        then show ?thesis using assms valid Inr b save m(1)
          by (auto simp: SetDealUID_def all_or_nothing_def deal_uid_spec_def proposal_spec_def
              split: if_splits option.splits)
      qed
    qed (use assms valid Inr in \<open>auto simp: SetDealUID_def all_or_nothing_def\<close>)
  qed (use assms valid in \<open>auto simp: SetDealUID_def all_or_nothing_def\<close>)
qed (use assms in \<open>auto simp: SetDealUID_def all_or_nothing_def\<close>)

lemma SaveBid_refines:
  assumes "SaveBid B L now now' b s = (r, s')" "represents (Decode B) (vd (db s)) m"
    and "m (ID b) = None"
  shows "all_or_nothing (Decode B) (vd (db s')) m r (save_spec L now now' b m)"
proof (cases "validate L b")
  case None
  let ?b = "b\<lparr>CreatedAt := now\<rparr>"
  obtain r1 d1 b1 where save: "saveAndTransitionStatus B now' (db s) ?b Submitted = (r1, d1, b1)"
    by (metis prod_cases3)
  have "consistent m ?b Submitted"
    using assms(3) validate_status [OF None] by (intro consistent_new) simp_all
  from saveAndTransitionStatus_represents [OF save assms(2) this] show ?thesis
    using assms(1) None save
    by (cases r1) (auto simp: SaveBid_def all_or_nothing_def save_spec_def)
qed (use assms in \<open>auto simp: SaveBid_def all_or_nothing_def save_spec_def\<close>)

end

text \<open>With a backend that does not fail, the handlers are exactly these updates.\<close>

context reliable_backend
begin

lemma commitStore_reliable: "fst (commitStore B t s) = None"
  using commit_fst [of t "db s"] by (simp add: commitStore_def case_prod_unfold)

lemma SetAwaitingProposalCid_error:
  assumes "represents (Decode B) (vd (db s)) m"
  shows "fst (SetAwaitingProposalCid B now i sources s) = fst (awaiting_spec now i sources m)"
proof -
  obtain t where t: "NewTransaction B (db s) = Inr t" "vt t = vd (db s)" by (rule txn_total)
  have get: "getBid B (TxnGet B t) i = (case m i of None \<Rightarrow> Inl ErrBidNotFound | Some b \<Rightarrow> Inr b)"
    by (rule getBid_reliable) (simp add: t assms)
  show ?thesis
  proof (cases "m i")
    case (Some b)
    obtain t1 b1 where save:
      "saveTxn B now t (b\<lparr>BidSources := sources\<rparr>) AwaitingProposal = (None, t1, b1)"
      using saveTxn_reliable by (metis prod.collapse)
    then show ?thesis using Some t get commitStore_reliable
      by (simp add: SetAwaitingProposalCid_def awaiting_spec_def split: option.split)
  qed (use t get in \<open>simp add: SetAwaitingProposalCid_def awaiting_spec_def split: option.split\<close>)
qed

lemma SetDealUID_error:
  assumes "represents (Decode B) (vd (db s)) m"
  shows "fst (SetDealUID B now i uid s) = fst (deal_uid_spec now i uid m)"
proof -
  obtain t where t: "NewTransaction B (db s) = Inr t" "vt t = vd (db s)" by (rule txn_total)
  have get: "getBid B (TxnGet B t) i = (case m i of None \<Rightarrow> Inl ErrBidNotFound | Some b \<Rightarrow> Inr b)"
    by (rule getBid_reliable) (simp add: t assms)
  show ?thesis
  proof (cases "m i")
    case (Some b)
    obtain t1 b1 where save: "saveTxn B now t (b\<lparr>DealUID := uid\<rparr>) Finalized = (None, t1, b1)"
      using saveTxn_reliable by (metis prod.collapse)
    then show ?thesis using Some t get commitStore_reliable
      by (simp add: SetDealUID_def deal_uid_spec_def proposal_spec_def)
  qed (use t get in \<open>simp add: SetDealUID_def deal_uid_spec_def proposal_spec_def\<close>)
qed

lemma SaveBid_error: "fst (SaveBid B L now now' b s) = fst (save_spec L now now' b m)"
proof (cases "validate L b")
  case None
  let ?b = "b\<lparr>CreatedAt := now\<rparr>"
  obtain t where t: "NewTransaction B (db s) = Inr t" using new_reliable by blast
  obtain t1 b1 where save: "saveTxn B now' t ?b Submitted = (None, t1, b1)"
    using saveTxn_reliable by (metis prod.collapse)
  obtain d where "TxnCommit B t1 (db s) = (None, d)" using commit_reliable by blast
  with t save None show ?thesis
    by (simp add: SaveBid_def save_spec_def saveAndTransitionStatus_def)
qed (simp add: SaveBid_def save_spec_def)

text \<open>Allocating a bid, handing it over and committing.\<close>

lemma enqueueDataURI_total:
  assumes "represents (Decode B) (vt t) m" "consistent m b FetchingData" "alloc b s = (p, s1)"
  obtains t1 where
    "represents (Decode B) (vt t1) (m(ID b \<mapsto> queued_or_fetching now now' (has_room s) b))"
    "enqueueDataURI B now now' t p s1 = (None, t1, enqueued now now' b s)"
proof -
  let ?f = "saved now FetchingData b"
  obtain t1 where t1: "saveTxn B now t b FetchingData = (None, t1, ?f)"
    "represents (Decode B) (vt t1) (m(ID b \<mapsto> ?f))"
    using saveTxn_total [OF assms(1,2)] by blast
  have "consistent (m(ID b \<mapsto> ?f)) ?f QueuedData"
    by (rule consistent_same [of _ _ ?f]) simp_all
  from saveTxn_total [OF t1(2) this, of now'] obtain t2 where t2:
    "saveTxn B now' t1 ?f QueuedData = (None, t2, saved now' QueuedData ?f)"
    "represents (Decode B) (vt t2) (m(ID b \<mapsto> saved now' QueuedData ?f))"
    by auto
  have s1: "p = nextAddr s" "s1 = s\<lparr>heap := (heap s)(nextAddr s := b), nextAddr := Suc (nextAddr s)\<rparr>"
    using assms(3) by (auto simp: alloc_def)
  note defs = enqueueDataURI_def enqueued_def queued_or_fetching_def has_room_def
  show thesis
  proof (cases "has_room s")
    case True
    with t1(1) have "enqueueDataURI B now now' t p s1 = (None, t1, enqueued now now' b s)"
      unfolding s1 by (simp add: defs)
    with that [of t1] t1(2) True show thesis by (simp add: queued_or_fetching_def)
  next
    case False
    with t1(1) t2(1) have "enqueueDataURI B now now' t p s1 = (None, t2, enqueued now now' b s)"
      unfolding s1 by (simp add: defs)
    with that [of t2] t2(2) False show thesis by (simp add: queued_or_fetching_def)
  qed
qed

lemma enqueue_commit:
  assumes "represents (Decode B) (vt t) m" "consistent m b FetchingData" "alloc b s = (p, s1)"
  obtains t1 s2 d where "enqueueDataURI B now now' t p s1 = (None, t1, s2)"
    "commitStore B t1 s2 = (None, (enqueued now now' b s)\<lparr>db := d\<rparr>)"
    "represents (Decode B) (vd d) (m(ID b \<mapsto> queued_or_fetching now now' (has_room s) b))"
  using that enqueueDataURI_total [OF assms, of now now'] commitStore_total by metis

lemma SetProposalCid_exact:
  assumes "represents (Decode B) (vd (db s)) m"
  shows "if Defined pcid \<and> i \<in> with_status m AwaitingProposal
    then \<exists>d. SetProposalCid B now now' i pcid s =
        (None, (enqueued now now' ((the (m i))\<lparr>ProposalCid := pcid\<rparr>) s)\<lparr>db := d\<rparr>) \<and>
      represents (Decode B) (vd d) (snd (proposal_cid_spec now now' (has_room s) i pcid m))
    else SetProposalCid B now now' i pcid s = (fst (proposal_cid_spec now now' (has_room s) i pcid m), s) \<and>
      snd (proposal_cid_spec now now' (has_room s) i pcid m) = m"
proof -
  obtain t where t: "NewTransaction B (db s) = Inr t" "vt t = vd (db s)" by (rule txn_total)
  then have rep: "represents (Decode B) (vt t) m" using assms by simp
  note get = getBid_reliable [OF rep, of i]
  note spec = proposal_cid_spec_def proposal_spec_def
  show ?thesis
  proof (cases "Defined pcid \<and> i \<in> with_status m AwaitingProposal")
    case True
    then obtain b where b: "m i = Some b" "Status b = AwaitingProposal"
      by (auto simp: with_status_def)
    have ID: "ID b = i" using represents_get [OF assms b(1)] by simp
    let ?b = "b\<lparr>ProposalCid := pcid\<rparr>"
    obtain p s1 where al: "alloc ?b s = (p, s1)" by fastforce
    have "consistent m ?b FetchingData" by (rule consistent_same [of _ _ b]) (simp_all add: ID b)
    from enqueue_commit [OF rep this al, of now now'] obtain t1 s2 d where
      "enqueueDataURI B now now' t p s1 = (None, t1, s2)"
      "commitStore B t1 s2 = (None, (enqueued now now' ?b s)\<lparr>db := d\<rparr>)"
      "represents (Decode B) (vd d) (m(i \<mapsto> queued_or_fetching now now' (has_room s) ?b))"
      using ID by auto
    with True t get b al show ?thesis by (auto simp: SetProposalCid_def spec)
  next
    case False
    then show ?thesis using t get
      by (cases "m i") (auto simp: SetProposalCid_def spec with_status_def)
  qed
qed

end

section \<open>Contents for the witnesses\<close>

definition sample_libs :: libs where
  "sample_libs = \<lparr>peer_Validate = (\<lambda>p. if p = '''' then Some (New ''empty peer ID'') else None),
     cid_String = (\<lambda>c. case c of Undef \<Rightarrow> ''b'' | Cid s \<Rightarrow> s)\<rparr>"

definition sample_bid :: "string \<Rightarrow> BidStatus \<Rightarrow> Bid" where
  "sample_bid i st = \<lparr>ID = i, AuctionID = ''auction'', AuctioneerID = ''peer'', PayloadCid = Cid ''bafy'',
     DealSize = 1024, DealDuration = 518400, ClientAddress = ''f01'',
     BidSources = \<lparr>Sources.CARURL = None, CARIPFS = None\<rparr>, Status = st, AskPrice = 100,
     VerifiedAskPrice = 50, StartEpoch = 2000, FastRetrieval = True, ProposalCid = Undef,
     DealUID = '''', DataURIFetchAttempts = 0, CreatedAt = 0, UpdatedAt = 0, ErrorCause = ''''\<rparr>"

definition sample_store :: "'d \<Rightarrow> 'd Store" where
  "sample_store d = \<lparr>db = d, bytesLimiter = NopeLimiter, jobCh = [], tickCh = 0, chanCap = 1,
     dealDataDirectory = ''/data'', dealDataFetchAttempts = 3, dealDataFetchTimeout = 60,
     chunkedDownload = False, semImports = Some (1, 0), ctxDone = False, heap = (\<lambda>_. sample_bid '''' Unspecified), nextAddr = 0, reports = []\<rparr>"

lemmas sample_defs = sample_libs_def sample_bid_def sample_store_def

lemma sample_simps [simp]:
  "ID (sample_bid i st) = i" "Status (sample_bid i st) = st" "DealSize (sample_bid i st) = 1024"
  "db (sample_store d) = d" "jobCh (sample_store d) = []" "chanCap (sample_store d) = 1"
  "nextAddr (sample_store d) = 0" "tickCh (sample_store d) = 0" "semImports (sample_store d) = Some (1, 0)"
  by (simp_all add: sample_defs)

lemma sample_valid [simp]: "validate sample_libs (sample_bid ''a'' Unspecified) = None"
  by (simp add: validate_def sample_defs IsZero_def Defined_def)

lemma represents_empty [simp]: "represents dec Map.empty Map.empty"
  by (simp add: represents_def stores_def indexed_def stored_at_def index_at_def flat_def)

lemma represents_one:
  assumes "Status b \<noteq> QueuedData" "Status b \<noteq> FetchingData" "dec v = Inr b"
  shows "represents dec [ChildString dsPrefix (ID b) \<mapsto> v] [ID b \<mapsto> b]"
proof -
  have "stores dec Map.empty Map.empty" by (simp add: stores_def stored_at_def flat_def)
  from stores_put [of dec Map.empty Map.empty v b, OF this assms(3)] assms(1,2) show ?thesis
    by (simp add: represents_def indexed_frame)
      (simp add: indexed_def index_at_def flat_def)
qed

definition one_bid :: "BidStatus \<Rightarrow> (key \<times> Bid option) list" where
  "one_bid st = [(ChildString dsPrefix ''a'', Some (sample_bid ''a'' st))]"

lemma one_bid_represents:
  "st \<noteq> QueuedData \<Longrightarrow> st \<noteq> FetchingData \<Longrightarrow>
     represents (Decode mem_backend) (map_of (one_bid st)) [''a'' \<mapsto> sample_bid ''a'' st]"
  using represents_one [of "sample_bid ''a'' st" "Decode mem_backend" "Some (sample_bid ''a'' st)"]
  by (simp add: one_bid_def)

section \<open>Properties\<close>

text \<open>
  C7: \<open>saveAndTransitionStatus\<close> with its own transaction is all or nothing on any backend, for a bid
  whose status in memory is consistent with the stored one: if the two differ, the stored bid has no
  index entry, or has that of the status that is entered, for another one would stay behind; and a bid
  that is saved under the status it has is queued or being fetched just when the stored one is. When it
  succeeds, the map of bids is updated with the bid in its new status and the
  index entries follow the transition; when any step fails, the contents still represent the old map.
\<close>

theorem save_refines:
  assumes "bid_backend B vd vt" "represents (Decode B) (vd d) m" "consistent m b st"
    and "saveAndTransitionStatus B now d b st = (r, d', b')"
  shows "case r of
      None \<Rightarrow> b' = saved now st b \<and> represents (Decode B) (vd d') (m(ID b \<mapsto> b'))
    | Some e \<Rightarrow> represents (Decode B) (vd d') m"
  by (rule bid_backend.saveAndTransitionStatus_represents [OF assms(1,4,2,3)])

theorem save_refines_witness:
  "\<exists>d'. represents (Decode mem_backend) (map_of d') [''a'' \<mapsto> saved 7 QueuedData (sample_bid ''a'' Submitted)]"
proof -
  let ?b = "sample_bid ''a'' Submitted"
  obtain r d' b' where eq:
    "saveAndTransitionStatus mem_backend 7 (one_bid Submitted) ?b QueuedData = (r, d', b')"
    by (metis prod_cases3)
  have r: "r = None" using eq
    by (auto simp: saveAndTransitionStatus_def saveTxn_def leaveIndex_def enterIndex_def putBid_def
        mem_datastore_def)
  have "consistent [''a'' \<mapsto> ?b] ?b QueuedData" by (rule consistent_same [of _ _ ?b]) simp_all
  from save_refines [OF memb.bid_backend_axioms one_bid_represents this eq] r show ?thesis by auto
qed

text \<open>
  C23: saving a new bid either stores it as submitted, with its creation time, or changes nothing;
  it succeeds only for a valid bid.
\<close>

theorem save_bid_refines:
  assumes "bid_backend B vd vt" "represents (Decode B) (vd (db s)) m" "m (ID b) = None"
    and "SaveBid B L now now' b s = (r, s')"
  shows "all_or_nothing (Decode B) (vd (db s')) m r (save_spec L now now' b m)"
  by (rule bid_backend.SaveBid_refines [OF assms(1,4,2,3)])

theorem save_bid_refines_witness:
  "\<exists>r s'. SaveBid mem_backend sample_libs 5 6 (sample_bid ''a'' Unspecified) (sample_store []) = (r, s') \<and>
     all_or_nothing (Decode mem_backend) (map_of (db s')) Map.empty r
       (save_spec sample_libs 5 6 (sample_bid ''a'' Unspecified) Map.empty)"
proof -
  obtain r s' where eq:
    "SaveBid mem_backend sample_libs 5 6 (sample_bid ''a'' Unspecified) (sample_store []) = (r, s')"
    by fastforce
  from save_bid_refines [OF memb.bid_backend_axioms _ _ eq, of Map.empty] eq show ?thesis by auto
qed

text \<open>
  C21: the handler of a winning bid refines its update of the map on any backend: on success the
  bid was there, submitted or already awaiting its proposal, and the given valid sources are
  stored with the new status; on any error the contents represent the old map.
\<close>

theorem awaiting_refines:
  assumes "bid_backend B vd vt" "represents (Decode B) (vd (db s)) m"
    and "SetAwaitingProposalCid B now i sources s = (r, s')"
  shows "all_or_nothing (Decode B) (vd (db s')) m r (awaiting_spec now i sources m)"
  by (rule bid_backend.SetAwaitingProposalCid_refines [OF assms(1,3,2)])

theorem awaiting_refines_witness:
  "\<exists>r s'. SetAwaitingProposalCid mem_backend 5 ''a'' \<lparr>Sources.CARURL = None, CARIPFS = None\<rparr>
       (sample_store (one_bid Submitted)) = (r, s') \<and>
     all_or_nothing (Decode mem_backend) (map_of (db s')) [''a'' \<mapsto> sample_bid ''a'' Submitted] r
       (awaiting_spec 5 ''a'' \<lparr>Sources.CARURL = None, CARIPFS = None\<rparr> [''a'' \<mapsto> sample_bid ''a'' Submitted])"
proof -
  obtain r s' where eq: "SetAwaitingProposalCid mem_backend 5 ''a''
      \<lparr>Sources.CARURL = None, CARIPFS = None\<rparr> (sample_store (one_bid Submitted)) = (r, s')"
    by fastforce
  from awaiting_refines [OF memb.bid_backend_axioms _ eq] one_bid_represents [of Submitted] eq
  show ?thesis by auto
qed

text \<open>
  The handler of a Boost proposal refines its update of the map on any backend: on success a
  bid that awaited its proposal is finalized with the deal id, one beyond is left alone; on any
  error the contents represent the old map.
\<close>

theorem deal_uid_refines:
  assumes "bid_backend B vd vt" "represents (Decode B) (vd (db s)) m"
    and "SetDealUID B now i uid s = (r, s')"
  shows "all_or_nothing (Decode B) (vd (db s')) m r (deal_uid_spec now i uid m)"
  by (rule bid_backend.SetDealUID_refines [OF assms(1,3,2)])

theorem deal_uid_refines_witness:
  "\<exists>r s'. SetDealUID mem_backend 5 ''a'' ''u'' (sample_store (one_bid AwaitingProposal)) = (r, s') \<and>
     all_or_nothing (Decode mem_backend) (map_of (db s')) [''a'' \<mapsto> sample_bid ''a'' AwaitingProposal] r
       (deal_uid_spec 5 ''a'' ''u'' [''a'' \<mapsto> sample_bid ''a'' AwaitingProposal])"
proof -
  obtain r s' where eq:
    "SetDealUID mem_backend 5 ''a'' ''u'' (sample_store (one_bid AwaitingProposal)) = (r, s')"
    by fastforce
  from deal_uid_refines [OF memb.bid_backend_axioms _ eq] one_bid_represents [of AwaitingProposal] eq
  show ?thesis by auto
qed


text \<open>
  C24: with a backend that does not fail, the result of each handler is the one its specification
  gives: the validation error of the argument, bid not found, the wrong status, or none.
\<close>

theorem handler_results:
  assumes "reliable_backend B vd vt" "represents (Decode B) (vd (db s)) m"
  shows "fst (SaveBid B L now now' b s) = fst (save_spec L now now' b m) \<and>
    fst (SetAwaitingProposalCid B now i sources s) = fst (awaiting_spec now i sources m) \<and>
    fst (SetDealUID B now i uid s) = fst (deal_uid_spec now i uid m)"
  using reliable_backend.SaveBid_error [OF assms(1)]
    reliable_backend.SetAwaitingProposalCid_error [OF assms] reliable_backend.SetDealUID_error [OF assms]
  by blast

theorem handler_results_witness:
  "fst (SetDealUID mem_backend 5 ''a'' ''u'' (sample_store (one_bid Submitted))) =
     Some (wrongStatus AwaitingProposal Submitted) \<and>
   fst (SetDealUID mem_backend 5 ''b'' ''u'' (sample_store (one_bid Submitted))) = Some ErrBidNotFound"
proof -
  let ?s = "sample_store (one_bid Submitted)"
  have rep: "represents (Decode mem_backend) (map_of (db ?s)) [''a'' \<mapsto> sample_bid ''a'' Submitted]"
    using one_bid_represents [of Submitted] by simp
  note res = handler_results [OF memb.reliable_backend_axioms rep, of sample_libs 5 6 undefined]
  from res [of "''a''" undefined "''u''"] res [of "''b''" undefined "''u''"] show ?thesis
    by (simp add: deal_uid_spec_def proposal_spec_def status_order)
qed

text \<open>
  C22: with a backend that does not fail, the handler of a proposal cid stores the cid and hands the
  bid to a fetch worker when the channel has room, and queues the bid when it has none; the bid
  that was not awaiting its proposal is left alone, with an error when it is not yet there.
\<close>

theorem proposal_cid_exact:
  assumes "reliable_backend B vd vt" "represents (Decode B) (vd (db s)) m"
  shows "if Defined pcid \<and> i \<in> with_status m AwaitingProposal
    then \<exists>d. SetProposalCid B now now' i pcid s =
        (None, (enqueued now now' ((the (m i))\<lparr>ProposalCid := pcid\<rparr>) s)\<lparr>db := d\<rparr>) \<and>
      represents (Decode B) (vd d) (snd (proposal_cid_spec now now' (has_room s) i pcid m))
    else SetProposalCid B now now' i pcid s = (fst (proposal_cid_spec now now' (has_room s) i pcid m), s) \<and>
      snd (proposal_cid_spec now now' (has_room s) i pcid m) = m"
  by (rule reliable_backend.SetProposalCid_exact [OF assms])

theorem proposal_cid_exact_witness:
  "\<exists>s'. SetProposalCid mem_backend 5 6 ''a'' (Cid ''prop'') (sample_store (one_bid AwaitingProposal)) =
      (None, s') \<and>
    represents (Decode mem_backend) (map_of (db s')) [''a'' \<mapsto> saved 5 FetchingData
      (sample_bid ''a'' AwaitingProposal\<lparr>ProposalCid := Cid ''prop''\<rparr>)]"
  using proposal_cid_exact [OF memb.reliable_backend_axioms,
      of "sample_store (one_bid AwaitingProposal)" "[''a'' \<mapsto> sample_bid ''a'' AwaitingProposal]"
        "Cid ''prop''" "''a''" 5 6] one_bid_represents [of AwaitingProposal]
  by (auto simp: proposal_cid_spec_def proposal_spec_def Defined_def status_order with_status_def
      queued_or_fetching_def has_room_def)

text \<open>
  The bid is handed to a worker before the transaction commits. When the commit then fails, the
  handler reports an error and the contents still say that the bid awaits its proposal, but the
  worker has the job: a redelivered message makes it a second job for the same bid.
\<close>

theorem job_survives_failed_commit:
  assumes "bid_backend B vd vt" "represents (Decode B) (vd (db s)) m"
    and "SetProposalCid B now now' i pcid s = (Some (Wrapv ''committing txn'' e), s')"
    and "length (jobCh s) < chanCap s"
  shows "jobCh s' = jobCh s @ [nextAddr s] \<and> Status (heap s' (nextAddr s)) = FetchingData \<and>
    represents (Decode B) (vd (db s')) m"
proof -
  obtain t b where t: "Defined pcid" "NewTransaction B (db s) = Inr t" "getBid B (TxnGet B t) i = Inr b"
    using assms(3) by (auto simp: SetProposalCid_def getBid_def ErrBidNotFound_def
        split: if_splits sum.splits)
  note m = bid_backend.txn_getBid [OF assms(1,2) t(2,3)]
  have ID: "ID b = i" using represents_get [OF assms(2) m(1)] by simp
  have st: "Status b = AwaitingProposal" using assms(3) t
    by (auto simp: SetProposalCid_def wrongStatus_def split: if_splits)
  let ?b = "b\<lparr>ProposalCid := pcid\<rparr>"
  obtain p s1 where al: "alloc ?b s = (p, s1)" by fastforce
  then have s1: "p = nextAddr s" "heap s1 p = ?b" "jobCh s1 = jobCh s" "chanCap s1 = chanCap s"
    "db s1 = db s" by (auto simp: alloc_def)
  obtain r1 t1 b1 where save: "saveTxn B now t ?b FetchingData = (r1, t1, b1)" by (metis prod_cases3)
  have r1: "r1 = None" using assms(3) t st al save
    by (auto simp: SetProposalCid_def enqueueDataURI_def s1(2-5) split: option.splits)
  have "consistent m ?b FetchingData" by (rule consistent_same [of _ _ b]) (simp_all add: ID m(1))
  note b1 = bid_backend.saveTxn_represents [OF assms(1) save [unfolded r1] m(2) this]
  let ?s2 = "s1\<lparr>heap := (heap s1)(p := b1), jobCh := jobCh s1 @ [p]\<rparr>"
  have com: "commitStore B t1 ?s2 = (Some (Wrapv ''committing txn'' e), s')"
    using assms(3,4) t st al save r1 by (simp add: SetProposalCid_def enqueueDataURI_def s1(2-5))
  then have "s' = ?s2\<lparr>db := db s'\<rparr>" by (auto simp: commitStore_def split: prod.splits option.splits)
  then have "jobCh s' = jobCh ?s2" "heap s' = heap ?s2"
    by (metis Store.select_convs Store.update_convs Store.surjective)+
  moreover have "represents (Decode B) (vd (db s')) m"
    using bid_backend.commitStore_represents [OF assms(1) com _ conjunct2 [OF b1]] assms(2)
    by (simp add: s1)
  ultimately show ?thesis using b1 by (simp add: s1)
qed

text \<open>A commit that reports a conflict, as Badger's does, and a write that does not fit.\<close>

definition conflict_backend :: "((key \<times> Bid option) list, (key \<times> Bid option) list, Bid option) backend" where
  "conflict_backend = mem_backend\<lparr>TxnCommit := (\<lambda>t d. (Some (New ''transaction conflict''), d))\<rparr>"

definition full_backend :: "((key \<times> Bid option) list, (key \<times> Bid option) list, Bid option) backend" where
  "full_backend = mem_backend\<lparr>TxnPut := (\<lambda>t k v.
     if below dsQueuedPrefix k then (Some (New ''txn is too big''), t) else TxnPut mem_backend t k v)\<rparr>"

lemmas mem_laws = memb.new_view memb.get_found memb.get_missing memb.put_ok memb.put_fail
  memb.delete_ok memb.delete_fail memb.commit_ok memb.commit_fail memb.query_law
  memb.store_get_found memb.store_get_missing memb.store_delete_ok memb.store_delete_fail
  memb.query_ext_law memb.codec

lemma conflict_fields:
  "NewTransaction conflict_backend = NewTransaction mem_backend" "TxnGet conflict_backend = TxnGet mem_backend"
  "TxnPut conflict_backend = TxnPut mem_backend" "TxnDelete conflict_backend = TxnDelete mem_backend"
  "TxnQuery conflict_backend = TxnQuery mem_backend" "StoreGet conflict_backend = StoreGet mem_backend"
  "StoreDelete conflict_backend = StoreDelete mem_backend" "Encode conflict_backend = Encode mem_backend"
  "QueryExtended conflict_backend = QueryExtended mem_backend" "Decode conflict_backend = Decode mem_backend"
  "TxnCommit conflict_backend = (\<lambda>t d. (Some (New ''transaction conflict''), d))"
  "NilValue conflict_backend = NilValue mem_backend"
  by (simp_all add: conflict_backend_def)

lemma full_fields:
  "NewTransaction full_backend = NewTransaction mem_backend" "TxnGet full_backend = TxnGet mem_backend"
  "TxnCommit full_backend = TxnCommit mem_backend" "TxnDelete full_backend = TxnDelete mem_backend"
  "TxnQuery full_backend = TxnQuery mem_backend" "StoreGet full_backend = StoreGet mem_backend"
  "StoreDelete full_backend = StoreDelete mem_backend" "Encode full_backend = Encode mem_backend"
  "QueryExtended full_backend = QueryExtended mem_backend" "Decode full_backend = Decode mem_backend"
  "TxnPut full_backend = (\<lambda>t k v.
     if below dsQueuedPrefix k then (Some (New ''txn is too big''), t) else TxnPut mem_backend t k v)"
  "NilValue full_backend = NilValue mem_backend"
  by (simp_all add: full_backend_def)

interpretation conflict: bid_backend conflict_backend map_of map_of
  by (unfold_locales; (unfold conflict_fields)?) (erule mem_laws; assumption | simp)+

interpretation full: bid_backend full_backend map_of map_of
  by (unfold_locales; (unfold full_fields)?)
    (erule mem_laws; assumption | force simp: mem_datastore_def update_conv' split: if_splits)+

lemma set_proposal_conflict:
  "\<exists>e s'. SetProposalCid conflict_backend 5 6 ''a'' (Cid ''prop'') (sample_store (one_bid AwaitingProposal)) =
     (Some (Wrapv ''committing txn'' e), s')"
  by (simp add: SetProposalCid_def conflict_fields mem_datastore_def getBid_def mem_get_def one_bid_def
      Defined_def status_order enqueueDataURI_def saveTxn_def leaveIndex_def enterIndex_def putBid_def
      commitStore_def alloc_def)

theorem job_survives_failed_commit_witness:
  "\<exists>r s'. SetProposalCid conflict_backend 5 6 ''a'' (Cid ''prop'') (sample_store (one_bid AwaitingProposal)) =
     (Some r, s') \<and> jobCh s' = [0] \<and>
     represents (Decode mem_backend) (map_of (db s')) [''a'' \<mapsto> sample_bid ''a'' AwaitingProposal]"
proof -
  let ?s = "sample_store (one_bid AwaitingProposal)"
  obtain e s' where eq: "SetProposalCid conflict_backend 5 6 ''a'' (Cid ''prop'') ?s =
      (Some (Wrapv ''committing txn'' e), s')" using set_proposal_conflict by blast
  have "represents (Decode conflict_backend) (map_of (db ?s)) [''a'' \<mapsto> sample_bid ''a'' AwaitingProposal]"
    using one_bid_represents [of AwaitingProposal] by (simp add: conflict_fields)
  from job_survives_failed_commit [OF conflict.bid_backend_axioms this eq] eq show ?thesis
    by (simp add: conflict_fields fun_upd_def)
qed

text \<open>
  When the workers are busy and the save that puts the bid back to the queue fails, the error
  is only logged and the half done transition is committed: the handler reports success, the bid
  is stored as being fetched, and no index entry is left by which it would ever be fetched.
\<close>

theorem half_transition_is_committed:
  "\<exists>s'. SetProposalCid full_backend 5 6 ''a'' (Cid ''prop'')
       (sample_store (one_bid AwaitingProposal)\<lparr>chanCap := 0\<rparr>) = (None, s') \<and>
     jobCh s' = [] \<and>
     (\<exists>b. map_of (db s') (ChildString dsPrefix ''a'') = Some (Some b) \<and> Status b = FetchingData) \<and>
     \<not> (\<exists>k. (below dsQueuedPrefix k \<or> below dsFetchingPrefix k) \<and> map_of (db s') k \<noteq> None)"
  by (auto simp add: SetProposalCid_def full_fields mem_datastore_def getBid_def mem_get_def one_bid_def
      Defined_def status_order enqueueDataURI_def saveTxn_def leaveIndex_def enterIndex_def putBid_def
      commitStore_def alloc_def update_conv' delete_conv' prefix_defs below_def ChildString_def)

end
