(* ===== verification/Fetch_Worker.thy ===== *)
theory Fetch_Worker
  imports Bid_Store
begin

text \<open>
  The fetch workers of \<open>service/store/store.go\<close>: writing the deal data, one attempt at a job, the
  retry decision, the worker's iteration, the queue it is fed from and the jobs a restart picks
  up again. What the network, the file system and Lotus answer during one attempt is an argument.
\<close>

section \<open>The outside world of one attempt\<close>

text \<open>
  Each field is one call and the error it returns for its arguments: the chain height, the boosted
  download of a url into a path, the creation and the seek of the file, the parsing and the
  writing of a data uri, and the import into Lotus; then the calls of the health check.
\<close>

record io =
  GetChainHeight :: "go_error + u64"
  got_Init :: "string \<Rightarrow> string \<Rightarrow> go_error option"
  got_Start :: "string \<Rightarrow> string \<Rightarrow> go_error option"
  os_Create :: "string \<Rightarrow> go_error option"
  file_Seek :: "string \<Rightarrow> go_error option"
  NewURI :: "string \<Rightarrow> string \<Rightarrow> go_error option"
  uri_Write :: "string \<Rightarrow> string \<Rightarrow> string \<Rightarrow> go_error option"
  ImportData :: "cid \<Rightarrow> string \<Rightarrow> go_error option"
  TempFile :: "string \<Rightarrow> go_error option"
  lc_HealthCheck :: "go_error option"

section \<open>Writing the deal data\<close>

definition dealDataFilePathFor :: "'d Store \<Rightarrow> string \<Rightarrow> string \<Rightarrow> string" where
  "dealDataFilePathFor s bidID payloadCid =
     path_Join [dealDataDirectory s, payloadCid @ ''_'' @ bidID]"

definition boostDownload :: "io \<Rightarrow> string \<Rightarrow> string \<Rightarrow> bool" where
  "boostDownload w uri path = (got_Init w uri path = None \<and> got_Start w uri path = None)"

definition WriteDataURI ::
  "io \<Rightarrow> 'd Store \<Rightarrow> string \<Rightarrow> string \<Rightarrow> string \<Rightarrow> u64 \<Rightarrow> go_error + string" where
  "WriteDataURI w s bidID payloadCid uri dealSize =
     (let carDownloadPath = dealDataFilePathFor s bidID payloadCid in
      if chunkedDownload s \<and> boostDownload w uri carDownloadPath then Inr carDownloadPath
      else case os_Create w carDownloadPath of
        Some e \<Rightarrow> Inl (Wrapv ''opening file for deal data'' e)
      | None \<Rightarrow> (case file_Seek w carDownloadPath of
        Some e \<Rightarrow> Inl (Wrapv ''seeking file to the beginning'' e)
      | None \<Rightarrow> (case NewURI w payloadCid uri of
        Some e \<Rightarrow> Inl (Wrapw ''parsing data uri'' e)
      | None \<Rightarrow> (case uri_Write w payloadCid uri carDownloadPath of
        Some e \<Rightarrow> Inl (Wrapw (''writing data uri '' @ uri) e)
      | None \<Rightarrow> Inr carDownloadPath))))"

definition WriteDealData :: "'z libs_scheme \<Rightarrow> io \<Rightarrow> 'd Store \<Rightarrow> Bid \<Rightarrow> go_error + string" where
  "WriteDealData L w s b =
     (case Sources.CARURL (BidSources b) of
        Some u \<Rightarrow> WriteDataURI w s (ID b) (cid_String L (PayloadCid b)) (URLString (CARURL.URL u)) (DealSize b)
      | None \<Rightarrow> Inl (New ''not implemented''))"

section \<open>One attempt\<close>

definition report_to :: "report list \<Rightarrow> 'd Store \<Rightarrow> 'd Store" where
  "report_to rs s = s\<lparr>reports := reports s @ rs\<rparr>"

text \<open>\<open>p\<close> is the address of the bid.\<close>

definition set_bid :: "nat \<Rightarrow> Bid \<Rightarrow> 'd Store \<Rightarrow> 'd Store" where
  "set_bid p b s = s\<lparr>heap := (heap s)(p := b)\<rparr>"

definition fail :: "nat \<Rightarrow> go_error \<Rightarrow> bool \<Rightarrow> 'd Store \<Rightarrow> BidStatus \<times> 'd Store" where
  "fail p err immediate s =
     (let b = (heap s p)\<lparr>ErrorCause := Error err\<rparr>; s1 = set_bid p b s in
      if immediate \<or> DataURIFetchAttempts b \<ge> dealDataFetchAttempts s then
        (Errored, report_to [ReportErrored (ID b) (ErrorCause b)]
           (s1\<lparr>bytesLimiter := lim_Withdraw (AuctionID b) (bytesLimiter s)\<rparr>))
      else (QueuedData, s1))"

text \<open>The first half of \<open>fetchOne\<close>, up to the semaphore: it stops with a status or has a file.\<close>

definition fetchData ::
  "'z libs_scheme \<Rightarrow> io \<Rightarrow> nat \<Rightarrow> 'd Store \<Rightarrow> (BidStatus + string) \<times> 'd Store" where
  "fetchData L w p s =
     (let b = heap s p in
      if (case GetChainHeight w of Inr chainHeight \<Rightarrow> StartEpoch b < chainHeight | Inl e \<Rightarrow> False)
      then apfst Inl (fail p (New ''deal is expired'') True s)
      else
        let s1 = report_to [StartFetching (ID b) (DataURIFetchAttempts b)] s in
        case WriteDealData L w s1 b of
          Inl err \<Rightarrow> apfst Inl
            (fail p err False (report_to [ErrorFetching (ID b) (DataURIFetchAttempts b) err] s1))
        | Inr file \<Rightarrow> (Inr file, report_to [StartImporting (ID b) (DataURIFetchAttempts b)] s1))"

text \<open>\<open>None\<close>: the caller blocks.\<close>

definition acquire :: "'d Store \<Rightarrow> 'd Store option" where
  "acquire s = (case semImports s of
      None \<Rightarrow> Some s
    | Some (cap, cur) \<Rightarrow> if cur < cap then Some (s\<lparr>semImports := Some (cap, Suc cur)\<rparr>) else None)"

definition release :: "'d Store \<Rightarrow> 'd Store" where
  "release s = (case semImports s of
      None \<Rightarrow> s
    | Some (cap, cur) \<Rightarrow> s\<lparr>semImports := Some (cap, cur - 1)\<rparr>)"

text \<open>The second half, from the import on.\<close>

definition importData ::
  "io \<Rightarrow> go_time \<Rightarrow> nat \<Rightarrow> string \<Rightarrow> 'd Store \<Rightarrow> BidStatus \<times> 'd Store" where
  "importData w now p file s =
     (let b = heap s p;
          err = ImportData w (ProposalCid b) file;
          s1 = report_to [EndImporting (ID b) (DataURIFetchAttempts b) err] (release s) in
      case err of
        Some e \<Rightarrow> fail p e False s1
      | None \<Rightarrow> (Finalized, set_bid p (b\<lparr>ErrorCause := ''''\<rparr>)
          (report_to [ReportFinalized (ID b)]
            (s1\<lparr>bytesLimiter := lim_Commit now (AuctionID b) (bytesLimiter s1)\<rparr>))))"

definition fetchOne ::
  "'z libs_scheme \<Rightarrow> io \<Rightarrow> go_time \<Rightarrow> nat \<Rightarrow> 'd Store \<Rightarrow> (BidStatus \<times> 'd Store) option" where
  "fetchOne L w now p s =
     (case fetchData L w p s of
        (Inl status, s1) \<Rightarrow> Some (status, s1)
      | (Inr file, s1) \<Rightarrow> map_option (importData w now p file) (acquire s1))"

section \<open>The worker\<close>

text \<open>Receiving a job counts the attempt; a cancelled store drops it.\<close>

definition recvJob :: "'d Store \<Rightarrow> (nat option \<times> 'd Store) option" where
  "recvJob s =
     (case jobCh s of
        [] \<Rightarrow> None
      | p # ps \<Rightarrow>
          if ctxDone s then Some (None, s\<lparr>jobCh := ps\<rparr>)
          else Some (Some p, set_bid p ((heap s p)\<lparr>DataURIFetchAttempts :=
                 DataURIFetchAttempts (heap s p) + 1\<rparr>) (s\<lparr>jobCh := ps\<rparr>)))"

definition sendTick :: "'d Store \<Rightarrow> 'd Store" where
  "sendTick s = (if tickCh s < chanCap s then s\<lparr>tickCh := Suc (tickCh s)\<rparr> else s)"

definition endJob ::
  "('d, 't, 'v) backend \<Rightarrow> go_time \<Rightarrow> nat \<Rightarrow> BidStatus \<Rightarrow> 'd Store \<Rightarrow> 'd Store" where
  "endJob B now p status s =
     (case saveAndTransitionStatus B now (db s) (heap s p) status of
        (_, d, b) \<Rightarrow> sendTick (set_bid p b (s\<lparr>db := d\<rparr>)))"

definition fetchWorker ::
  "('d, 't, 'v) backend \<Rightarrow> 'z libs_scheme \<Rightarrow> io \<Rightarrow> go_time \<Rightarrow> go_time \<Rightarrow> 'd Store \<Rightarrow> 'd Store option" where
  "fetchWorker B L w now now' s =
     (case recvJob s of
        None \<Rightarrow> None
      | Some (None, s1) \<Rightarrow> Some s1
      | Some (Some p, s1) \<Rightarrow>
          map_option (\<lambda>(status, s2). endJob B now' p status s2) (fetchOne L w now p s1))"

section \<open>The queue\<close>

definition key_Base :: "key \<Rightarrow> string" where
  "key_Base k = (if k = [] then ''/'' else last k)"

definition index_query :: "key \<Rightarrow> nat \<Rightarrow> Query" where
  "index_query p limit = \<lparr>Prefix = p, Filters = [], Orders = [OrderByKey], Limit = limit, Offset = 0,
     KeysOnly = True, SeekPrefix = None\<rparr>"

definition getQueued :: "('d, 't, 'v) backend \<Rightarrow> 't \<Rightarrow> go_error + Bid option" where
  "getQueued B t =
     (case TxnQuery B t (index_query dsQueuedPrefix 1) of
        Inl e \<Rightarrow> Inl (Wrapv ''querying queued'' e)
      | Inr [] \<Rightarrow> Inr None
      | Inr (Inl e # _) \<Rightarrow> Inl (Wrapv ''getting next result'' e)
      | Inr (Inr (k, _) # _) \<Rightarrow>
          (case getBid B (TxnGet B t) (key_Base k) of
             Inl e \<Rightarrow> Inl (Wrapv ''getting bid'' e)
           | Inr b \<Rightarrow> Inr (Some b)))"

text \<open>Its errors are logged; the transaction is committed after a failed enqueue as well.\<close>

definition getNext :: "('d, 't, 'v) backend \<Rightarrow> go_time \<Rightarrow> go_time \<Rightarrow> 'd Store \<Rightarrow> 'd Store" where
  "getNext B now now' s =
     (case NewTransaction B (db s) of
        Inl e \<Rightarrow> s
      | Inr t \<Rightarrow>
          (case getQueued B t of
             Inl e \<Rightarrow> s
           | Inr None \<Rightarrow> s
           | Inr (Some b) \<Rightarrow>
               (case alloc b s of (p, s1) \<Rightarrow>
                 (case enqueueDataURI B now now' t p s1 of
                    (_, t1, s2) \<Rightarrow> snd (commitStore B t1 s2)))))"

section \<open>Orphaned jobs\<close>

fun collectBids ::
  "('d, 't, 'v) backend \<Rightarrow> 't \<Rightarrow> (go_error + key \<times> 'v) list \<Rightarrow> go_error + Bid list" where
  "collectBids B t [] = Inr []"
| "collectBids B t (Inl e # rs) = Inl (Wrapv ''getting next result'' e)"
| "collectBids B t (Inr (k, v) # rs) =
     (case getBid B (TxnGet B t) (key_Base k) of
        Inl e \<Rightarrow> Inl (Wrapv ''getting bid'' e)
      | Inr b \<Rightarrow> (case collectBids B t rs of Inl e \<Rightarrow> Inl e | Inr bs \<Rightarrow> Inr (b # bs)))"

definition getFetching :: "('d, 't, 'v) backend \<Rightarrow> 't \<Rightarrow> go_error + Bid list" where
  "getFetching B t =
     (case TxnQuery B t (index_query dsFetchingPrefix 0) of
        Inl e \<Rightarrow> Inl (Wrapv ''querying queued'' e)
      | Inr rs \<Rightarrow> collectBids B t rs)"

text \<open>
  The loop of \<open>getOrphaned\<close>. The module is for Go 1.17, where the range variable is one variable
  for the whole loop, so every iteration passes the same address.
\<close>

fun enqueueOrphans ::
  "('d, 't, 'v) backend \<Rightarrow> go_time \<Rightarrow> go_time \<Rightarrow> nat \<Rightarrow> Bid list \<Rightarrow> 't \<Rightarrow> 'd Store \<Rightarrow>
     go_error option \<times> 't \<times> 'd Store" where
  "enqueueOrphans B now now' p [] t s = (None, t, s)"
| "enqueueOrphans B now now' p (b # bs) t s =
     (case enqueueDataURI B now now' t p (set_bid p b s) of
        (Some e, t1, s1) \<Rightarrow> (Some (Wrapv ''enqueueing'' e), t1, s1)
      | (None, t1, s1) \<Rightarrow> enqueueOrphans B now now' p bs t1 s1)"

definition getOrphaned ::
  "('d, 't, 'v) backend \<Rightarrow> go_time \<Rightarrow> go_time \<Rightarrow> 'd Store \<Rightarrow> go_error option \<times> 'd Store" where
  "getOrphaned B now now' s =
     (case NewTransaction B (db s) of
        Inl e \<Rightarrow> (Some (Wrapv ''creating txn'' e), s)
      | Inr t \<Rightarrow>
          (case getFetching B t of
             Inl e \<Rightarrow> (Some (Wrapv ''getting next in queued'' e), s)
           | Inr bids \<Rightarrow>
               if bids = [] then (None, s)
               else (case alloc (hd bids) s of (p, s1) \<Rightarrow>
                 (case enqueueOrphans B now now' p bids t s1 of
                    (Some e, t1, s2) \<Rightarrow> (Some e, s2)
                  | (None, t1, s2) \<Rightarrow> commitStore B t1 s2))))"

section \<open>Starting the store\<close>

definition HealthCheck :: "io \<Rightarrow> 'd Store \<Rightarrow> go_error option" where
  "HealthCheck w s =
     (case TempFile w (dealDataDirectory s) of
        Some e \<Rightarrow> Some (Wrapv ''deal data directory'' e)
      | None \<Rightarrow> map_option (Wrapv ''lotus client'') (lc_HealthCheck w))"

text \<open>The heap's contents before the first bid is allocated do not matter.\<close>

definition NewStore ::
  "('d, 't, 'v) backend \<Rightarrow> io \<Rightarrow> go_time \<Rightarrow> go_time \<Rightarrow> 'd \<Rightarrow> string \<Rightarrow> u32 \<Rightarrow> duration \<Rightarrow> Limiter \<Rightarrow>
     int \<Rightarrow> bool \<Rightarrow> nat \<Rightarrow> (nat \<Rightarrow> Bid) \<Rightarrow> go_error + 'd Store" where
  "NewStore B w now now' store dir attempts timeout lim concurrentImports chunked concurrentDownloads h =
     (let s = \<lparr>db = store, bytesLimiter = lim, jobCh = [], tickCh = 0, chanCap = concurrentDownloads,
               dealDataDirectory = dir, dealDataFetchAttempts = attempts, dealDataFetchTimeout = timeout,
               chunkedDownload = chunked,
               semImports = (if concurrentImports > 0 then Some (nat concurrentImports, 0) else None),
               ctxDone = False, heap = h, nextAddr = 0, reports = []\<rparr> in
      case HealthCheck w s of
        Some e \<Rightarrow> Inl (Wrapw ''fails health check'' e)
      | None \<Rightarrow>
          (case getOrphaned B now now' s of
             (Some e, s1) \<Rightarrow> Inl (Wrapw ''getting orphaned jobs'' e)
           | (None, s1) \<Rightarrow> Inr s1))"

definition Close :: "'d Store \<Rightarrow> 'd Store" where
  "Close s = s\<lparr>ctxDone := True\<rparr>"

section \<open>Index queries\<close>

lemma append_le_same: "(xs @ ys :: string) \<le> xs @ zs \<longleftrightarrow> ys \<le> zs"
  by (induction xs) simp_all

lemma key_Base_ChildString [simp]: "key_Base (ChildString p i) = i"
  by (simp add: key_Base_def ChildString_def)

lemma index_query_plain [simp]:
  "plain_query (index_query p n)" "SeekPrefix (index_query p n) = None"
  "Prefix (index_query p n) = p" "Limit (index_query p n) = n" "Orders (index_query p n) = [OrderByKey]"
  by (simp_all add: plain_query_def index_query_def)

lemma take_limit_map: "map f (take_limit n xs) = take_limit n (map f xs)"
  by (simp add: take_limit_def take_map)

text \<open>An index query answers the ids of the bids with that status, in order.\<close>

lemma index_ids:
  assumes "indexed view m p st" "answers view (index_query p n) es"
  obtains ids where "map fst es = map (ChildString p) (take_limit n ids)" "sorted ids" "distinct ids"
    "set ids = {i. \<exists>b. m i = Some b \<and> Status b = st}"
proof -
  obtain full where full: "es = take_limit n full" "distinct (map fst full)"
    "set full = {(k, v). view k = Some v \<and> below p k}"
    "sorted_wrt (key_order [OrderByKey]) (map (key_string \<circ> fst) full)"
    using assms(2) by (auto simp: answers_def seek_ok_def)
  let ?ids = "map (key_Base \<circ> fst) full"
  have child: "fst e = ChildString p (key_Base (fst e))" if "e \<in> set full" for e
    using that full(3) assms(1) by (force simp: indexed_def flat_def)
  then have keys: "map fst full = map (ChildString p) ?ids" by simp
  have "distinct ?ids" using full(2) keys by (metis distinct_map)
  moreover have eq: "map (key_string \<circ> fst) full = map (\<lambda>i. key_string p @ ''/'' @ i) ?ids"
  proof -
    have "map (key_string \<circ> fst) full = map key_string (map fst full)" by simp
    also have "\<dots> = map (\<lambda>i. key_string p @ ''/'' @ i) ?ids"
      unfolding keys by (simp add: key_string_ChildString comp_def)
    finally show ?thesis .
  qed
  have "sorted_wrt (\<le>) (map (\<lambda>i. key_string p @ ''/'' @ i) ?ids)"
    using full(4) unfolding eq by (simp add: key_order_cases del: map_map)
  then have "sorted ?ids" by (simp add: sorted_wrt_map append_le_same)
  moreover have "set ?ids = {i. \<exists>b. m i = Some b \<and> Status b = st}"
  proof -
    have "i \<in> set ?ids \<longleftrightarrow> view (ChildString p i) \<noteq> None" for i
    proof
      assume "i \<in> set ?ids"
      then obtain e where "e \<in> set full" "i = key_Base (fst e)" by auto
      with child [of e] full(3) show "view (ChildString p i) \<noteq> None" by force
    next
      assume "view (ChildString p i) \<noteq> None"
      then obtain v where "(ChildString p i, v) \<in> set full" using full(3) by auto
      then show "i \<in> set ?ids" by force
    qed
    with assms(1) show ?thesis by (auto simp: indexed_def index_at_def)
  qed
  moreover have "map fst es = map (ChildString p) (take_limit n ?ids)"
    unfolding full(1) take_limit_map keys ..
  ultimately show thesis using that by blast
qed

text \<open>The queued bid with the least id; ids are ULIDs, so it is the oldest.\<close>

definition least_queued :: "(string \<rightharpoonup> Bid) \<Rightarrow> string \<Rightarrow> bool" where
  "least_queued m i \<longleftrightarrow> i \<in> with_status m QueuedData \<and> (\<forall>j \<in> with_status m QueuedData. i \<le> j)"

lemma sorted_least: "sorted (i # ids) \<Longrightarrow> j \<in> set (i # ids) \<Longrightarrow> i \<le> j"
  by auto

context reliable_backend
begin

lemma index_results:
  assumes "represents (Decode B) (vt t) m" "indexed (vt t) m p st"
  obtains ids es where "TxnQuery B t (index_query p n) = Inr (map Inr es)"
    "map fst es = map (ChildString p) (take_limit n ids)" "sorted ids" "distinct ids"
    "set ids = with_status m st"
proof -
  obtain es where es: "TxnQuery B t (index_query p n) = Inr (map Inr es)" using query_reliable by blast
  have "answers (vt t) (index_query p n) es" by (rule query_law [OF _ _ es]) simp_all
  from index_ids [OF assms(2) this] es that show thesis by (metis with_status_def)
qed

lemma getQueued_total:
  assumes "represents (Decode B) (vt t) m"
  shows "\<exists>r. getQueued B t = Inr r \<and>
    (case r of None \<Rightarrow> with_status m QueuedData = {}
             | Some b \<Rightarrow> m (ID b) = Some b \<and> least_queued m (ID b))"
proof -
  have "indexed (vt t) m dsQueuedPrefix QueuedData" using assms by (simp add: represents_def)
  from index_results [OF assms this, of 1] obtain ids es where
    q: "TxnQuery B t (index_query dsQueuedPrefix 1) = Inr (map Inr es)" and
    ids: "map fst es = map (ChildString dsQueuedPrefix) (take_limit 1 ids)" "sorted ids"
      "set ids = with_status m QueuedData" by metis
  show ?thesis
  proof (cases ids)
    case Nil
    then show ?thesis using q ids by (simp add: getQueued_def take_limit_def)
  next
    case (Cons i rest)
    then have "map fst es = [ChildString dsQueuedPrefix i]" using ids(1) by (simp add: take_limit_def)
    then obtain v where es: "es = [(ChildString dsQueuedPrefix i, v)]" by auto
    have i: "i \<in> with_status m QueuedData" using ids(3) Cons by auto
    then obtain b where b: "m i = Some b" by (auto simp: with_status_def)
    have "\<forall>j \<in> with_status m QueuedData. i \<le> j"
      using sorted_least [of i rest] ids(2,3) Cons by auto
    with i have "least_queued m i" by (simp add: least_queued_def)
    then show ?thesis
      using q es b getBid_reliable [OF assms, of i] represents_get [OF assms b]
      by (simp add: getQueued_def)
  qed
qed

lemma getNext_total:
  assumes "represents (Decode B) (vd (db s)) m"
  obtains "with_status m QueuedData = {}" "getNext B now now' s = s"
  | b d where "m (ID b) = Some b" "least_queued m (ID b)"
    "getNext B now now' s = (enqueued now now' b s)\<lparr>db := d\<rparr>"
    "represents (Decode B) (vd d) (m(ID b \<mapsto> queued_or_fetching now now' (has_room s) b))"
proof -
  obtain t where t: "NewTransaction B (db s) = Inr t" "vt t = vd (db s)" by (rule txn_total)
  then have rep: "represents (Decode B) (vt t) m" using assms by simp
  obtain r where r: "getQueued B t = Inr r" and spec: "case r of None \<Rightarrow> with_status m QueuedData = {}
     | Some b \<Rightarrow> m (ID b) = Some b \<and> least_queued m (ID b)" using getQueued_total [OF rep] by blast
  show thesis
  proof (cases r)
    case None
    then show thesis using spec r t that(1) by (simp add: getNext_def)
  next
    case (Some b)
    obtain p s1 where al: "alloc b s = (p, s1)" by fastforce
    have m: "m (ID b) = Some b" "least_queued m (ID b)" using spec Some by auto
    then have "consistent m b FetchingData" by (intro consistent_same) auto
    from enqueue_commit [OF rep this al, of now now'] obtain t1 s2 d where
      "enqueueDataURI B now now' t p s1 = (None, t1, s2)"
      "commitStore B t1 s2 = (None, (enqueued now now' b s)\<lparr>db := d\<rparr>)"
      "represents (Decode B) (vd d) (m(ID b \<mapsto> queued_or_fetching now now' (has_room s) b))" .
    with t r Some al m that(2) [OF m] show thesis by (simp add: getNext_def)
  qed
qed

end

section \<open>The outcome of an attempt\<close>

definition deal_expired :: "io \<Rightarrow> Bid \<Rightarrow> bool" where
  "deal_expired w b \<longleftrightarrow> (\<exists>h. GetChainHeight w = Inr h \<and> StartEpoch b < h)"

definition attempt_error :: "'z libs_scheme \<Rightarrow> io \<Rightarrow> 'd Store \<Rightarrow> Bid \<Rightarrow> go_error option" where
  "attempt_error L w s b =
     (if deal_expired w b then Some (New ''deal is expired'')
      else case WriteDealData L w s b of
        Inl e \<Rightarrow> Some e
      | Inr file \<Rightarrow> ImportData w (ProposalCid b) file)"

definition attempt_status :: "'z libs_scheme \<Rightarrow> io \<Rightarrow> 'd Store \<Rightarrow> Bid \<Rightarrow> BidStatus" where
  "attempt_status L w s b =
     (if attempt_error L w s b = None then Finalized
      else if deal_expired w b \<or> dealDataFetchAttempts s \<le> DataURIFetchAttempts b then Errored
      else QueuedData)"

definition attempt_bid :: "'z libs_scheme \<Rightarrow> io \<Rightarrow> 'd Store \<Rightarrow> Bid \<Rightarrow> Bid" where
  "attempt_bid L w s b = b\<lparr>ErrorCause := (case attempt_error L w s b of None \<Rightarrow> '''' | Some e \<Rightarrow> Error e)\<rparr>"

text \<open>What is reported of an attempt, in order.\<close>

definition attempt_reports :: "'z libs_scheme \<Rightarrow> io \<Rightarrow> 'd Store \<Rightarrow> Bid \<Rightarrow> report list" where
  "attempt_reports L w s b =
     (let i = ID b; n = DataURIFetchAttempts b;
          final = (case attempt_status L w s b of
              Finalized \<Rightarrow> [ReportFinalized i]
            | Errored \<Rightarrow> [ReportErrored i (ErrorCause (attempt_bid L w s b))]
            | _ \<Rightarrow> [])
      in (if deal_expired w b then []
          else StartFetching i n # (case WriteDealData L w s b of
              Inl e \<Rightarrow> [ErrorFetching i n e]
            | Inr file \<Rightarrow> [StartImporting i n, EndImporting i n (ImportData w (ProposalCid b) file)])) @ final)"

lemma WriteDealData_report [simp]: "WriteDealData L w (report_to rs s) b = WriteDealData L w s b"
  by (simp add: WriteDealData_def WriteDataURI_def dealDataFilePathFor_def report_to_def split: option.split)

lemma store_updates [simp]:
  "heap (set_bid p b s) = (heap s)(p := b)" "bytesLimiter (set_bid p b s) = bytesLimiter s"
  "dealDataFetchAttempts (set_bid p b s) = dealDataFetchAttempts s" "reports (set_bid p b s) = reports s"
  "semImports (set_bid p b s) = semImports s" "db (set_bid p b s) = db s" "jobCh (set_bid p b s) = jobCh s"
  "tickCh (set_bid p b s) = tickCh s" "chanCap (set_bid p b s) = chanCap s"
  "nextAddr (set_bid p b s) = nextAddr s" "ctxDone (set_bid p b s) = ctxDone s"
  "heap (report_to rs s) = heap s" "bytesLimiter (report_to rs s) = bytesLimiter s"
  "dealDataFetchAttempts (report_to rs s) = dealDataFetchAttempts s"
  "reports (report_to rs s) = reports s @ rs" "semImports (report_to rs s) = semImports s"
  "db (report_to rs s) = db s" "jobCh (report_to rs s) = jobCh s" "tickCh (report_to rs s) = tickCh s"
  "chanCap (report_to rs s) = chanCap s" "nextAddr (report_to rs s) = nextAddr s"
  "ctxDone (report_to rs s) = ctxDone s"
  by (simp_all add: set_bid_def report_to_def)

text \<open>The parts of the store an attempt does not change.\<close>

definition same_rest :: "'d Store \<Rightarrow> 'd Store \<Rightarrow> bool" where
  "same_rest s s' \<longleftrightarrow> db s' = db s \<and> jobCh s' = jobCh s \<and> tickCh s' = tickCh s \<and> chanCap s' = chanCap s \<and>
     nextAddr s' = nextAddr s \<and> dealDataFetchAttempts s' = dealDataFetchAttempts s \<and> ctxDone s' = ctxDone s"

lemma release_simps [simp]:
  "heap (release s) = heap s" "bytesLimiter (release s) = bytesLimiter s" "db (release s) = db s"
  "dealDataFetchAttempts (release s) = dealDataFetchAttempts s" "reports (release s) = reports s"
  "jobCh (release s) = jobCh s" "tickCh (release s) = tickCh s" "chanCap (release s) = chanCap s"
  "nextAddr (release s) = nextAddr s" "ctxDone (release s) = ctxDone s"
  by (simp_all add: release_def split: option.splits prod.splits)

lemma acquire_release:
  assumes "acquire s = Some s1"
  shows "semImports (release s1) = semImports s" "semImports s1 = semImports s \<Longrightarrow> s1 = s"
    "same_rest s s1" "heap s1 = heap s" "bytesLimiter s1 = bytesLimiter s" "reports s1 = reports s"
    "WriteDealData L w s1 b = WriteDealData L w s b"
  using assms by (auto simp: acquire_def release_def same_rest_def WriteDealData_def WriteDataURI_def
      dealDataFilePathFor_def split: option.splits prod.splits if_splits)

text \<open>Settling the tokens of the auction of a bid with a terminal status.\<close>

definition settled :: "BidStatus \<Rightarrow> string \<Rightarrow> (string \<Rightarrow> nat) \<Rightarrow> string \<Rightarrow> nat" where
  "settled st k h = (if st = Finalized \<or> st = Errored then h(k := 0) else h)"

lemma fail_outcome:
  assumes "fail p e imm s = (st, s')"
  shows "st = (if imm \<or> dealDataFetchAttempts s \<le> DataURIFetchAttempts (heap s p) then Errored else QueuedData)"
    "heap s' = (heap s)(p := (heap s p)\<lparr>ErrorCause := Error e\<rparr>)" "same_rest s s'"
    "reports s' = reports s @ (if st = Errored then [ReportErrored (ID (heap s p)) (Error e)] else [])"
    "lim_held (bytesLimiter s') = settled st (AuctionID (heap s p)) (lim_held (bytesLimiter s))"
    "semImports s' = semImports s"
  using assms by (auto simp: fail_def Let_def same_rest_def settled_def limiter.withdraw_holds
      set_bid_def report_to_def split: if_splits)

lemma fetchOne_outcome:
  assumes "fetchOne L w now p s = Some (st, s')"
  shows "st = attempt_status L w s (heap s p)"
    "heap s' = (heap s)(p := attempt_bid L w s (heap s p))" "same_rest s s'"
    "reports s' = reports s @ attempt_reports L w s (heap s p)"
    "lim_held (bytesLimiter s') = settled st (AuctionID (heap s p)) (lim_held (bytesLimiter s))"
    "semImports s' = semImports s"
proof -
  let ?b = "heap s p"
  let ?goal = "st = attempt_status L w s ?b \<and> heap s' = (heap s)(p := attempt_bid L w s ?b) \<and>
    same_rest s s' \<and> reports s' = reports s @ attempt_reports L w s ?b \<and>
    lim_held (bytesLimiter s') = settled st (AuctionID ?b) (lim_held (bytesLimiter s)) \<and>
    semImports s' = semImports s"
  have exp: "(case GetChainHeight w of Inr h \<Rightarrow> StartEpoch ?b < h | Inl e \<Rightarrow> False) = deal_expired w ?b"
    by (simp add: deal_expired_def split: sum.split)
  note spec = attempt_status_def attempt_bid_def attempt_reports_def attempt_error_def
  let ?s1 = "report_to [StartFetching (ID ?b) (DataURIFetchAttempts ?b)] s"
  have ?goal
  proof (cases "deal_expired w ?b")
    case True
    then have "fail p (New ''deal is expired'') True s = (st, s')"
      using assms exp by (auto simp: fetchOne_def fetchData_def Let_def apfst_def map_prod_def
          split: prod.splits)
    from fail_outcome [OF this] True show ?thesis by (simp add: spec)
  next
    case live: False
    show ?thesis
    proof (cases "WriteDealData L w s ?b")
      case (Inl e)
      then have "fail p e False (report_to [ErrorFetching (ID ?b) (DataURIFetchAttempts ?b) e] ?s1) = (st, s')"
        using assms exp live by (auto simp: fetchOne_def fetchData_def Let_def apfst_def map_prod_def
            split: prod.splits)
      from fail_outcome [OF this] Inl live show ?thesis
        by (cases "dealDataFetchAttempts s \<le> DataURIFetchAttempts ?b")
           (auto simp: spec same_rest_def Let_def)
    next
      case (Inr path)
      let ?s2 = "report_to [StartImporting (ID ?b) (DataURIFetchAttempts ?b)] ?s1"
      obtain s3 where s3: "acquire ?s2 = Some s3" "importData w now p path s3 = (st, s')"
        using assms exp live Inr by (auto simp: fetchOne_def fetchData_def Let_def)
      note a = acquire_release [OF s3(1)]
      show ?thesis
      proof (cases "ImportData w (ProposalCid ?b) path")
        case None
        then show ?thesis using s3(2) a live Inr
          by (auto simp: importData_def Let_def spec same_rest_def settled_def limiter.commit_holds
              set_bid_def report_to_def)
      next
        case (Some e)
        then have "fail p e False (report_to [EndImporting (ID ?b) (DataURIFetchAttempts ?b) (Some e)]
            (release s3)) = (st, s')"
          using s3(2) a by (simp add: importData_def Let_def)
        from fail_outcome [OF this] a Inr live Some show ?thesis
          by (cases "dealDataFetchAttempts s \<le> DataURIFetchAttempts ?b")
             (auto simp: spec same_rest_def Let_def)
      qed
    qed
  qed
  then show "st = attempt_status L w s ?b" "heap s' = (heap s)(p := attempt_bid L w s ?b)"
    "same_rest s s'" "reports s' = reports s @ attempt_reports L w s ?b"
    "lim_held (bytesLimiter s') = settled st (AuctionID ?b) (lim_held (bytesLimiter s))"
    "semImports s' = semImports s" by simp_all
qed

section \<open>Restarting\<close>

lemma with_status_map: "with_status m st = {i. map_option Status (m i) = Some st}"
  by (auto simp: with_status_def)

lemma with_status_cong:
  "(\<And>i. map_option Status (m' i) = map_option Status (m i)) \<Longrightarrow> with_status m' st = with_status m st"
  by (simp add: with_status_map)

context reliable_backend
begin

lemma collectBids_total:
  assumes "represents (Decode B) (vt t) m" "map fst es = map (ChildString p) ids"
    "\<forall>i \<in> set ids. m i \<noteq> None"
  shows "collectBids B t (map Inr es) = Inr (map (the \<circ> m) ids)"
  using assms(2,3)
proof (induction es arbitrary: ids)
  case (Cons e es)
  then obtain i ids' where "ids = i # ids'" "fst e = ChildString p i" by auto
  with Cons getBid_reliable [OF assms(1), of i] show ?case by (cases e) auto
qed simp

lemma getFetching_total:
  assumes "represents (Decode B) (vt t) m"
  obtains bids where "getFetching B t = Inr bids" "set (map ID bids) = with_status m FetchingData"
    "distinct (map ID bids)" "\<forall>b \<in> set bids. m (ID b) = Some b \<and> Status b = FetchingData"
proof -
  have "indexed (vt t) m dsFetchingPrefix FetchingData" using assms by (simp add: represents_def)
  from index_results [OF assms this, of 0] obtain ids es where
    q: "TxnQuery B t (index_query dsFetchingPrefix 0) = Inr (map Inr es)" and
    es: "map fst es = map (ChildString dsFetchingPrefix) (take_limit 0 ids)" and
    ids: "distinct ids" "set ids = with_status m FetchingData" .
  then have es: "map fst es = map (ChildString dsFetchingPrefix) ids" by (simp add: take_limit_def)
  let ?bids = "map (the \<circ> m) ids"
  have b: "\<exists>b. m i = Some b \<and> ID b = i \<and> Status b = FetchingData" if "i \<in> set ids" for i
    using that ids(2) represents_get [OF assms] by (auto simp: with_status_def)
  then have "collectBids B t (map Inr es) = Inr ?bids"
    by (intro collectBids_total [OF assms es]) auto
  moreover have ID: "map ID ?bids = ids"
    unfolding map_map by (rule map_idI) (use b in fastforce)
  moreover have "\<forall>b \<in> set ?bids. m (ID b) = Some b \<and> Status b = FetchingData" using b by fastforce
  ultimately show thesis using that [of ?bids] q ids by (simp add: getFetching_def)
qed

lemma enqueueOrphans_room:
  assumes "represents (Decode B) (vt t) m" "distinct (map ID bids)"
    "\<forall>b \<in> set bids. m (ID b) = Some b \<and> Status b = FetchingData"
    "length (jobCh s) + length bids \<le> chanCap s"
  shows "\<exists>t' h m'. enqueueOrphans B now now' p bids t s =
      (None, t', s\<lparr>heap := h, jobCh := jobCh s @ replicate (length bids) p\<rparr>) \<and>
    h p = (if bids = [] then heap s p else saved now FetchingData (last bids)) \<and>
    represents (Decode B) (vt t') m' \<and> (\<forall>i. map_option Status (m' i) = map_option Status (m i))"
  using assms
proof (induction bids arbitrary: s t m)
  case Nil
  then show ?case by (intro exI [of _ t] exI [of _ "heap s"] exI [of _ m]) simp
next
  case (Cons b bids)
  have b: "m (ID b) = Some b" "Status b = FetchingData" using Cons.prems(3) by auto
  have "consistent m b FetchingData" using b by (intro consistent_same) auto
  from saveTxn_total [OF Cons.prems(1) this, of now] obtain t1 where
    t1: "saveTxn B now t b FetchingData = (None, t1, saved now FetchingData b)"
      "represents (Decode B) (vt t1) (m(ID b \<mapsto> saved now FetchingData b))" .
  let ?h = "(heap s)(p := saved now FetchingData b)" and ?m = "m(ID b \<mapsto> saved now FetchingData b)"
  let ?s = "s\<lparr>heap := ?h, jobCh := jobCh s @ [p]\<rparr>"
  have "enqueueDataURI B now now' t p (set_bid p b s) = (None, t1, ?s)"
    using t1 Cons.prems(4) by (simp add: enqueueDataURI_def set_bid_def)
  then have step: "enqueueOrphans B now now' p (b # bids) t s = enqueueOrphans B now now' p bids t1 ?s"
    by simp
  have "\<forall>c \<in> set bids. ?m (ID c) = Some c \<and> Status c = FetchingData"
  proof
    fix c assume c: "c \<in> set bids"
    with Cons.prems(2) have "ID c \<noteq> ID b" by (metis distinct.simps(2) imageI list.simps(9) set_map)
    with Cons.prems(3) c show "?m (ID c) = Some c \<and> Status c = FetchingData" by simp
  qed
  moreover have "length (jobCh ?s) + length bids \<le> chanCap ?s" "distinct (map ID bids)"
    using Cons.prems(2,4) by simp_all
  ultimately obtain t' h m' where
    r: "enqueueOrphans B now now' p bids t1 ?s =
      (None, t', ?s\<lparr>heap := h, jobCh := jobCh ?s @ replicate (length bids) p\<rparr>)"
      "h p = (if bids = [] then heap ?s p else saved now FetchingData (last bids))"
      "represents (Decode B) (vt t') m'" "\<forall>i. map_option Status (m' i) = map_option Status (?m i)"
    using Cons.IH [OF t1(2), of ?s] by blast
  have "\<forall>i. map_option Status (m' i) = map_option Status (m i)" using r(4) b by simp
  then show ?case unfolding step r(1) using r(2,3)
    by (intro exI [of _ t'] exI [of _ h] exI [of _ m']) simp
qed

lemma getOrphaned_none:
  assumes "represents (Decode B) (vd (db s)) m" "with_status m FetchingData = {}"
  shows "getOrphaned B now now' s = (None, s)"
proof -
  obtain t where t: "NewTransaction B (db s) = Inr t" "vt t = vd (db s)" by (rule txn_total)
  then obtain bids where "getFetching B t = Inr bids" "set (map ID bids) = with_status m FetchingData"
    using getFetching_total [of t m] assms(1) by metis
  with t assms(2) show ?thesis by (simp add: getOrphaned_def)
qed

lemma getOrphaned_shares:
  assumes "represents (Decode B) (vd (db s)) m" "jobCh s = []"
    "with_status m FetchingData \<noteq> {}" "card (with_status m FetchingData) \<le> chanCap s"
  shows "\<exists>s' m'. getOrphaned B now now' s = (None, s') \<and>
    jobCh s' = replicate (card (with_status m FetchingData)) (nextAddr s) \<and>
    represents (Decode B) (vd (db s')) m' \<and> with_status m' FetchingData = with_status m FetchingData"
proof -
  obtain t where t: "NewTransaction B (db s) = Inr t" "vt t = vd (db s)" by (rule txn_total)
  then have rep: "represents (Decode B) (vt t) m" using assms(1) by simp
  obtain bids where bids: "getFetching B t = Inr bids"
    "set (map ID bids) = with_status m FetchingData" "distinct (map ID bids)"
    "\<forall>b \<in> set bids. m (ID b) = Some b \<and> Status b = FetchingData" by (rule getFetching_total [OF rep])
  have len: "length bids = card (with_status m FetchingData)"
    using distinct_card [OF bids(3)] bids(2) by simp
  obtain p s1 where al: "alloc (hd bids) s = (p, s1)" by fastforce
  then have s1: "p = nextAddr s" "jobCh s1 = []" "chanCap s1 = chanCap s"
    using assms(2) by (auto simp: alloc_def)
  have "length (jobCh s1) + length bids \<le> chanCap s1" using s1 len assms(4) by simp
  from enqueueOrphans_room [OF rep bids(3,4) this, of now now' p] obtain t' h m' where
    r: "enqueueOrphans B now now' p bids t s1 =
      (None, t', s1\<lparr>heap := h, jobCh := jobCh s1 @ replicate (length bids) p\<rparr>)"
      "represents (Decode B) (vt t') m'" "\<forall>i. map_option Status (m' i) = map_option Status (m i)"
    by blast
  let ?s2 = "s1\<lparr>heap := h, jobCh := jobCh s1 @ replicate (length bids) p\<rparr>"
  from commitStore_total [OF r(2), of ?s2] obtain d where
    com: "commitStore B t' ?s2 = (None, ?s2\<lparr>db := d\<rparr>)" "represents (Decode B) (vd d) m'" .
  have "with_status m' FetchingData = with_status m FetchingData"
    by (rule with_status_cong) (use r(3) in simp)
  moreover have "bids \<noteq> []" using bids(2) assms(3) by auto
  ultimately show ?thesis
    using t bids(1) al r(1) com s1 len
    by (intro exI [of _ "?s2\<lparr>db := d\<rparr>"] exI [of _ m']) (simp add: getOrphaned_def)
qed

end

section \<open>The end of a job\<close>

context bid_backend
begin

lemma endJob_represents:
  assumes "represents (Decode B) (vd (db s)) m" "m (ID (heap s p)) = Some b"
    "Status b = Status (heap s p)"
  shows "\<exists>ok. represents (Decode B) (vd (db (endJob B now p st s)))
      (if ok then m(ID (heap s p) \<mapsto> saved now st (heap s p)) else m) \<and>
    (ok \<longleftrightarrow> fst (saveAndTransitionStatus B now (db s) (heap s p) st) = None)"
proof -
  obtain r d b1 where save: "saveAndTransitionStatus B now (db s) (heap s p) st = (r, d, b1)"
    by (metis prod_cases3)
  have "consistent m (heap s p) st" using assms(2,3) by (rule consistent_same)
  from saveAndTransitionStatus_represents [OF save assms(1) this]
  have "represents (Decode B) (vd d) (if r = None then m(ID (heap s p) \<mapsto> saved now st (heap s p)) else m)"
    by (cases r) auto
  then show ?thesis
    by (intro exI [of _ "r = None"]) (auto simp: endJob_def save sendTick_def split: if_splits)
qed

end

section \<open>Contents for the witnesses\<close>

lemma represents_indexed:
  assumes rep: "represents dec view m" and new: "m (ID b) = None" and v: "dec v = Inr b"
    and p: "p = dsQueuedPrefix \<and> Status b = QueuedData \<or> p = dsFetchingPrefix \<and> Status b = FetchingData"
  shows "represents dec (view(ChildString dsPrefix (ID b) \<mapsto> v, ChildString p (ID b) \<mapsto> x)) (m(ID b \<mapsto> b))"
proof -
  let ?P = "ChildString dsPrefix (ID b)" and ?I = "ChildString p (ID b)"
  have twist: "view(?I \<mapsto> x, ?P \<mapsto> v) = view(?P \<mapsto> v, ?I \<mapsto> x)"
    using p by (intro fun_upd_twist) (auto simp: prefix_defs)
  have st: "stores dec view m" "indexed view m dsQueuedPrefix QueuedData"
    "indexed view m dsFetchingPrefix FetchingData" using rep by (simp_all add: represents_def)
  have "stores dec (view(?P \<mapsto> v)) (m(ID b \<mapsto> b))" using st(1) v by (rule stores_put)
  then have "stores dec (view(?P \<mapsto> v, ?I \<mapsto> x)) (m(ID b \<mapsto> b))" using p by (auto simp: stores_frame)
  moreover have entered: "indexed (view(?P \<mapsto> v, ?I \<mapsto> x)) (m(ID b \<mapsto> b)) q s"
    if q: "indexed view m q s" "q = dsQueuedPrefix \<and> s = QueuedData \<or> q = dsFetchingPrefix \<and> s = FetchingData"
    for q s
  proof (cases "q = p")
    case True
    then have "s = Status b" using p q(2) by (auto simp: prefix_defs)
    with True have "indexed (view(?I \<mapsto> x)) (m(ID b \<mapsto> b)) q s"
      using indexed_transition [OF q(1), of "ID b" False b x] new by simp
    then have "indexed (view(?I \<mapsto> x, ?P \<mapsto> v)) (m(ID b \<mapsto> b)) q s"
      using q(2) by (auto simp: indexed_frame)
    then show ?thesis by (simp only: twist)
  next
    case False
    then have "indexed view (m(ID b \<mapsto> b)) q s"
      using p q new by (intro indexed_same) (auto simp: prefix_defs)
    then show ?thesis using False p q(2) by (auto simp: indexed_frame)
  qed
  ultimately show ?thesis using entered [OF st(2)] entered [OF st(3)] by (simp add: represents_def)
qed

definition two_fetching :: "(key \<times> Bid option) list" where
  "two_fetching =
     [(ChildString dsFetchingPrefix ''b'', None), (ChildString dsPrefix ''b'', Some (sample_bid ''b'' FetchingData)),
      (ChildString dsFetchingPrefix ''a'', None), (ChildString dsPrefix ''a'', Some (sample_bid ''a'' FetchingData))]"

lemma two_fetching_represents:
  "represents (Decode mem_backend) (map_of two_fetching)
     [''a'' \<mapsto> sample_bid ''a'' FetchingData, ''b'' \<mapsto> sample_bid ''b'' FetchingData]"
proof -
  let ?dec = "Decode mem_backend" and ?a = "sample_bid ''a'' FetchingData" and ?b = "sample_bid ''b'' FetchingData"
  have "represents ?dec (Map.empty(ChildString dsPrefix (ID ?a) \<mapsto> Some ?a,
      ChildString dsFetchingPrefix (ID ?a) \<mapsto> None)) (Map.empty(ID ?a \<mapsto> ?a))"
    by (rule represents_indexed) simp_all
  then have a: "represents ?dec [ChildString dsPrefix ''a'' \<mapsto> Some ?a, ChildString dsFetchingPrefix ''a'' \<mapsto> None]
      [''a'' \<mapsto> ?a]" by simp
  have "represents ?dec ([ChildString dsPrefix ''a'' \<mapsto> Some ?a, ChildString dsFetchingPrefix ''a'' \<mapsto> None]
      (ChildString dsPrefix (ID ?b) \<mapsto> Some ?b, ChildString dsFetchingPrefix (ID ?b) \<mapsto> None))
      ([''a'' \<mapsto> ?a](ID ?b \<mapsto> ?b))"
    using a by (rule represents_indexed) simp_all
  then show ?thesis by (simp add: two_fetching_def)
qed

definition one_queued :: "(key \<times> Bid option) list" where
  "one_queued = [(ChildString dsQueuedPrefix ''a'', None), (ChildString dsPrefix ''a'', Some (sample_bid ''a'' QueuedData))]"

lemma one_queued_represents:
  "represents (Decode mem_backend) (map_of one_queued) [''a'' \<mapsto> sample_bid ''a'' QueuedData]"
proof -
  let ?a = "sample_bid ''a'' QueuedData"
  have "represents (Decode mem_backend) (Map.empty(ChildString dsPrefix (ID ?a) \<mapsto> Some ?a,
      ChildString dsQueuedPrefix (ID ?a) \<mapsto> None)) (Map.empty(ID ?a \<mapsto> ?a))"
    by (rule represents_indexed) simp_all
  then show ?thesis by (simp add: one_queued_def)
qed

lemma two_fetching_status:
  "with_status [''a'' \<mapsto> sample_bid ''a'' FetchingData, ''b'' \<mapsto> sample_bid ''b'' FetchingData]
     FetchingData = {''a'', ''b''}"
  by (auto simp: with_status_def)

section \<open>Properties\<close>

text \<open>
  C9: one attempt at a job. It finalizes the bid exactly when the deal has not expired and both the
  download and the import succeed; it gives up when the deal has expired or the attempts are used
  up, and puts the bid back to the queue otherwise. The error text is kept or cleared, the
  progress reports come in order, the tokens of the auction are settled exactly when the status is
  terminal, and the import semaphore is as before.
\<close>

theorem attempt_outcome:
  assumes "fetchOne L w now p s = Some (st, s')"
  shows "st = attempt_status L w s (heap s p) \<and>
    heap s' = (heap s)(p := attempt_bid L w s (heap s p)) \<and>
    reports s' = reports s @ attempt_reports L w s (heap s p) \<and>
    lim_held (bytesLimiter s') = settled st (AuctionID (heap s p)) (lim_held (bytesLimiter s)) \<and>
    semImports s' = semImports s \<and> db s' = db s \<and> jobCh s' = jobCh s"
  using fetchOne_outcome [OF assms] by (simp add: same_rest_def)

definition sample_io :: io where
  "sample_io = \<lparr>GetChainHeight = Inr 1000, got_Init = (\<lambda>_ _. None), got_Start = (\<lambda>_ _. None),
     os_Create = (\<lambda>_. None), file_Seek = (\<lambda>_. None), NewURI = (\<lambda>_ _. None),
     uri_Write = (\<lambda>_ _ _. Some (New ''timeout'')), ImportData = (\<lambda>_ _. None),
     TempFile = (\<lambda>_. None), lc_HealthCheck = None\<rparr>"

definition url_bid :: Bid where
  "url_bid = (sample_bid ''a'' FetchingData)\<lparr>BidSources := \<lparr>Sources.CARURL =
     Some \<lparr>URL = \<lparr>Scheme = ''https'', URLString = ''https://h/a.car''\<rparr>\<rparr>, CARIPFS = None\<rparr>,
     DataURIFetchAttempts := 2\<rparr>"

theorem attempt_outcome_witness:
  "\<exists>s'. fetchOne sample_libs sample_io 9 0 ((sample_store ())\<lparr>heap := (\<lambda>_. url_bid)\<rparr>) = Some (QueuedData, s') \<and>
     ErrorCause (heap s' 0) = ''writing data uri https://h/a.car: timeout''"
proof -
  let ?s = "(sample_store ())\<lparr>heap := (\<lambda>_. url_bid)\<rparr>"
  have err: "attempt_error sample_libs sample_io ?s url_bid =
      Some (Wrapw ''writing data uri https://h/a.car'' (New ''timeout''))"
    by (simp add: attempt_error_def deal_expired_def WriteDealData_def WriteDataURI_def Let_def
        sample_io_def url_bid_def sample_defs)
  obtain r where eq: "fetchOne sample_libs sample_io 9 0 ?s = Some r"
    by (simp add: fetchOne_def fetchData_def Let_def WriteDealData_def WriteDataURI_def
        sample_io_def url_bid_def sample_defs report_to_def apfst_def map_prod_def fail_def)
  from attempt_outcome [of _ _ _ _ _ "fst r" "snd r", unfolded prod.collapse, OF eq] err show ?thesis
    unfolding eq by (intro exI [of _ "snd r"])
      (simp add: attempt_status_def attempt_bid_def deal_expired_def prod_eq_iff sample_io_def
        url_bid_def sample_defs)
qed

text \<open>
  C15: on a backend that does not fail, \<open>getNext\<close> takes the queued bid with the least id, that is
  the oldest: it becomes a job when the channel has room and stays queued otherwise; an empty
  queue changes nothing.
\<close>

theorem next_is_oldest:
  assumes "reliable_backend B vd vt" "represents (Decode B) (vd (db s)) m"
  shows "if with_status m QueuedData = {} then getNext B now now' s = s
    else \<exists>b d. m (ID b) = Some b \<and> least_queued m (ID b) \<and>
      getNext B now now' s = (enqueued now now' b s)\<lparr>db := d\<rparr> \<and>
      represents (Decode B) (vd d) (m(ID b \<mapsto> queued_or_fetching now now' (has_room s) b))"
  by (rule reliable_backend.getNext_total [OF assms, of now now'])
    (auto simp: least_queued_def)

theorem next_is_oldest_witness:
  "getNext mem_backend 5 6 (sample_store (one_bid Submitted)) = sample_store (one_bid Submitted)"
  using next_is_oldest [OF memb.reliable_backend_axioms, of "sample_store (one_bid Submitted)"
      "[''a'' \<mapsto> sample_bid ''a'' Submitted]" 5 6] one_bid_represents [of Submitted]
  by (simp add: with_status_def)

text \<open>
  When a restart finds two or more bids that were being fetched, every job of \<open>getOrphaned\<close> is
  the same pointer. So all workers get the bid the range variable was last, and the other bids stay
  in the state of being fetched with no job.
\<close>

theorem orphans_share_a_pointer:
  assumes "reliable_backend B vd vt" "represents (Decode B) (vd (db s)) m" "jobCh s = []"
    "2 \<le> card (with_status m FetchingData)" "card (with_status m FetchingData) \<le> chanCap s"
  shows "\<exists>s' m' i. getOrphaned B now now' s = (None, s') \<and> set (jobCh s') = {nextAddr s} \<and>
    represents (Decode B) (vd (db s')) m' \<and> i \<in> with_status m' FetchingData \<and>
    i \<notin> ID ` heap s' ` set (jobCh s')"
proof -
  let ?F = "with_status m FetchingData"
  have "?F \<noteq> {}" using assms(4) by auto
  from reliable_backend.getOrphaned_shares [OF assms(1,2,3) this assms(5), of now now'] obtain s' m' where
    s': "getOrphaned B now now' s = (None, s')" "jobCh s' = replicate (card ?F) (nextAddr s)"
      "represents (Decode B) (vd (db s')) m'" "with_status m' FetchingData = ?F" by blast
  have one: "set (jobCh s') = {nextAddr s}"
    unfolding s'(2) by (rule set_replicate) (use assms(4) in simp)
  have "\<not> ?F \<subseteq> {ID (heap s' (nextAddr s))}"
    using assms(4) card_mono [of "{ID (heap s' (nextAddr s))}" ?F] by auto
  then obtain i where "i \<in> ?F" "i \<noteq> ID (heap s' (nextAddr s))" by blast
  with s' one show ?thesis by (intro exI [of _ s'] exI [of _ m'] exI [of _ i]) simp
qed

theorem orphans_share_a_pointer_witness:
  "\<exists>s' i. getOrphaned mem_backend 5 6 ((sample_store two_fetching)\<lparr>chanCap := 2\<rparr>) = (None, s') \<and>
     set (jobCh s') = {0} \<and> i \<notin> ID ` heap s' ` set (jobCh s')"
proof -
  let ?s = "(sample_store two_fetching)\<lparr>chanCap := 2\<rparr>"
  have rep: "represents (Decode mem_backend) (map_of (db ?s))
     [''a'' \<mapsto> sample_bid ''a'' FetchingData, ''b'' \<mapsto> sample_bid ''b'' FetchingData]"
    using two_fetching_represents by simp
  have "card {''a'', ''b''} = (2 :: nat)" by simp
  with orphans_share_a_pointer [OF memb.reliable_backend_axioms rep, unfolded two_fetching_status, of 5 6]
  obtain s' i where "getOrphaned mem_backend 5 6 ?s = (None, s')" "set (jobCh s') = {nextAddr ?s}"
    "i \<notin> ID ` heap s' ` set (jobCh s')" by fastforce
  then show ?thesis by (intro exI [of _ s'] exI [of _ i]) simp
qed

end
