(* ===== verification/Pricing.thy ===== *)
theory Pricing
  imports Go_Prelude
begin

text \<open>
  The pricing rules of \<open>service/pricing\<close>: the rules of one client of the CID gravity API with their
  cache, reload and throttling, the match of an auction against them, and the interface the service
  uses. The HTTP client, the JSON decoder and the text of a time are arguments.
\<close>

section \<open>Rules and prices\<close>

text \<open>The fields of \<open>pb.Auction\<close> that the program reads; \<open>EndsAt\<close> is \<open>None\<close> when it is not valid.\<close>

record pbAuction =
  Id :: string
  PayloadCid :: string
  DealSize :: u64
  DealDuration :: u64
  EndsAt :: "go_time option"
  FilEpochDeadline :: u64
  ClientAddress :: string

record PricingRule =
  Verified :: string
  MinSize :: u64
  MaxSize :: u64
  MinDuration :: u64
  MaxDuration :: u64
  Price :: i64

record rawRules =
  Blocked :: bool
  MaintenanceMode :: bool
  DealRateLimit :: int
  CurrentDealRate :: int
  PricingRules :: "PricingRule list"

record ResolvedPrices =
  AllowBidding :: bool
  UnverifiedPriceValid :: bool
  UnverifiedPrice :: i64
  VerifiedPriceValid :: bool
  VerifiedPrice :: i64

definition noPrices :: ResolvedPrices where
  "noPrices = \<lparr>AllowBidding = False, UnverifiedPriceValid = False, UnverifiedPrice = 0,
     VerifiedPriceValid = False, VerifiedPrice = 0\<rparr>"

definition rule_matches :: "pbAuction \<Rightarrow> PricingRule \<Rightarrow> bool" where
  "rule_matches a r \<longleftrightarrow> DealSize a \<ge> MinSize r \<and> DealSize a \<le> MaxSize r \<and>
     DealDuration a \<ge> MinDuration r \<and> DealDuration a \<le> MaxDuration r"

text \<open>The loop over the rules, with its early return once both prices are set.\<close>

definition apply_rule :: "PricingRule \<Rightarrow> ResolvedPrices \<Rightarrow> ResolvedPrices" where
  "apply_rule r p =
     (if (Verified r = ''true'' \<or> Verified r = ''any'') \<and> \<not> VerifiedPriceValid p
      then p\<lparr>VerifiedPriceValid := True, VerifiedPrice := Price r\<rparr>
      else if (Verified r = ''false'' \<or> Verified r = ''any'') \<and> \<not> UnverifiedPriceValid p
      then p\<lparr>UnverifiedPriceValid := True, UnverifiedPrice := Price r\<rparr>
      else p)"

fun match_rules :: "pbAuction \<Rightarrow> PricingRule list \<Rightarrow> ResolvedPrices \<Rightarrow> ResolvedPrices" where
  "match_rules a [] p = p"
| "match_rules a (r # rs) p =
     (if rule_matches a r then
        let p' = apply_rule r p in
        if VerifiedPriceValid p' \<and> UnverifiedPriceValid p' then p' else match_rules a rs p'
      else match_rules a rs p)"

definition resolve :: "pbAuction \<Rightarrow> rawRules \<Rightarrow> ResolvedPrices" where
  "resolve a rules =
     (if DealRateLimit rules > 0 \<and> CurrentDealRate rules \<ge> DealRateLimit rules then noPrices
      else if Blocked rules then noPrices
      else if MaintenanceMode rules then noPrices
      else match_rules a (PricingRules rules) (noPrices\<lparr>AllowBidding := True\<rparr>))"

section \<open>The rules of one client\<close>

record http_request =
  ReqURL :: string
  ReqBody :: string
  Authorization :: string
  IfNoneMatch :: "string option"

record http_response =
  StatusCode :: nat
  StatusText :: string
  ETag :: string
  Body :: "go_error + string"

text \<open>
  The world a load runs in: whether the request can be built, what the server answers to it, and
  how its body decodes.
\<close>

record web =
  NewRequest :: "string \<Rightarrow> string \<Rightarrow> go_error option"
  Do :: "http_request \<Rightarrow> go_error + http_response"
  json_Unmarshal :: "string \<Rightarrow> go_error + rawRules"
  time_String :: "go_time \<Rightarrow> string"

text \<open>
  The atomic values are \<open>None\<close> until something is stored in them. \<open>loading\<close> lists the requests of the loads
  that outlived the call that started them and go on in the background.
\<close>

record clientRules =
  apiURL :: string
  apiKey :: string
  clientAddress :: string
  rules :: "rawRules option"
  rulesLastUpdated :: go_time
  rulesETag :: "string option"
  apiThrottlingReset :: "go_time option"
  loading :: "http_request list"

definition newClientRulesFor :: "string \<Rightarrow> string \<Rightarrow> string \<Rightarrow> clientRules" where
  "newClientRulesFor url k client = \<lparr>apiURL = url, apiKey = k, clientAddress = client, rules = None,
     rulesLastUpdated = 0, rulesETag = None, apiThrottlingReset = None, loading = []\<rparr>"

definition second :: duration where "second = 10 ^ 9"
definition minute :: duration where "minute = 60 * second"

definition cidGravityLoadRulesTimeout :: duration where "cidGravityLoadRulesTimeout = 5 * second"
definition cidGravityCachePeriod :: duration where "cidGravityCachePeriod = minute"
definition backoff429 :: duration where "backoff429 = minute * 5"

lemmas period_defs = second_def minute_def cidGravityLoadRulesTimeout_def cidGravityCachePeriod_def
  backoff429_def

definition load_body :: "string \<Rightarrow> string" where
  "load_body client = ''{'' @ [CHR 0x22] @ ''clientAddress'' @ [CHR 0x22] @ '':'' @ [CHR 0x22] @ client @
     [CHR 0x22] @ ''}''"

definition load_request :: "string \<Rightarrow> clientRules \<Rightarrow> http_request" where
  "load_request url cg = \<lparr>ReqURL = url, ReqBody = load_body (clientAddress cg), Authorization = apiKey cg,
     IfNoneMatch = rulesETag cg\<rparr>"

text \<open>The second half of a load, from the sending of the request on; \<open>now\<close> is the time when the response arrived.\<close>

definition loadAnswer ::
  "'w web_scheme \<Rightarrow> go_time \<Rightarrow> http_request \<Rightarrow> clientRules \<Rightarrow> go_error option \<times> clientRules" where
  "loadAnswer W now req cg =
     (case Do W req of
        Inl e \<Rightarrow> (Some (Wrapv ''contacting CID gravity server'' e), cg)
      | Inr resp \<Rightarrow>
          if StatusCode resp = 200 then
            let cg1 = cg\<lparr>rulesETag := Some (ETag resp)\<rparr> in
            (case Body resp of
               Inl e \<Rightarrow> (Some (Wrapv ''reading http response'' e), cg1)
             | Inr b \<Rightarrow>
                 (case json_Unmarshal W b of
                    Inl e \<Rightarrow> (Some (Wrapv ''unmarshalling rules'' e), cg1)
                  | Inr rs \<Rightarrow> (None, cg1\<lparr>rules := Some rs, rulesLastUpdated := now\<rparr>)))
          else if StatusCode resp = 304 then (None, cg)
          else if StatusCode resp = 429 then
            (let t = now + backoff429 in
             (Some (New (''CID gravity API rate limit is hit, backoff until '' @ time_String W t)),
              cg\<lparr>apiThrottlingReset := Some t\<rparr>))
          else (Some (New (''unexpected HTTP status '' @ [CHR 0x27] @ StatusText resp @ [CHR 0x27])), cg))"

definition loadRules ::
  "'w web_scheme \<Rightarrow> go_time \<Rightarrow> string \<Rightarrow> clientRules \<Rightarrow> go_error option \<times> clientRules" where
  "loadRules W now url cg =
     (case NewRequest W url (load_body (clientAddress cg)) of
        Some e \<Rightarrow> (Some (Wrapv ''creating HTTP request'' e), cg)
      | None \<Rightarrow> loadAnswer W now (load_request url cg) cg)"

text \<open>
  The load runs in a goroutine; \<open>in_time\<close> says that it ended before the timeout. If it did not, it
  goes on in the background with its request, and ends with \<open>finishLoad\<close> at any later time. The
  result says whether the cached rules may be used.
\<close>

definition maybeReloadRules ::
  "'w web_scheme \<Rightarrow> go_time \<Rightarrow> go_time \<Rightarrow> bool \<Rightarrow> string \<Rightarrow> duration \<Rightarrow> clientRules \<Rightarrow> bool \<times> clientRules" where
  "maybeReloadRules W now now' in_time url cachePeriod cg =
     (if time_Sub now (rulesLastUpdated cg) < cachePeriod then (True, cg)
      else if (case apiThrottlingReset cg of None \<Rightarrow> False | Some reset \<Rightarrow> now < reset) then (False, cg)
      else if in_time then
        (case loadRules W now' url cg of (err, cg1) \<Rightarrow> (err = None, cg1))
      else (False, if NewRequest W url (load_body (clientAddress cg)) = None
              then cg\<lparr>loading := loading cg @ [load_request url cg]\<rparr> else cg))"

text \<open>The \<open>k\<close>-th of the loads in the background gets its answer, in the world of that time.\<close>

definition finishLoad :: "'w web_scheme \<Rightarrow> go_time \<Rightarrow> nat \<Rightarrow> clientRules \<Rightarrow> clientRules" where
  "finishLoad W now k cg =
     (if k < length (loading cg)
      then snd (loadAnswer W now (loading cg ! k)
             (cg\<lparr>loading := take k (loading cg) @ drop (Suc k) (loading cg)\<rparr>))
      else cg)"

definition client_PricesFor ::
  "'w web_scheme \<Rightarrow> go_time \<Rightarrow> go_time \<Rightarrow> bool \<Rightarrow> pbAuction \<Rightarrow> clientRules \<Rightarrow>
     (ResolvedPrices \<times> bool) \<times> clientRules" where
  "client_PricesFor W now now' in_time a cg =
     (case maybeReloadRules W now now' in_time (apiURL cg) cidGravityCachePeriod cg of
        (False, cg1) \<Rightarrow> ((noPrices, False), cg1)
      | (True, cg1) \<Rightarrow>
          (case rules cg1 of
             None \<Rightarrow> ((noPrices, False), cg1)
           | Some rs \<Rightarrow> ((resolve a rs, True), cg1)))"

section \<open>The interface\<close>

record cidGravityRules =
  cg_apiURL :: string
  cg_apiKey :: string
  perClientRules :: "string \<rightharpoonup> clientRules"

definition NewCIDGravityRules :: "string \<Rightarrow> string \<Rightarrow> cidGravityRules" where
  "NewCIDGravityRules url k = \<lparr>cg_apiURL = url, cg_apiKey = k, perClientRules = Map.empty\<rparr>"

text \<open>The map holds pointers, so what the client's rules become is stored back in it.\<close>

definition cg_PricesFor ::
  "'w web_scheme \<Rightarrow> go_time \<Rightarrow> go_time \<Rightarrow> bool \<Rightarrow> pbAuction \<Rightarrow> cidGravityRules \<Rightarrow>
     (ResolvedPrices \<times> bool) \<times> cidGravityRules" where
  "cg_PricesFor W now now' in_time a cg =
     (let client = ClientAddress a;
          rs = (case perClientRules cg client of
                  Some rs \<Rightarrow> rs
                | None \<Rightarrow> newClientRulesFor (cg_apiURL cg) (cg_apiKey cg) client)
      in case client_PricesFor W now now' in_time a rs of
           (r, rs') \<Rightarrow> (r, cg\<lparr>perClientRules := (perClientRules cg)(client \<mapsto> rs')\<rparr>))"

datatype PricingRulesImpl = EmptyRules | CIDGravity cidGravityRules

fun PricesFor ::
  "'w web_scheme \<Rightarrow> go_time \<Rightarrow> go_time \<Rightarrow> bool \<Rightarrow> pbAuction \<Rightarrow> PricingRulesImpl \<Rightarrow>
     (ResolvedPrices \<times> bool) \<times> PricingRulesImpl" where
  "PricesFor W now now' in_time a EmptyRules = ((noPrices, False), EmptyRules)"
| "PricesFor W now now' in_time a (CIDGravity cg) = map_prod id CIDGravity (cg_PricesFor W now now' in_time a cg)"

text \<open>A load in the background ends for one of the clients.\<close>

fun backgroundLoad ::
  "'w web_scheme \<Rightarrow> go_time \<Rightarrow> string \<Rightarrow> nat \<Rightarrow> PricingRulesImpl \<Rightarrow> PricingRulesImpl" where
  "backgroundLoad W now client k EmptyRules = EmptyRules"
| "backgroundLoad W now client k (CIDGravity cg) = CIDGravity (cg\<lparr>perClientRules :=
     (perClientRules cg)(client := map_option (finishLoad W now k) (perClientRules cg client))\<rparr>)"

section \<open>The rules against their specification\<close>

text \<open>
  What the price of an auction should be, without the loop: the verified price is the one of the
  first matching rule for verified deals, the unverified price the one of the first matching rule
  for unverified deals other than that rule.
\<close>

definition for_verified :: "PricingRule \<Rightarrow> bool" where
  "for_verified r \<longleftrightarrow> Verified r = ''true'' \<or> Verified r = ''any''"

definition for_unverified :: "PricingRule \<Rightarrow> bool" where
  "for_unverified r \<longleftrightarrow> Verified r = ''false'' \<or> Verified r = ''any''"

definition set_verified :: "PricingRule option \<Rightarrow> ResolvedPrices \<Rightarrow> ResolvedPrices" where
  "set_verified r p = (case r of None \<Rightarrow> p
     | Some r \<Rightarrow> p\<lparr>VerifiedPriceValid := True, VerifiedPrice := Price r\<rparr>)"

definition set_unverified :: "PricingRule option \<Rightarrow> ResolvedPrices \<Rightarrow> ResolvedPrices" where
  "set_unverified r p = (case r of None \<Rightarrow> p
     | Some r \<Rightarrow> p\<lparr>UnverifiedPriceValid := True, UnverifiedPrice := Price r\<rparr>)"

definition first_matches :: "PricingRule list \<Rightarrow> PricingRule option \<times> PricingRule option" where
  "first_matches ms =
     (case find for_verified ms of
        None \<Rightarrow> (None, find for_unverified ms)
      | Some r \<Rightarrow> (Some r, find for_unverified (remove1 r ms)))"

definition open_for_bids :: "rawRules \<Rightarrow> bool" where
  "open_for_bids rs \<longleftrightarrow> \<not> (DealRateLimit rs > 0 \<and> CurrentDealRate rs \<ge> DealRateLimit rs) \<and>
     \<not> Blocked rs \<and> \<not> MaintenanceMode rs"

lemma match_rules_both:
  "VerifiedPriceValid p \<Longrightarrow> UnverifiedPriceValid p \<Longrightarrow> match_rules a rs p = p"
  by (induction rs) (auto simp: apply_rule_def Let_def)

lemma match_rules_after_verified:
  assumes "VerifiedPriceValid p" and "\<not> UnverifiedPriceValid p"
  shows "match_rules a rs p = set_unverified (find for_unverified (filter (rule_matches a) rs)) p"
  using assms
  by (induction rs)
    (auto simp: apply_rule_def Let_def set_unverified_def for_unverified_def)

lemma match_rules_after_unverified:
  assumes "\<not> VerifiedPriceValid p" and "UnverifiedPriceValid p"
  shows "match_rules a rs p = set_verified (find for_verified (filter (rule_matches a) rs)) p"
  using assms
  by (induction rs)
    (auto simp: apply_rule_def Let_def set_verified_def for_verified_def)

lemma set_both_commute: "set_verified r (set_unverified r' p) = set_unverified r' (set_verified r p)"
  by (auto simp: set_verified_def set_unverified_def split: option.splits)

lemma match_rules_none:
  assumes "\<not> VerifiedPriceValid p" and "\<not> UnverifiedPriceValid p"
  shows "match_rules a rs p =
    (case first_matches (filter (rule_matches a) rs) of (v, u) \<Rightarrow> set_unverified u (set_verified v p))"
  using assms
proof (induction rs)
  case Nil
  then show ?case by (simp add: first_matches_def set_unverified_def set_verified_def)
next
  case (Cons r rs)
  let ?p1 = "set_verified (Some r) p" and ?p2 = "set_unverified (Some r) p"
  consider "\<not> rule_matches a r"
    | "rule_matches a r" "for_verified r"
    | "rule_matches a r" "\<not> for_verified r" "for_unverified r"
    | "rule_matches a r" "\<not> for_verified r" "\<not> for_unverified r"
    by blast
  then show ?case
  proof cases
    case 1
    with Cons show ?thesis by simp
  next
    case 2
    then have "match_rules a (r # rs) p = match_rules a rs ?p1"
      using Cons.prems by (simp add: apply_rule_def set_verified_def for_verified_def)
    also have "\<dots> = set_unverified (find for_unverified (filter (rule_matches a) rs)) ?p1"
      using Cons.prems by (intro match_rules_after_verified) (simp_all add: set_verified_def)
    finally show ?thesis
      using 2 by (simp add: first_matches_def)
  next
    case 3
    then have "match_rules a (r # rs) p = match_rules a rs ?p2"
      using Cons.prems by (simp add: apply_rule_def set_unverified_def for_verified_def for_unverified_def)
    also have "\<dots> = set_verified (find for_verified (filter (rule_matches a) rs)) ?p2"
      using Cons.prems by (intro match_rules_after_unverified) (simp_all add: set_unverified_def)
    also have "\<dots> = set_unverified (Some r) (set_verified (find for_verified (filter (rule_matches a) rs)) p)"
      by (rule set_both_commute)
    finally have *: "match_rules a (r # rs) p = \<dots>" .
    show ?thesis
    proof (cases "find for_verified (filter (rule_matches a) rs)")
      case None
      with 3 * show ?thesis by (simp add: first_matches_def)
    next
      case (Some r')
      then have "r' \<noteq> r"
        using 3 by (auto simp: find_Some_iff)
      with 3 * Some show ?thesis by (simp add: first_matches_def)
    qed
  next
    case 4
    then have m: "match_rules a (r # rs) p = match_rules a rs p"
      using Cons.prems by (simp add: apply_rule_def for_verified_def for_unverified_def)
    have "first_matches (r # filter (rule_matches a) rs) = first_matches (filter (rule_matches a) rs)"
    proof (cases "find for_verified (filter (rule_matches a) rs)")
      case None
      with 4 show ?thesis by (simp add: first_matches_def)
    next
      case (Some r')
      then have "r' \<noteq> r"
        using 4 by (auto simp: find_Some_iff)
      with 4 Some show ?thesis by (simp add: first_matches_def)
    qed
    with Cons m 4 show ?thesis by simp
  qed
qed

text \<open>
  C19: the loop over the rules, with its flags and its early return, computes the declarative
  specification: no prices while the client is blocked, in maintenance or at its deal rate limit;
  otherwise the verified price of the first matching rule for verified deals, and the unverified
  price of the first matching rule for unverified deals among the rules without that one. A rule for
  any deals counts for both kinds, but sets one price only.
\<close>

theorem resolve_equiv:
  "resolve a rs =
     (if open_for_bids rs then
        (case first_matches (filter (rule_matches a) (PricingRules rs)) of
           (v, u) \<Rightarrow> set_unverified u (set_verified v (noPrices\<lparr>AllowBidding := True\<rparr>)))
      else noPrices)"
  by (auto simp: resolve_def open_for_bids_def match_rules_none noPrices_def)

text \<open>
  A rule for any kind of deal that is alone prices verified deals only: the unverified price stays
  unset.
\<close>

lemma lone_any_rule_is_verified_only:
  assumes "Verified r = ''any''" and "rule_matches a r" and "open_for_bids rs" and "PricingRules rs = [r]"
  shows "resolve a rs = noPrices\<lparr>AllowBidding := True, VerifiedPriceValid := True, VerifiedPrice := Price r\<rparr>"
  using assms by (simp add: resolve_def apply_rule_def open_for_bids_def for_verified_def set_verified_def
      set_unverified_def noPrices_def)

section \<open>The contract of the interface\<close>

text \<open>
  What the service relies on when it asks for prices: an answer that is not valid holds no prices,
  and prices are set only when bidding is allowed.
\<close>

lemma noPrices_unset [simp]:
  "\<not> AllowBidding noPrices" "\<not> VerifiedPriceValid noPrices" "\<not> UnverifiedPriceValid noPrices"
  by (simp_all add: noPrices_def)

locale pricing_rules =
  fixes prices_for :: "pbAuction \<Rightarrow> 'r \<Rightarrow> (ResolvedPrices \<times> bool) \<times> 'r"
  assumes invalid_is_empty: "fst (prices_for a r) = (p, False) \<Longrightarrow> p = noPrices"
    and closed_is_empty: "fst (prices_for a r) = (p, v) \<Longrightarrow> \<not> AllowBidding p \<Longrightarrow> p = noPrices"
begin

lemma priced_is_allowed:
  assumes "fst (prices_for a r) = (p, v)" and "VerifiedPriceValid p \<or> UnverifiedPriceValid p"
  shows "v \<and> AllowBidding p"
  using assms invalid_is_empty closed_is_empty noPrices_unset by metis

end

lemma match_rules_allows: "AllowBidding (match_rules a rs p) = AllowBidding p"
  by (induction rs arbitrary: p) (auto simp: apply_rule_def Let_def)

lemma resolve_closed: "\<not> AllowBidding (resolve a rs) \<Longrightarrow> resolve a rs = noPrices"
  by (auto simp: resolve_def match_rules_allows noPrices_def split: if_splits)

lemma client_PricesFor_cases:
  "fst (client_PricesFor W now now' in_time a cg) = (noPrices, False) \<or>
   (\<exists>rs. rules (snd (client_PricesFor W now now' in_time a cg)) = Some rs \<and>
      fst (client_PricesFor W now now' in_time a cg) = (resolve a rs, True))"
  by (auto simp: client_PricesFor_def split: prod.splits bool.splits option.splits)

lemma cg_PricesFor_fst:
  "\<exists>c. fst (cg_PricesFor W now now' in_time a cg) = fst (client_PricesFor W now now' in_time a c)"
  by (auto simp: cg_PricesFor_def Let_def split: prod.splits option.splits) (metis fst_conv)+

lemma PricesFor_cases:
  "fst (PricesFor W now now' in_time a r) = (noPrices, False) \<or>
   (\<exists>rs. fst (PricesFor W now now' in_time a r) = (resolve a rs, True))"
proof (cases r)
  case EmptyRules
  then show ?thesis by simp
next
  case (CIDGravity cg)
  then show ?thesis
    using cg_PricesFor_fst [of W now now' in_time a cg] client_PricesFor_cases
    by (metis PricesFor.simps(2) fst_map_prod id_apply)
qed

interpretation rules_contract: pricing_rules "PricesFor W now now' in_time"
proof
  fix a r p
  assume "fst (PricesFor W now now' in_time a r) = (p, False)"
  then show "p = noPrices"
    using PricesFor_cases [of W now now' in_time a r] by auto
next
  fix a r p v
  assume "fst (PricesFor W now now' in_time a r) = (p, v)" and "\<not> AllowBidding p"
  then show "p = noPrices"
    using PricesFor_cases [of W now now' in_time a r] resolve_closed by fastforce
qed

section \<open>Loading, caching and throttling\<close>

text \<open>
  Prices in hand mean that the rules were in the cache and are the ones the answer was computed
  from; without prices the answer carries none at all. No auction is ever priced by rules the
  client does not hold.
\<close>

theorem valid_prices_come_from_the_cache:
  "case client_PricesFor W now now' in_time a cg of ((p, valid), cg') \<Rightarrow>
     if valid then rules cg' \<noteq> None \<and> p = resolve a (the (rules cg')) else p = noPrices"
  using client_PricesFor_cases [of W now now' in_time a cg]
  by (auto split: prod.splits)

text \<open>Requests for prices in turn, each in its own world and at its own time, and loads that end in between.\<close>

datatype price_event = AskPrices web go_time go_time bool pbAuction | LoadEnds web go_time nat

fun prices_in_turn :: "price_event list \<Rightarrow> clientRules \<Rightarrow> (ResolvedPrices \<times> bool) list \<times> clientRules" where
  "prices_in_turn [] cg = ([], cg)"
| "prices_in_turn (AskPrices W now now' in_time a # es) cg =
     (case client_PricesFor W now now' in_time a cg of
        (r, cg1) \<Rightarrow> (case prices_in_turn es cg1 of (rs, cg2) \<Rightarrow> (r # rs, cg2)))"
| "prices_in_turn (LoadEnds W now k # es) cg = prices_in_turn es (finishLoad W now k cg)"

fun asked_within :: "go_time \<Rightarrow> go_time \<Rightarrow> price_event \<Rightarrow> bool" where
  "asked_within start reset (AskPrices W now now' in_time a) = (start \<le> now \<and> now < reset)"
| "asked_within start reset (LoadEnds W now k) = True"

lemma no_load_when_throttled:
  assumes "apiThrottlingReset cg = Some reset" and "now < reset"
    and "time_Sub now (rulesLastUpdated cg) \<ge> cidGravityCachePeriod"
  shows "client_PricesFor W now now' in_time a cg = ((noPrices, False), cg)"
  using assms by (simp add: client_PricesFor_def maybeReloadRules_def)

lemma finishLoad_none [simp]: "loading cg = [] \<Longrightarrow> finishLoad W now k cg = cg"
  by (simp add: finishLoad_def)

lemma prices_while_throttled:
  assumes "apiThrottlingReset cg = Some reset" and "loading cg = []"
    and "\<forall>e \<in> set es. asked_within start reset e"
    and "time_Sub start (rulesLastUpdated cg) \<ge> cidGravityCachePeriod"
  shows "snd (prices_in_turn es cg) = cg \<and> set (fst (prices_in_turn es cg)) \<subseteq> {(noPrices, False)}"
  using assms(3)
proof (induction es)
  case (Cons c es)
  show ?case
  proof (cases c)
    case (AskPrices W now now' in_time a)
    with Cons.prems have "start \<le> now" "now < reset" by auto
    then have "client_PricesFor W now now' in_time a cg = ((noPrices, False), cg)"
      using assms(1,4) time_Sub_mono [of start now "rulesLastUpdated cg"]
      by (intro no_load_when_throttled) auto
    with Cons AskPrices show ?thesis by (simp add: case_prod_unfold)
  next
    case (LoadEnds W now k)
    with Cons assms(2) show ?thesis by simp
  qed
qed simp

lemma loadAnswer_loading [simp]: "loading (snd (loadAnswer W now req cg)) = loading cg"
  by (simp add: loadAnswer_def Let_def split: sum.split)

text \<open>
  C20: once the server has answered that the rate limit is hit, and no earlier load goes on in the
  background, it is left alone for the five minutes of the backoff: whatever it would answer, no call
  in this time sends a request, changes the client's rules or gets prices.
\<close>

theorem backoff_is_kept:
  assumes "time_Sub now (rulesLastUpdated cg) \<ge> cidGravityCachePeriod"
    and "\<forall>r. apiThrottlingReset cg = Some r \<longrightarrow> r \<le> now" and "loading cg = []"
    and "NewRequest W (apiURL cg) (load_body (clientAddress cg)) = None"
    and "Do W (load_request (apiURL cg) cg) = Inr resp" and "StatusCode resp = 429"
    and "client_PricesFor W now now' True a cg = (r, cg')"
    and "\<forall>e \<in> set es. asked_within now (now' + backoff429) e"
  shows "r = (noPrices, False) \<and> rules cg' = rules cg \<and> rulesLastUpdated cg' = rulesLastUpdated cg \<and>
    snd (prices_in_turn es cg') = cg' \<and> set (fst (prices_in_turn es cg')) \<subseteq> {(noPrices, False)}"
proof -
  have "(case apiThrottlingReset cg of None \<Rightarrow> False | Some reset \<Rightarrow> now < reset) = False"
    using assms(2) by (auto split: option.splits)
  then have "(r, cg') = ((noPrices, False), cg\<lparr>apiThrottlingReset := Some (now' + backoff429)\<rparr>)"
    using assms(1,4-7) by (simp add: client_PricesFor_def maybeReloadRules_def loadRules_def loadAnswer_def Let_def)
  moreover from this prices_while_throttled [of cg' "now' + backoff429" es now] assms(1,3,8)
  have "snd (prices_in_turn es cg') = cg' \<and> set (fst (prices_in_turn es cg')) \<subseteq> {(noPrices, False)}" by simp
  ultimately show ?thesis by simp
qed

text \<open>
  A load that outlived its call takes effect when it ends, even during a backoff: the calls of the
  minute from then on are priced with the rules it brought, though the API is not to be asked.
\<close>

lemma late_load_takes_effect:
  assumes "k < length (loading cg)" and "Do W (loading cg ! k) = Inr resp" and "StatusCode resp = 200"
    and "Body resp = Inr body" and "json_Unmarshal W body = Inr rs"
    and "time_Sub later now < cidGravityCachePeriod"
  shows "fst (prices_in_turn [LoadEnds W now k, AskPrices W' later later' in_time a] cg) = [(resolve a rs, True)]"
  using assms
  by (simp add: finishLoad_def loadAnswer_def client_PricesFor_def maybeReloadRules_def Let_def)

text \<open>
  The tag of an answer is kept before its body is decoded. When the body of new rules is broken,
  the next request carries their tag, the server answers that nothing changed, and the auction is
  priced with the rules from before, as valid.
\<close>

theorem stale_rules_after_broken_body:
  assumes "time_Sub now (rulesLastUpdated cg) \<ge> cidGravityCachePeriod" and "now \<le> later"
    and "\<forall>r. apiThrottlingReset cg = Some r \<longrightarrow> r \<le> now"
    and "NewRequest W (apiURL cg) (load_body (clientAddress cg)) = None"
    and "Do W (load_request (apiURL cg) cg) = Inr resp" and "StatusCode resp = 200"
    and "Body resp = Inr body" and "json_Unmarshal W body = Inl e"
    and "NewRequest W' (apiURL cg) (load_body (clientAddress cg)) = None"
    and "\<forall>req. IfNoneMatch req = Some (ETag resp) \<longrightarrow>
      (\<exists>resp'. Do W' req = Inr resp' \<and> StatusCode resp' = 304)"
    and "rules cg = Some old"
  shows "fst (prices_in_turn [AskPrices W now now' True a, AskPrices W' later later' True a] cg) =
    [(noPrices, False), (resolve a old, True)]"
proof -
  let ?cg1 = "cg\<lparr>rulesETag := Some (ETag resp)\<rparr>"
  have thr: "(case apiThrottlingReset cg of None \<Rightarrow> False | Some reset \<Rightarrow> now < reset) = False"
    "(case apiThrottlingReset cg of None \<Rightarrow> False | Some reset \<Rightarrow> later < reset) = False"
    using assms(2,3) by (auto split: option.splits)
  have stale: "time_Sub later (rulesLastUpdated cg) \<ge> cidGravityCachePeriod"
    using assms(1,2) time_Sub_mono [of now later "rulesLastUpdated cg"] by simp
  have first: "client_PricesFor W now now' True a cg = ((noPrices, False), ?cg1)"
    using assms(1,4-8) thr by (simp add: client_PricesFor_def maybeReloadRules_def loadRules_def loadAnswer_def Let_def)
  obtain resp' where "Do W' (load_request (apiURL ?cg1) ?cg1) = Inr resp'" "StatusCode resp' = 304"
    using assms(10) [rule_format, of "load_request (apiURL ?cg1) ?cg1"] by (auto simp: load_request_def)
  then have "client_PricesFor W' later later' True a ?cg1 = ((resolve a old, True), ?cg1)"
    using assms(9,11) thr stale
    by (simp add: client_PricesFor_def maybeReloadRules_def loadRules_def loadAnswer_def)
  with first show ?thesis by simp
qed

section \<open>The hypotheses hold\<close>

definition sample_rule :: "string \<Rightarrow> i64 \<Rightarrow> PricingRule" where
  "sample_rule v p = \<lparr>Verified = v, MinSize = 1, MaxSize = 100, MinDuration = 1, MaxDuration = 100,
     Price = p\<rparr>"

definition sample_rules :: "PricingRule list \<Rightarrow> rawRules" where
  "sample_rules prs = \<lparr>Blocked = False, MaintenanceMode = False, DealRateLimit = 0, CurrentDealRate = 0,
     PricingRules = prs\<rparr>"

definition sample_pbAuction :: pbAuction where
  "sample_pbAuction = \<lparr>Id = ''auction'', PayloadCid = ''cid'', DealSize = 5, DealDuration = 7,
     EndsAt = None, FilEpochDeadline = 0, ClientAddress = ''f0client''\<rparr>"

text \<open>A server that answers every request with one status and body; one body is well formed.\<close>

definition sample_web :: "nat \<Rightarrow> string \<Rightarrow> web" where
  "sample_web code body = \<lparr>NewRequest = (\<lambda>_ _. None),
     Do = (\<lambda>_. Inr \<lparr>StatusCode = code, StatusText = ''status'', ETag = ''tag'', Body = Inr body\<rparr>),
     json_Unmarshal = (\<lambda>b. if b = ''ok'' then Inr (sample_rules [sample_rule ''any'' 3]) else Inl (New ''EOF'')),
     time_String = (\<lambda>_. ''later'')\<rparr>"

definition sample_client :: clientRules where
  "sample_client = (newClientRulesFor ''url'' ''key'' ''f0client'')
     \<lparr>rules := Some (sample_rules [sample_rule ''any'' 2])\<rparr>"

lemmas sample_pricing = sample_rule_def sample_rules_def sample_pbAuction_def sample_web_def
  sample_client_def newClientRulesFor_def period_defs time_Sub_def maxDuration_def minDuration_def

lemma lone_any_rule_is_verified_only_witness:
  "resolve sample_pbAuction (sample_rules [sample_rule ''any'' 3]) =
   noPrices\<lparr>AllowBidding := True, VerifiedPriceValid := True, VerifiedPrice := 3\<rparr>"
  by (subst lone_any_rule_is_verified_only [where r = "sample_rule ''any'' 3"])
    (simp_all add: rule_matches_def open_for_bids_def sample_pricing)

definition sample_calls :: "price_event list" where
  "sample_calls = [AskPrices (sample_web 200 ''ok'') (2 * minute) (2 * minute) True sample_pbAuction,
     LoadEnds (sample_web 200 ''ok'') (3 * minute) 0,
     AskPrices (sample_web 200 ''ok'') (5 * minute) (5 * minute) True sample_pbAuction]"

text \<open>The same answers of the API bring prices as soon as the backoff is over.\<close>

lemma backoff_is_kept_witness:
  "\<exists>cg'. client_PricesFor (sample_web 429 '''') minute minute True sample_pbAuction sample_client =
      ((noPrices, False), cg') \<and>
    set (fst (prices_in_turn sample_calls cg')) \<subseteq> {(noPrices, False)} \<and>
    fst (prices_in_turn [AskPrices (sample_web 200 ''ok'') (6 * minute) (6 * minute) True sample_pbAuction] cg') =
      [(resolve sample_pbAuction (sample_rules [sample_rule ''any'' 3]), True)]"
proof -
  let ?cg = "sample_client\<lparr>apiThrottlingReset := Some (6 * minute)\<rparr>"
  have step: "client_PricesFor (sample_web 429 '''') minute minute True sample_pbAuction sample_client =
      ((noPrices, False), ?cg)"
    by (simp add: client_PricesFor_def maybeReloadRules_def loadRules_def loadAnswer_def sample_pricing)
  have "set (fst (prices_in_turn sample_calls ?cg)) \<subseteq> {(noPrices, False)}"
  proof (rule backoff_is_kept [OF _ _ _ _ _ _ step, THEN conjunct2, THEN conjunct2, THEN conjunct2, THEN conjunct2])
    show "time_Sub minute (rulesLastUpdated sample_client) \<ge> cidGravityCachePeriod"
      by (simp add: sample_pricing)
    show "Do (sample_web 429 '''') (load_request (apiURL sample_client) sample_client) =
        Inr \<lparr>StatusCode = 429, StatusText = ''status'', ETag = ''tag'', Body = Inr ''''\<rparr>"
      by (simp add: sample_web_def)
    show "\<forall>e \<in> set sample_calls. asked_within minute (minute + backoff429) e"
      by (simp add: sample_calls_def period_defs)
  qed (simp_all add: sample_web_def sample_client_def newClientRulesFor_def)
  moreover have "fst (prices_in_turn [AskPrices (sample_web 200 ''ok'') (6 * minute) (6 * minute) True sample_pbAuction] ?cg) =
      [(resolve sample_pbAuction (sample_rules [sample_rule ''any'' 3]), True)]"
    by (simp add: client_PricesFor_def maybeReloadRules_def loadRules_def loadAnswer_def sample_pricing)
  ultimately show ?thesis using step by blast
qed

lemma late_load_takes_effect_witness:
  "fst (prices_in_turn [AskPrices (sample_web 200 ''ok'') minute minute False sample_pbAuction,
      LoadEnds (sample_web 200 ''ok'') (2 * minute) 0,
      AskPrices (sample_web 429 '''') (2 * minute) (2 * minute) True sample_pbAuction] sample_client) =
    [(noPrices, False), (resolve sample_pbAuction (sample_rules [sample_rule ''any'' 3]), True)]"
proof -
  let ?cg = "sample_client\<lparr>loading := [load_request ''url'' sample_client]\<rparr>"
  have "client_PricesFor (sample_web 200 ''ok'') minute minute False sample_pbAuction sample_client = ((noPrices, False), ?cg)"
    by (simp add: client_PricesFor_def maybeReloadRules_def sample_pricing)
  moreover have "fst (prices_in_turn [LoadEnds (sample_web 200 ''ok'') (2 * minute) 0,
      AskPrices (sample_web 429 '''') (2 * minute) (2 * minute) True sample_pbAuction] ?cg) =
      [(resolve sample_pbAuction (sample_rules [sample_rule ''any'' 3]), True)]"
    by (rule late_load_takes_effect [where body = "''ok''" and resp = "\<lparr>StatusCode = 200, StatusText = ''status'',
        ETag = ''tag'', Body = Inr ''ok''\<rparr>"]) (simp_all add: sample_pricing)
  ultimately show ?thesis by (simp only: prices_in_turn.simps) (simp add: case_prod_unfold)
qed

lemma stale_rules_after_broken_body_witness:
  "fst (prices_in_turn
      [AskPrices (sample_web 200 '''') minute minute True sample_pbAuction,
       AskPrices (sample_web 304 '''') (2 * minute) (2 * minute) True sample_pbAuction] sample_client) =
    [(noPrices, False), (resolve sample_pbAuction (sample_rules [sample_rule ''any'' 2]), True)]"
  by (rule stale_rules_after_broken_body [where resp = "\<lparr>StatusCode = 200, StatusText = ''status'',
      ETag = ''tag'', Body = Inr ''''\<rparr>" and body = "''''" and e = "New ''EOF''"])
    (simp_all add: sample_pricing)

end
