(* ===== verification/Datauri.thy ===== *)
theory Datauri
  imports Auction
begin

text \<open>
  \<open>lib/datauri/datauri.go\<close>: the data uri of a car file, its validation and its download. The
  network, the parsers of content ids and urls, and the CBOR decoder are arguments; the variable
  length integers of \<open>encoding/binary\<close> and the readers of \<open>bufio\<close> and \<open>io\<close> are modelled on bytes.
\<close>

unbundle bit_operations_syntax

section \<open>Readers\<close>

type_synonym byte = "8 word"

text \<open>A body as the bytes that arrive and the error the connection then fails with, if it does.\<close>

record stream =
  Bytes :: "byte list"
  Fault :: "go_error option"

definition EOF :: go_error where "EOF = Sentinel ''EOF''"
definition ErrUnexpectedEOF :: go_error where "ErrUnexpectedEOF = Sentinel ''unexpected EOF''"

lemmas eof_defs = EOF_def ErrUnexpectedEOF_def

definition at_end :: "stream \<Rightarrow> go_error" where
  "at_end r = (case Fault r of None \<Rightarrow> EOF | Some e \<Rightarrow> e)"

definition ReadFull :: "nat \<Rightarrow> stream \<Rightarrow> (go_error + byte list) \<times> stream" where
  "ReadFull n r =
     (if n \<le> length (Bytes r)
      then (Inr (take n (Bytes r)), r\<lparr>Bytes := List.drop n (Bytes r)\<rparr>)
      else (Inl (if Bytes r \<noteq> [] \<and> Fault r = None then ErrUnexpectedEOF else at_end r), r\<lparr>Bytes := []\<rparr>))"

section \<open>Variable length integers\<close>

definition overflow :: go_error where
  "overflow = New ''binary: varint overflows a 64-bit integer''"

text \<open>The loop of \<open>binary.ReadUvarint\<close>: at byte \<open>i\<close> the value so far is \<open>x\<close>, the shift \<open>s\<close>.\<close>

fun ReadUvarint_from ::
  "nat \<Rightarrow> u64 \<Rightarrow> nat \<Rightarrow> byte list \<Rightarrow> go_error \<Rightarrow> (go_error + u64) \<times> byte list" where
  "ReadUvarint_from i x s [] e = (Inl (if i < 10 then e else overflow), [])"
| "ReadUvarint_from i x s (b # bs) e =
     (if \<not> i < 10 then (Inl overflow, b # bs)
      else if b < 0x80 then
        (if i = 9 \<and> b > 1 then (Inl overflow, bs) else (Inr (x OR push_bit s (ucast b)), bs))
      else ReadUvarint_from (Suc i) (x OR push_bit s (ucast (b AND 0x7F))) (s + 7) bs e)"

definition ReadUvarint :: "stream \<Rightarrow> (go_error + u64) \<times> stream" where
  "ReadUvarint r =
     (case ReadUvarint_from 0 0 0 (Bytes r) (at_end r) of (l, bs) \<Rightarrow> (l, r\<lparr>Bytes := bs\<rparr>))"

text \<open>\<open>binary.PutUvarint\<close> into a buffer from index \<open>i\<close> on; \<open>None\<close> is an index out of range.\<close>

lemma drop_bit_7_less: "0x80 \<le> (x::u64) \<Longrightarrow> unat (drop_bit 7 x) < unat x"
  by (simp add: unat_drop_bit_eq drop_bit_eq_div word_le_nat_alt unat_div_distrib)

function PutUvarint :: "byte list \<Rightarrow> nat \<Rightarrow> u64 \<Rightarrow> byte list option" where
  "PutUvarint buf i x =
     (if x \<ge> 0x80 then
        (if i < length buf then PutUvarint (buf[i := ucast x OR 0x80]) (Suc i) (drop_bit 7 x) else None)
      else if i < length buf then Some (buf[i := ucast x]) else None)"
  by pat_completeness auto
termination
  by (relation "measure (\<lambda>(buf, i, x). unat x)") (simp_all add: drop_bit_7_less)

text \<open>The shortest encoding, what \<open>PutUvarint\<close> writes into a buffer with room.\<close>

function uvarint :: "u64 \<Rightarrow> byte list" where
  "uvarint x = (if x \<ge> 0x80 then (ucast x OR 0x80) # uvarint (drop_bit 7 x) else [ucast x])"
  by pat_completeness auto
termination
  by (relation "measure unat") (simp_all add: drop_bit_7_less)

declare PutUvarint.simps [simp del] uvarint.simps [simp del]

section \<open>The header of a car file\<close>

definition ErrSchemeNotSupported :: go_error where
  "ErrSchemeNotSupported = Sentinel ''scheme not supported''"
definition ErrCarFileUnavailable :: go_error where
  "ErrCarFileUnavailable = Sentinel ''car file unavailable''"
definition ErrInvalidCarFile :: go_error where
  "ErrInvalidCarFile = Sentinel ''invalid car file''"

lemmas uri_errors = ErrSchemeNotSupported_def ErrCarFileUnavailable_def ErrInvalidCarFile_def

record http_answer =
  Code :: nat
  AnswerBody :: stream

text \<open>
  What the package calls: the parsers, the decoder of a car header (its roots), the longest slice
  that \<open>make\<close> accepts, the building of a request, and the server's answer to a request for a uri
  with extra headers.
\<close>

record net =
  cid_Parse :: "string \<Rightarrow> go_error + cid"
  url_Parse :: "string \<Rightarrow> go_error + URL"
  DecodeHeader :: "byte list \<Rightarrow> go_error + cid list"
  maxAlloc :: nat
  BuildRequest :: "string \<Rightarrow> go_error option"
  SendRequest :: "string \<Rightarrow> (string \<times> string) list \<Rightarrow> go_error + http_answer"

definition ldRead :: "'n net_scheme \<Rightarrow> stream \<Rightarrow> ((go_error + byte list \<times> byte list) \<times> stream) go_out" where
  "ldRead N r =
     (if Bytes r = [] then Ret (Inl (at_end r), r)
      else case ReadUvarint r of
        (Inl err, r1) \<Rightarrow> Ret (Inl (if err = EOF then ErrUnexpectedEOF else err), r1)
      | (Inr l, r1) \<Rightarrow>
          if unat l > maxAlloc N then Panic ''runtime error: makeslice: len out of range''
          else (case ReadFull (unat l) r1 of
             (Inl err, r2) \<Rightarrow> Ret (Inl err, r2)
           | (Inr buf, r2) \<Rightarrow>
               (case PutUvarint [0] 0 l of
                  None \<Rightarrow> Panic ''runtime error: index out of range [1] with length 1''
                | Some ubuf \<Rightarrow> Ret (Inr (ubuf, buf), r2))))"

text \<open>The reader returned: the bytes read so far in front of the rest.\<close>

definition validateCarHeader :: "'n net_scheme \<Rightarrow> cid \<Rightarrow> stream \<Rightarrow> (go_error + stream) go_out" where
  "validateCarHeader N root reader =
     bind_out (ldRead N reader) (\<lambda>res. case res of
        (Inl err, buf) \<Rightarrow> Ret (Inl (Wrapv ''reading car header'' err))
      | (Inr (phb, hb), buf) \<Rightarrow>
          (case DecodeHeader N hb of
             Inl err \<Rightarrow> Ret (Inl (Wrapv ''decoding car header'' err))
           | Inr roots \<Rightarrow>
               if length roots \<noteq> 1
                 then Ret (Inl (Wrapw ''car file must have only one root'' ErrInvalidCarFile))
               else if roots ! 0 \<noteq> root
                 then Ret (Inl (Wrapw ''car file root does not match cid'' ErrInvalidCarFile))
               else Ret (Inr (buf\<lparr>Bytes := phb @ hb @ Bytes buf\<rparr>))))"

section \<open>Uris\<close>

record HTTPURI =
  uri :: string
  uri_cid :: cid

definition getRequest :: "'n net_scheme \<Rightarrow> HTTPURI \<Rightarrow> (string \<times> string) list \<Rightarrow> go_error + http_answer" where
  "getRequest N u extraHeaders =
     (case BuildRequest N (uri u) of
        Some e \<Rightarrow> Inl (Wrapv ''building http request'' e)
      | None \<Rightarrow> (case SendRequest N (uri u) extraHeaders of
          Inl e \<Rightarrow> Inl (Wrapv ''sending http request'' e)
        | Inr res \<Rightarrow> Inr res))"

definition badStatus :: "nat \<Rightarrow> go_error" where
  "badStatus n = Wrapw (''http request returned bad status '' @ itoa n) ErrCarFileUnavailable"

definition Validate :: "'n net_scheme \<Rightarrow> HTTPURI \<Rightarrow> go_error option go_out" where
  "Validate N u =
     (case getRequest N u [(HTTPCarHeaderOnly, ''true'')] of
        Inl e \<Rightarrow> Ret (Some (Wrapv ''get request'' e))
      | Inr res \<Rightarrow>
          if Code res \<noteq> 200 then Ret (Some (badStatus (Code res)))
          else bind_out (validateCarHeader N (uri_cid u) (AnswerBody res)) (\<lambda>v. case v of
              Inl e \<Rightarrow> Ret (Some (Wrapw ''validating car header'' e))
            | Inr r \<Rightarrow> Ret None))"

text \<open>
  \<open>Write\<close> returns the error and what \<open>io.Copy\<close> gave to the writer; \<open>w\<close> is the error the writer
  comes to, if any, and how much it took.
\<close>

definition Write :: "'n net_scheme \<Rightarrow> HTTPURI \<Rightarrow> (go_error \<times> nat) option \<Rightarrow> (go_error option \<times> byte list) go_out" where
  "Write N u w =
     (case getRequest N u [] of
        Inl e \<Rightarrow> Ret (Some (Wrapv ''get request'' e), [])
      | Inr res \<Rightarrow>
          if Code res \<noteq> 200 then Ret (Some (badStatus (Code res)), [])
          else bind_out (validateCarHeader N (uri_cid u) (AnswerBody res)) (\<lambda>v. case v of
              Inl e \<Rightarrow> Ret (Some (Wrapw ''validating car header'' e), [])
            | Inr r \<Rightarrow>
                (case w of
                   Some (e, n) \<Rightarrow> Ret (Some (Wrapv ''writing http get response'' e), take n (Bytes r))
                 | None \<Rightarrow>
                     Ret (map_option (Wrapv ''writing http get response'') (Fault r), Bytes r))))"

definition NewURI :: "'n net_scheme \<Rightarrow> string \<Rightarrow> string \<Rightarrow> go_error + HTTPURI" where
  "NewURI N payloadCid u =
     (case cid_Parse N payloadCid of
        Inl e \<Rightarrow> Inl (Wrapv ''parsing data cid'' e)
      | Inr c \<Rightarrow>
          (case url_Parse N u of
             Inl e \<Rightarrow> Inl (Wrapv (''parsing uri '' @ quoted u) e)
           | Inr parsed \<Rightarrow>
               if Scheme parsed = ''http'' \<or> Scheme parsed = ''https''
               then Inr \<lparr>uri = u, uri_cid = c\<rparr>
               else Inl (Wrapw (''parsing uri '' @ quoted u) ErrSchemeNotSupported)))"

definition NewFromSources :: "'n net_scheme \<Rightarrow> string \<Rightarrow> Sources \<Rightarrow> go_error + HTTPURI" where
  "NewFromSources N payloadCid sources =
     (case CARURL sources of
        Some u \<Rightarrow> NewURI N payloadCid (URLString (URL u))
      | None \<Rightarrow> Inl (New ''not implemented''))"

section \<open>Reading back what was written\<close>

lemma mask_7F: "(0x7F :: 'a::len word) = mask 7"
  by (simp add: mask_eq_exp_minus_1)

lemma bit_7F: "bit (0x7F :: 'a::len word) n \<longleftrightarrow> n < 7 \<and> n < LENGTH('a)"
  unfolding mask_7F by (auto simp add: bit_mask_iff simp del: mask_numeral)

lemma bit_80: "bit (0x80 :: byte) n \<longleftrightarrow> n = 7"
proof -
  have "(0x80 :: byte) = 2 ^ 7" by simp
  then show ?thesis by (simp only: bit_exp_iff) auto
qed

lemma below_80:
  fixes b :: "'a::len word"
  assumes "7 < LENGTH('a)"
  shows "b < 0x80 \<longleftrightarrow> (\<forall>n. bit b n \<longrightarrow> n < 7)"
proof -
  have "b < 0x80 \<longleftrightarrow> b AND mask 7 = b"
    using mask_eq_iff_w2p [of 7 b] assms by (simp add: word_size)
  also have "\<dots> \<longleftrightarrow> (\<forall>n. bit b n \<longrightarrow> n < 7)"
    by (auto simp only: bit_eq_iff bit_and_iff bit_mask_iff possible_bit_word) (auto dest: bit_imp_le_length)
  finally show ?thesis .
qed

lemma byte_high: "\<not> (ucast (x::u64) OR 0x80 :: byte) < 0x80"
  using bit_80 [of 7] by (auto simp: below_80 bit_or_iff simp del: bit_numeral_word_iff intro!: exI [of _ 7])

lemma byte_low: "ucast ((ucast x OR 0x80 :: byte) AND 0x7F) = (x AND 0x7F :: u64)"
  by (rule bit_word_eqI) (auto simp add: bit_simps bit_7F bit_80 simp del: bit_numeral_word_iff)

lemma small_byte:
  assumes "(x::u64) < 0x80"
  shows "(ucast x :: byte) < 0x80" and "ucast (ucast x :: byte) = x"
proof -
  have bit: "bit x n \<Longrightarrow> n < 7" for n
    using assms by (simp add: below_80)
  show "ucast (ucast x :: byte) = x"
    by (rule bit_word_eqI) (auto simp: bit_simps dest: bit)
  show "(ucast x :: byte) < 0x80"
    by (auto simp: below_80 bit_simps dest: bit)
qed

lemma low_high: "push_bit s (x AND 0x7F) OR push_bit (s + 7) (drop_bit 7 x) = push_bit s (x :: u64)"
proof (rule bit_word_eqI)
  fix n
  show "bit (push_bit s (x AND 0x7F) OR push_bit (s + 7) (drop_bit 7 x)) n = bit (push_bit s x) n"
    by (cases "s + 7 \<le> n") (auto simp add: bit_simps bit_7F simp del: bit_numeral_word_iff)
qed

lemma ReadUvarint_uvarint:
  assumes "i < 10" and "unat y < 2 ^ (64 - 7 * i)"
  shows "ReadUvarint_from i x (7 * i) (uvarint y @ r) e = (Inr (x OR push_bit (7 * i) y), r)"
  using assms
proof (induction y arbitrary: i x rule: uvarint.induct)
  case (1 y)
  show ?case
  proof (cases "y \<ge> 0x80")
    case False
    then have y: "y < 0x80" by simp
    have "\<not> (i = 9 \<and> (ucast y :: byte) > 1)"
    proof
      assume *: "i = 9 \<and> (ucast y :: byte) > 1"
      then have "unat y < 2" using 1 by simp
      then have "y = 0 \<or> y = 1" by (auto simp: word_unat_eq_iff)
      with * show False by auto
    qed
    with y False 1 small_byte [OF y] show ?thesis
      by (subst uvarint.simps) simp
  next
    case True
    then have big: "128 \<le> unat y" by (simp add: word_le_nat_alt)
    have "i < 9"
    proof (rule ccontr)
      assume "\<not> i < 9"
      with 1(2) have "i = 9" by simp
      with 1(3) big show False by simp
    qed
    have "unat y div 2 ^ 7 < 2 ^ (64 - 7 * Suc i)"
    proof -
      have "(2::nat) ^ (64 - 7 * i) = 2 ^ (64 - 7 * Suc i) * 2 ^ 7"
        using \<open>i < 9\<close> by (subst power_add [symmetric]) (rule arg_cong [where f = "power 2"], simp)
      with 1 show ?thesis by (simp add: less_mult_imp_div_less)
    qed
    then have "unat (drop_bit 7 y) < 2 ^ (64 - 7 * Suc i)"
      by (simp add: unat_drop_bit_eq drop_bit_eq_div unat_div_distrib)
    then have "ReadUvarint_from (Suc i) (x OR push_bit (7 * i) (y AND 0x7F)) (7 * Suc i)
        (uvarint (drop_bit 7 y) @ r) e =
      (Inr (x OR push_bit (7 * i) (y AND 0x7F) OR push_bit (7 * Suc i) (drop_bit 7 y)), r)"
      using 1(1) [OF True, of "Suc i" "x OR push_bit (7 * i) (y AND 0x7F)"] \<open>i < 9\<close>
      by (simp add: or.assoc)
    moreover have "x OR push_bit (7 * i) (y AND 0x7F) OR push_bit (7 * Suc i) (drop_bit 7 y) =
        x OR push_bit (7 * i) y"
      using low_high [of "7 * i" y] by (simp add: or.assoc add.commute)
    ultimately show ?thesis
      using True \<open>i < 9\<close> byte_high [of y] byte_low [of y]
      by (subst uvarint.simps) (simp add: add.commute)
  qed
qed

lemma ReadUvarint_start: "ReadUvarint_from 0 0 0 (uvarint y @ r) e = (Inr y, r)"
  using ReadUvarint_uvarint [of 0 y 0 r e] unsigned_less [of y] by simp

lemma PutUvarint_one: "PutUvarint [b] 0 l = (if l < 0x80 then Some [ucast l] else None)"
  by (subst PutUvarint.simps, subst PutUvarint.simps) (auto simp: not_le not_less)

lemma uvarint_small: "l < 0x80 \<Longrightarrow> uvarint l = [ucast l]"
  using uvarint.simps [of l] by (simp add: not_less [symmetric])

lemma uvarint_nonempty [simp]: "uvarint l \<noteq> []"
  by (subst uvarint.simps) simp

text \<open>
  C25: on a stream that starts with a header and its length, \<open>ldRead\<close> returns the header and a prefix
  that encodes its length, whatever follows, as long as the header is shorter than 128 bytes. For
  a longer header it does not return: the buffer for the prefix is one byte long, so writing the
  length into it panics.
\<close>

theorem ldRead_roundtrip:
  assumes "length hdr \<le> maxAlloc N" and "length hdr < 2 ^ 64"
  shows "ldRead N \<lparr>Bytes = uvarint (of_nat (length hdr)) @ hdr @ rest, Fault = f\<rparr> =
    (if length hdr < 128
     then Ret (Inr (uvarint (of_nat (length hdr)), hdr), \<lparr>Bytes = rest, Fault = f\<rparr>)
     else Panic ''runtime error: index out of range [1] with length 1'')"
proof -
  have l: "unat (of_nat (length hdr) :: u64) = length hdr"
    using assms(2) by (simp add: unat_of_nat take_bit_nat_eq_self)
  then have "(of_nat (length hdr) :: u64) < 0x80 \<longleftrightarrow> length hdr < 128"
    by (simp add: word_less_nat_alt)
  then show ?thesis
    using assms(1) l
    by (simp add: ldRead_def ReadUvarint_def ReadUvarint_start ReadFull_def PutUvarint_one uvarint_small)
qed

section \<open>What an accepted car file is\<close>

lemma ldRead_Ret:
  assumes "ldRead N r = Ret (Inr (phb, hb), r')"
  shows "ReadUvarint r = (Inr (of_nat (length hb)), r'\<lparr>Bytes := hb @ Bytes r'\<rparr>) \<and>
    phb = uvarint (of_nat (length hb)) \<and> length hb < 128 \<and> Fault r' = Fault r"
proof -
  obtain l bs where l: "ReadUvarint_from 0 0 0 (Bytes r) (at_end r) = (Inr l, bs)"
    using assms by (auto simp: ldRead_def ReadUvarint_def split: prod.splits sum.splits if_splits)
  have *: "hb = take (unat l) bs" "r' = r\<lparr>Bytes := List.drop (unat l) bs\<rparr>"
    "phb = [ucast l]" "l < 0x80" "unat l \<le> length bs"
    using assms l
    by (auto simp: ldRead_def ReadUvarint_def ReadFull_def PutUvarint_one split: if_splits option.splits)
  then have "length hb = unat l" by simp
  then have "of_nat (length hb) = l" "length hb < 128"
    using \<open>l < 0x80\<close> by (simp_all add: word_less_nat_alt)
  with * l show ?thesis by (auto simp: uvarint_small ReadUvarint_def)
qed

lemma validateCarHeader_Ret:
  assumes "validateCarHeader N root r = Ret (Inr r')"
  shows "\<exists>hdr rest. ReadUvarint r = (Inr (of_nat (length hdr)), r\<lparr>Bytes := hdr @ rest\<rparr>) \<and>
    length hdr < 128 \<and> DecodeHeader N hdr = Inr [root] \<and>
    r' = r\<lparr>Bytes := uvarint (of_nat (length hdr)) @ hdr @ rest\<rparr>"
proof -
  obtain phb hb buf roots where ld: "ldRead N r = Ret (Inr (phb, hb), buf)"
    and roots: "DecodeHeader N hb = Inr roots" "length roots = 1" "roots ! 0 = root"
    and r': "r' = buf\<lparr>Bytes := phb @ hb @ Bytes buf\<rparr>"
    using assms
    by (cases "ldRead N r")
      (auto simp: validateCarHeader_def split: sum.split_asm prod.split_asm if_split_asm)
  from roots have "DecodeHeader N hb = Inr [root]"
    by (cases roots) auto
  with ldRead_Ret [OF ld] r' show ?thesis
    by (intro exI [of _ hb] exI [of _ "Bytes buf"]) (auto intro: stream.equality)
qed

text \<open>
  C26: a download that returns without an error has written the whole car file of the server: a
  header that names the payload as its one and only root, behind the shortest encoding of its
  length, and all the blocks that follow. A broken connection, another root or several roots are
  never accepted.
\<close>

theorem written_is_checked:
  assumes "Write N u w = Ret (None, written)"
  shows "\<exists>res hdr rest. SendRequest N (uri u) [] = Inr res \<and> Code res = 200 \<and>
    Fault (AnswerBody res) = None \<and>
    ReadUvarint (AnswerBody res) = (Inr (of_nat (length hdr)), (AnswerBody res)\<lparr>Bytes := hdr @ rest\<rparr>) \<and>
    DecodeHeader N hdr = Inr [uri_cid u] \<and>
    written = uvarint (of_nat (length hdr)) @ hdr @ rest"
proof -
  obtain res where res: "getRequest N u [] = Inr res" "Code res = 200"
    using assms by (auto simp: Write_def split: sum.split_asm if_split_asm)
  obtain r' where v: "validateCarHeader N (uri_cid u) (AnswerBody res) = Ret (Inr r')"
    and w: "Fault r' = None" "written = Bytes r'"
    using assms res
    by (cases "validateCarHeader N (uri_cid u) (AnswerBody res)")
      (auto simp: Write_def split: sum.split_asm prod.split_asm option.split_asm)
  obtain hdr rest where "ReadUvarint (AnswerBody res) =
      (Inr (of_nat (length hdr)), (AnswerBody res)\<lparr>Bytes := hdr @ rest\<rparr>)"
    "DecodeHeader N hdr = Inr [uri_cid u]"
    "r' = (AnswerBody res)\<lparr>Bytes := uvarint (of_nat (length hdr)) @ hdr @ rest\<rparr>"
    using validateCarHeader_Ret [OF v] by blast
  moreover from res have "SendRequest N (uri u) [] = Inr res"
    by (auto simp: getRequest_def split: option.splits sum.splits)
  ultimately show ?thesis using res w by auto
qed

text \<open>
  A uri is made exactly for a payload whose content id parses and a url with the scheme http
  or https; every other scheme is the error \<open>ErrSchemeNotSupported\<close>, and sources without a url are
  refused although the validation of sources accepts them.
\<close>

theorem sources_to_uri:
  assumes "cid_Parse N payloadCid = Inr c"
    and "\<forall>u. CARURL sources = Some u \<longrightarrow> url_Parse N (URLString (URL u)) = Inr (URL u)"
    and "Sources_Validate sources = None"
  shows "NewFromSources N payloadCid sources =
    (case CARURL sources of Some u \<Rightarrow> Inr \<lparr>uri = URLString (URL u), uri_cid = c\<rparr>
     | None \<Rightarrow> Inl (New ''not implemented''))"
  using assms
  by (auto simp: NewFromSources_def NewURI_def Sources_Validate_None usable_sources_def
      split: option.splits)

section \<open>The hypotheses hold\<close>

definition sample_header :: "byte list" where "sample_header = [0x82, 0x01, 0x02]"

text \<open>A network with one car file, whose header names the root.\<close>

definition sample_net :: "byte list \<Rightarrow> net" where
  "sample_net body = \<lparr>cid_Parse = (\<lambda>s. Inr (Cid s)), url_Parse = (\<lambda>s. Inr \<lparr>Scheme = ''https'', URLString = s\<rparr>),
     DecodeHeader = (\<lambda>h. if h = sample_header then Inr [Cid ''root''] else Inl (New ''cbor'')),
     maxAlloc = 1000, BuildRequest = (\<lambda>_. None),
     SendRequest = (\<lambda>_ _. Inr \<lparr>Code = 200, AnswerBody = \<lparr>Bytes = body, Fault = None\<rparr>\<rparr>)\<rparr>"

theorem ldRead_roundtrip_witness:
  "ldRead (sample_net []) \<lparr>Bytes = uvarint (of_nat (length sample_header)) @ sample_header @ [7, 7], Fault = None\<rparr> =
     Ret (Inr (uvarint (of_nat (length sample_header)), sample_header), \<lparr>Bytes = [7, 7], Fault = None\<rparr>) \<and>
   ldRead (sample_net []) \<lparr>Bytes = uvarint (of_nat (length (replicate 140 0))) @ replicate 140 0 @ [], Fault = None\<rparr> =
     Panic ''runtime error: index out of range [1] with length 1''"
  using ldRead_roundtrip [of sample_header "sample_net []" "[7, 7]" None]
    ldRead_roundtrip [of "replicate 140 0" "sample_net []" "[]" None]
  by (simp add: sample_net_def sample_header_def)

theorem written_is_checked_witness:
  "\<exists>hdr rest. ReadUvarint \<lparr>Bytes = [3, 0x82, 1, 2, 9], Fault = None\<rparr> =
      (Inr (of_nat (length hdr)), \<lparr>Bytes = hdr @ rest, Fault = None\<rparr>) \<and> hdr = sample_header \<and>
    uvarint (of_nat (length hdr)) @ hdr @ rest = [3, 0x82, 1, 2, 9]"
proof -
  let ?N = "sample_net [3, 0x82, 1, 2, 9]" and ?u = "\<lparr>uri = ''https://a/b'', uri_cid = Cid ''root''\<rparr>"
  have w: "Write ?N ?u None = Ret (None, [3, 0x82, 1, 2, 9])"
    by (simp add: Write_def getRequest_def validateCarHeader_def ldRead_def ReadUvarint_def ReadFull_def
        PutUvarint_one sample_net_def sample_header_def at_end_def)
  obtain res hdr rest where "SendRequest ?N (uri ?u) [] = Inr res"
    "ReadUvarint (AnswerBody res) = (Inr (of_nat (length hdr)), (AnswerBody res)\<lparr>Bytes := hdr @ rest\<rparr>)"
    "DecodeHeader ?N hdr = Inr [uri_cid ?u]"
    "[3, 0x82, 1, 2, 9] = uvarint (of_nat (length hdr)) @ hdr @ rest"
    using written_is_checked [OF w] by blast
  then show ?thesis
    by (intro exI [of _ hdr] exI [of _ rest]) (auto simp: sample_net_def split: if_splits)
qed

theorem sources_to_uri_witness:
  "NewFromSources (sample_net []) ''root''
      \<lparr>CARURL = Some \<lparr>URL = \<lparr>Scheme = ''https'', URLString = ''https://a/b''\<rparr>\<rparr>, CARIPFS = None\<rparr> =
     Inr \<lparr>uri = ''https://a/b'', uri_cid = Cid ''root''\<rparr> \<and>
   NewFromSources (sample_net []) ''root''
      \<lparr>CARURL = None, CARIPFS = Some \<lparr>IPFSCid = Cid ''c'', Multiaddrs = [''/ip4/10.0.0.1'']\<rparr>\<rparr> =
     Inl (New ''not implemented'')"
  by (rule conjI; subst sources_to_uri [where c = "Cid ''root''"])
    (simp_all add: sample_net_def Sources_Validate_def Defined_def)

end
