(* ===== verification/Cast.thy ===== *)
theory Cast
  imports Datauri
begin

text \<open>
  \<open>lib/cast/cast.go\<close>: the sources of a won auction to and from their protobuf message. A pointer to
  a message is \<open>None\<close> when it is nil; reading a field of a nil message panics. The parsers and
  printers of content ids, urls and multiaddresses are arguments.
\<close>

record pbCARIPFS =
  pbCid :: string
  pbMultiaddrs :: "string list"

record pbSources =
  CarUrl :: "string option"
  CarIpfs :: "pbCARIPFS option"

text \<open>A multiaddress is known by its text, so parsing one gives the text back or an error.\<close>

record texts = net +
  cid_Text :: "cid \<Rightarrow> string"
  NewMultiaddr :: "string \<Rightarrow> go_error + string"

definition SourcesToPb :: "'x texts_scheme \<Rightarrow> Sources \<Rightarrow> pbSources" where
  "SourcesToPb N s = \<lparr>
     CarUrl = map_option (\<lambda>u. URLString (URL u)) (CARURL s),
     CarIpfs = map_option (\<lambda>i. \<lparr>pbCid = cid_Text N (IPFSCid i), pbMultiaddrs = Multiaddrs i\<rparr>) (CARIPFS s)\<rparr>"

fun parseMultiaddrs :: "'x texts_scheme \<Rightarrow> string list \<Rightarrow> string list \<Rightarrow> go_error + string list" where
  "parseMultiaddrs N acc [] = Inr acc"
| "parseMultiaddrs N acc (s # ss) =
     (case NewMultiaddr N s of
        Inl e \<Rightarrow> Inl e
      | Inr addr \<Rightarrow> parseMultiaddrs N (acc @ [addr]) ss)"

definition urlFromPb :: "'x texts_scheme \<Rightarrow> pbSources \<Rightarrow> go_error + CARURL option" where
  "urlFromPb N pbs =
     (case CarUrl pbs of
        None \<Rightarrow> Inr None
      | Some t \<Rightarrow>
          (case url_Parse N t of
             Inl e \<Rightarrow> Inl e
           | Inr u \<Rightarrow> Inr (Some \<lparr>URL = u\<rparr>)))"

definition ipfsFromPb :: "'x texts_scheme \<Rightarrow> pbSources \<Rightarrow> go_error + CARIPFS option" where
  "ipfsFromPb N pbs =
     (case CarIpfs pbs of
        None \<Rightarrow> Inr None
      | Some i \<Rightarrow>
          (case cid_Parse N (pbCid i) of
             Inl e \<Rightarrow> Inl e
           | Inr c \<Rightarrow>
               (case parseMultiaddrs N [] (pbMultiaddrs i) of
                  Inl e \<Rightarrow> Inl e
                | Inr addrs \<Rightarrow> Inr (Some \<lparr>IPFSCid = c, Multiaddrs = addrs\<rparr>))))"

definition SourcesFromPb :: "'x texts_scheme \<Rightarrow> pbSources option \<Rightarrow> (go_error + Sources) go_out" where
  "SourcesFromPb N p =
     (case p of
        None \<Rightarrow> Panic ''runtime error: invalid memory address or nil pointer dereference''
      | Some pbs \<Rightarrow>
          (case urlFromPb N pbs of
             Inl e \<Rightarrow> Ret (Inl e)
           | Inr u \<Rightarrow>
               (case ipfsFromPb N pbs of
                  Inl e \<Rightarrow> Ret (Inl e)
                | Inr i \<Rightarrow> Ret (Inr \<lparr>CARURL = u, CARIPFS = i\<rparr>))))"

lemma parseMultiaddrs_all:
  assumes "\<forall>s \<in> set ss. NewMultiaddr N s = Inr s"
  shows "parseMultiaddrs N acc ss = Inr (acc @ ss)"
  using assms by (induction ss arbitrary: acc) auto

text \<open>
  The parsers read back what the printers wrote, for the url, the content id and the addresses of
  these sources.
\<close>

definition readable :: "'x texts_scheme \<Rightarrow> Sources \<Rightarrow> bool" where
  "readable N s \<longleftrightarrow>
     (case CARURL s of None \<Rightarrow> True | Some u \<Rightarrow> url_Parse N (URLString (URL u)) = Inr (URL u)) \<and>
     (case CARIPFS s of None \<Rightarrow> True
      | Some i \<Rightarrow> cid_Parse N (cid_Text N (IPFSCid i)) = Inr (IPFSCid i) \<and>
          list_all (\<lambda>a. NewMultiaddr N a = Inr a) (Multiaddrs i))"

text \<open>C27: sources that are sent as a message and read back are the same sources.\<close>

theorem sources_roundtrip:
  assumes "readable N s"
  shows "SourcesFromPb N (Some (SourcesToPb N s)) = Ret (Inr s)"
  using assms
  by (cases s) (auto simp: SourcesFromPb_def SourcesToPb_def urlFromPb_def ipfsFromPb_def readable_def
      list_all_iff parseMultiaddrs_all split: option.splits)

text \<open>
  A win whose message has no sources at all makes the conversion panic instead of returning an
  error.
\<close>

lemma nil_sources_panic:
  "SourcesFromPb N None = Panic ''runtime error: invalid memory address or nil pointer dereference''"
  by (simp add: SourcesFromPb_def)

definition sample_texts :: texts where
  "sample_texts = net.extend (sample_net [])
     \<lparr>cid_Text = (\<lambda>c. case c of Undef \<Rightarrow> ''b'' | Cid s \<Rightarrow> s), NewMultiaddr = Inr\<rparr>"

definition sample_sources :: Sources where
  "sample_sources = \<lparr>CARURL = Some \<lparr>URL = \<lparr>Scheme = ''https'', URLString = ''https://a/b''\<rparr>\<rparr>,
     CARIPFS = Some \<lparr>IPFSCid = Cid ''c'', Multiaddrs = [''/ip4/10.0.0.1'', ''/ip4/10.0.0.2'']\<rparr>\<rparr>"

theorem sources_roundtrip_witness:
  "SourcesFromPb sample_texts (Some (SourcesToPb sample_texts sample_sources)) = Ret (Inr sample_sources)"
  by (rule sources_roundtrip)
    (simp add: readable_def sample_texts_def sample_sources_def sample_net_def net.defs)

end
