(* ===== verification/Service.thy ===== *)
theory Service
  imports Fetch_Worker Pricing Cast
begin

text \<open>
  The service of \<open>service/service.go\<close>: its parameters and filters, making a bid in an auction, the
  handlers of won auctions and of proposals, the events it reports, and its start. The limiter is
  shared with the bid store, so it is the store's field in the model. What the auctioneer, the
  chain, Lotus and the libraries answer is an argument of each handler.
\<close>

section \<open>Parameters\<close>

record BidParams =
  StorageProviderID :: string
  WalletAddrSig :: string
  AskPrice :: i64
  VerifiedAskPrice :: i64
  FastRetrieval :: bool
  DealStartWindow :: u64
  DealDataDirectory :: string
  DealDataFetchAttempts :: u32
  DealDataFetchTimeout :: duration
  DiscardOrphanDealsAfter :: duration

text \<open>The calls that try out the data directory.\<close>

record os_calls =
  MkdirAll :: "string \<Rightarrow> go_error option"
  WriteFile :: "string \<Rightarrow> go_error option"
  Remove :: "string \<Rightarrow> go_error option"

text \<open>\<open>fresh\<close> is the text of the new ULID that names the test file.\<close>

definition BidParams_Validate :: "os_calls \<Rightarrow> string \<Rightarrow> BidParams \<Rightarrow> go_error option" where
  "BidParams_Validate os fresh p =
     (if DealStartWindow p = 0 then Some (New ''invalid deal start window; must be greater than zero'')
      else if DealDataFetchAttempts p = 0
        then Some (New ''invalid deal data fetch attempts; must be greater than zero'')
      else if DealDataDirectory p = '''' then Some (New ''invalid deal data directory; must not be empty'')
      else case MkdirAll os (DealDataDirectory p) of
        Some e \<Rightarrow> Some (Wrapv ''initializing data directory'' e)
      | None \<Rightarrow>
          let testFile = path_Join [DealDataDirectory p, fresh] in
          (case WriteFile os testFile of
             Some e \<Rightarrow> Some (Wrapv ''checking write access to data directory'' e)
           | None \<Rightarrow> map_option (Wrapv ''removing data directory write test file'') (Remove os testFile)))"

record MinMaxFilter =
  Min :: u64
  Max :: u64

definition MinMaxFilter_Validate :: "MinMaxFilter \<Rightarrow> go_error option" where
  "MinMaxFilter_Validate f =
     (if Min f > Max f then Some (New ''min must be less than or equal to max'') else None)"

record AuctionFilters =
  DealDuration :: MinMaxFilter
  DealSize :: MinMaxFilter

text \<open>Both checks look at the deal duration, as the code does.\<close>

definition AuctionFilters_Validate :: "AuctionFilters \<Rightarrow> go_error option" where
  "AuctionFilters_Validate f =
     (case MinMaxFilter_Validate (DealDuration f) of
        Some e \<Rightarrow> Some (Wrapv ''invalid deal duration filter'' e)
      | None \<Rightarrow> map_option (Wrapv ''invalid deal size filter'') (MinMaxFilter_Validate (DealDuration f)))"

section \<open>State and surroundings\<close>

record pbBid =
  AuctionId :: string
  StorageProviderId :: string
  BidWalletAddrSig :: string
  BidAskPrice :: i64
  BidVerifiedAskPrice :: i64
  BidStartEpoch :: u64
  BidFastRetrieval :: bool

record WinningBid =
  WinAuctionId :: string
  WinBidId :: string
  Encrypted :: string

record WinningBidProposal =
  PropAuctionId :: string
  PropBidId :: string
  PropProposalCid :: string
  PropDealUid :: string

datatype BidbotEvent =
    EvStartup u64 string bool bool
  | EvUnhealthy string string
  | EvStartFetching string u32
  | EvErrorFetching string u32 string
  | EvStartImporting string u32
  | EvEndImporting string u32 string
  | EvFinalized string
  | EvErrored string string

text \<open>\<open>published\<close> and \<open>events\<close> list the calls of the communication channel, in order.\<close>

record 'd Service =
  store :: "'d Store"
  paused :: "32 word"
  bidParams :: BidParams
  auctionFilters :: AuctionFilters
  sealingSectorsLimit :: int
  pricingRules :: PricingRulesImpl
  pricingRulesStrict :: bool
  published :: "(string \<times> pbBid) list"
  events :: "BidbotEvent list"

text \<open>
  The surroundings of one handler call: the backend of the bid store and the libraries, then what
  is answered to each call. \<open>clock i\<close> is the \<open>i\<close>-th reading of the clock.
\<close>

record ('d, 't, 'v) env =
  backend_of :: "('d, 't, 'v) backend"
  libs_of :: libs
  io_of :: io
  web_of :: web
  texts_of :: texts
  clock :: "nat \<Rightarrow> go_time"
  loaded_in_time :: bool
  json_Auction :: "pbAuction \<Rightarrow> go_error option"
  json_Bid :: "pbBid \<Rightarrow> go_error option"
  CurrentSealingSectors :: "go_error + int"
  PublishBid :: "string \<Rightarrow> pbBid \<Rightarrow> go_error + string"
  Decrypt :: "string \<Rightarrow> go_error + string"
  proto_Confidential :: "string \<Rightarrow> go_error + pbSources option"
  uuid_Parse :: "string \<Rightarrow> go_error option"
  cid_Decode :: "string \<Rightarrow> go_error + cid"

section \<open>Bidding\<close>

definition SetPaused :: "bool \<Rightarrow> 'd Service \<Rightarrow> 'd Service" where
  "SetPaused p s = s\<lparr>paused := (if p then 1 else 0)\<rparr>"

definition isPaused :: "'d Service \<Rightarrow> bool" where
  "isPaused s \<longleftrightarrow> paused s = 1"

text \<open>The error, and the auction a goroutine is started to bid in, if one is.\<close>

definition AuctionsHandler ::
  "('d, 't, 'v) env \<Rightarrow> pbAuction \<Rightarrow> 'd Service \<Rightarrow> go_error option \<times> pbAuction option" where
  "AuctionsHandler E a s =
     (if isPaused s then (None, None)
      else case json_Auction E a of
        Some e \<Rightarrow> (Some (Wrapv ''marshaling json'' e), None)
      | None \<Rightarrow> (None, Some a))"

definition outside :: "string \<Rightarrow> MinMaxFilter \<Rightarrow> string" where
  "outside what f = what @ '' falls outside of the range ['' @ itoa (unat (Min f)) @ '', '' @
     itoa (unat (Max f)) @ '']''"

definition filterAuction :: "go_time \<Rightarrow> AuctionFilters \<Rightarrow> pbAuction \<Rightarrow> string" where
  "filterAuction now f a =
     (if (case EndsAt a of None \<Rightarrow> True | Some t \<Rightarrow> t < now)
        then ''auction ended or has an invalid end time''
      else if pbAuction.DealSize a < Min (DealSize f) \<or> pbAuction.DealSize a > Max (DealSize f)
        then outside ''deal size'' (DealSize f)
      else if pbAuction.DealDuration a < Min (DealDuration f) \<or> pbAuction.DealDuration a > Max (DealDuration f)
        then outside ''deal duration'' (DealDuration f)
      else '''')"

definition tooManySectors :: "('d, 't, 'v) env \<Rightarrow> 'd Service \<Rightarrow> bool" where
  "tooManySectors E s \<longleftrightarrow> sealingSectorsLimit s > 0 \<and>
     (case CurrentSealingSectors E of Inl _ \<Rightarrow> False | Inr n \<Rightarrow> n > sealingSectorsLimit s)"

definition askedPrices :: "BidParams \<Rightarrow> ResolvedPrices \<Rightarrow> i64 \<times> i64" where
  "askedPrices p r =
     (if UnverifiedPriceValid r then UnverifiedPrice r else AskPrice p,
      if VerifiedPriceValid r then VerifiedPrice r else VerifiedAskPrice p)"

definition newBid :: "BidParams \<Rightarrow> pbAuction \<Rightarrow> u64 \<Rightarrow> ResolvedPrices \<Rightarrow> pbBid" where
  "newBid p a startEpoch r = \<lparr>AuctionId = Id a, StorageProviderId = StorageProviderID p,
     BidWalletAddrSig = ''***'', BidAskPrice = fst (askedPrices p r),
     BidVerifiedAskPrice = snd (askedPrices p r), BidStartEpoch = startEpoch,
     BidFastRetrieval = FastRetrieval p\<rparr>"

definition storedBid :: "string \<Rightarrow> pbAuction \<Rightarrow> string \<Rightarrow> cid \<Rightarrow> pbBid \<Rightarrow> Bid" where
  "storedBid i a from c bid = \<lparr>ID = i, AuctionID = Id a, AuctioneerID = from, PayloadCid = c,
     DealSize = pbAuction.DealSize a, DealDuration = pbAuction.DealDuration a,
     ClientAddress = pbAuction.ClientAddress a, BidSources = \<lparr>CARURL = None, CARIPFS = None\<rparr>,
     Status = Unspecified, AskPrice = BidAskPrice bid, VerifiedAskPrice = BidVerifiedAskPrice bid,
     StartEpoch = BidStartEpoch bid, FastRetrieval = BidFastRetrieval bid, ProposalCid = Undef,
     DealUID = '''', DataURIFetchAttempts = 0, CreatedAt = 0, UpdatedAt = 0, ErrorCause = ''''\<rparr>"

text \<open>The second half of \<open>makeBid\<close>: publish the bid and save it.\<close>

definition submitBid ::
  "('d, 't, 'v) env \<Rightarrow> pbAuction \<Rightarrow> string \<Rightarrow> pbBid \<Rightarrow> 'd Service \<Rightarrow> go_error option \<times> 'd Service" where
  "submitBid E a from bid0 s =
     (case json_Bid E bid0 of
        Some e \<Rightarrow> (Some (Wrapv ''marshaling json'' e), s)
      | None \<Rightarrow>
          let bid = bid0\<lparr>BidWalletAddrSig := WalletAddrSig (bidParams s)\<rparr>;
              s1 = s\<lparr>published := published s @ [(BidsTopic (Id a), bid)]\<rparr> in
     (case PublishBid E (BidsTopic (Id a)) bid of
        Inl e \<Rightarrow> (Some (Wrapv ''sending bid'' e), s1)
      | Inr i \<Rightarrow>
     (case cid_Parse (texts_of E) (pbAuction.PayloadCid a) of
        Inl e \<Rightarrow> (Some (Wrapv ''parsing payload cid'' e), s1)
      | Inr c \<Rightarrow>
          (case SaveBid (backend_of E) (libs_of E) (clock E 3) (clock E 4) (storedBid i a from c bid) (store s1) of
             (Some e, st) \<Rightarrow> (Some (Wrapv ''saving bid'' e), s1\<lparr>store := st\<rparr>)
           | (None, st) \<Rightarrow> (None, s1\<lparr>store := st\<rparr>)))))"

definition makeBid ::
  "('d, 't, 'v) env \<Rightarrow> pbAuction \<Rightarrow> string \<Rightarrow> 'd Service \<Rightarrow> go_error option \<times> 'd Service" where
  "makeBid E a from s =
     (if filterAuction (clock E 0) (auctionFilters s) a \<noteq> '''' then (None, s)
      else if tooManySectors E s then (None, s)
      else case HealthCheck (io_of E) (store s) of
        Some e \<Rightarrow> (Some (Wrapv ''store not ready to bid'' e), s)
      | None \<Rightarrow>
     (case GetChainHeight (io_of E) of
        Inl e \<Rightarrow> (Some (Wrapv ''getting chain height'' e), s)
      | Inr currentEpoch \<Rightarrow>
          let startEpoch = DealStartWindow (bidParams s) + currentEpoch in
          if FilEpochDeadline a > 0 \<and> FilEpochDeadline a < startEpoch then (None, s)
          else
     (case PricesFor (web_of E) (clock E 1) (clock E 2) (loaded_in_time E) a (pricingRules s) of
        ((prices, valid), r) \<Rightarrow>
          let s1 = s\<lparr>pricingRules := r\<rparr>;
              prices1 = (if valid then prices else prices\<lparr>AllowBidding := True\<rparr>) in
          if \<not> valid \<and> pricingRulesStrict s then (None, s1)
          else if \<not> AllowBidding prices1 then (None, s1)
          else submitBid E a from (newBid (bidParams s) a startEpoch prices1) s1)))"

section \<open>Won auctions\<close>

definition BidsExpiration :: duration where "BidsExpiration = 10 * minute"

definition errWouldExceedRunningBytesLimit :: go_error where
  "errWouldExceedRunningBytesLimit = Sentinel ''would exceed running bytes limit''"

text \<open>
  The part of \<open>WinsHandler\<close> between the request for tokens and the change of the bid: the sources of
  the message and the check that the data can be fetched.
\<close>

definition winSources :: "('d, 't, 'v) env \<Rightarrow> Bid \<Rightarrow> string \<Rightarrow> (go_error + Sources) go_out" where
  "winSources E b encrypted =
     (case Decrypt E encrypted of
        Inl e \<Rightarrow> Ret (Inl (Wrapv ''decrypting sources'' e))
      | Inr decrypted \<Rightarrow>
     (case proto_Confidential E decrypted of
        Inl e \<Rightarrow> Ret (Inl (Wrapv ''unmarshaling sources'' e))
      | Inr pbs \<Rightarrow> bind_out (SourcesFromPb (texts_of E) pbs) (\<lambda>src. case src of
        Inl e \<Rightarrow> Ret (Inl (Wrapv ''sources from pb'' e))
      | Inr sources \<Rightarrow>
     (case NewFromSources (texts_of E) (cid_String (libs_of E) (Bid.PayloadCid b)) sources of
        Inl e \<Rightarrow> Ret (Inl (Wrapv ''parsing data uri'' e))
      | Inr u \<Rightarrow> bind_out (Validate (texts_of E) u) (\<lambda>v. case v of
        Some e \<Rightarrow> Ret (Inl (Wrapv ''validating data uri'' e))
      | None \<Rightarrow> Ret (Inr sources))))))"

definition withLimiter :: "Limiter \<Rightarrow> 'd Service \<Rightarrow> 'd Service" where
  "withLimiter l s = s\<lparr>store := (store s)\<lparr>bytesLimiter := l\<rparr>\<rparr>"

definition WinsHandler ::
  "('d, 't, 'v) env \<Rightarrow> WinningBid \<Rightarrow> 'd Service \<Rightarrow> (go_error option \<times> 'd Service) go_out" where
  "WinsHandler E wb s =
     (case GetBid (backend_of E) (WinBidId wb) (store s) of
        Inl e \<Rightarrow> Ret (Some (Wrapv ''getting bid'' e), s)
      | Inr b \<Rightarrow>
     (case lim_Request (clock E 0) (clock E 1) (WinAuctionId wb) (Bid.DealSize b) BidsExpiration
            (bytesLimiter (store s)) of
        (granted, l) \<Rightarrow>
          let s1 = withLimiter l s in
          if \<not> granted then Ret (Some errWouldExceedRunningBytesLimit, s1)
          else bind_out (winSources E b (Encrypted wb)) (\<lambda>src. case src of
            Inl e \<Rightarrow> Ret (Some e, s1)
          | Inr sources \<Rightarrow>
              (case SetAwaitingProposalCid (backend_of E) (clock E 2) (WinBidId wb) sources (store s1) of
                 (Some e, st) \<Rightarrow> Ret (Some (Wrapv ''setting awaiting proposal cid'' e), s1\<lparr>store := st\<rparr>)
               | (None, st) \<Rightarrow> Ret (None, s1\<lparr>store := st\<rparr>)))))"

section \<open>Proposals\<close>

definition secureTokens :: "string \<Rightarrow> 'd Service \<Rightarrow> 'd Service" where
  "secureTokens i s = withLimiter (lim_Secure i (bytesLimiter (store s))) s"

definition ProposalsHandler ::
  "('d, 't, 'v) env \<Rightarrow> WinningBidProposal \<Rightarrow> 'd Service \<Rightarrow> go_error option \<times> 'd Service" where
  "ProposalsHandler E prop s =
     (if uuid_Parse E (PropDealUid prop) = None then
        (case SetDealUID (backend_of E) (clock E 0) (PropBidId prop) (PropDealUid prop) (store s) of
           (Some e, st) \<Rightarrow> (Some (Wrapv ''setting deal uuid'' e), s\<lparr>store := st\<rparr>)
         | (None, st) \<Rightarrow> (None, secureTokens (PropAuctionId prop) (s\<lparr>store := st\<rparr>)))
      else
        (case cid_Decode E (PropProposalCid prop) of
           Inl e \<Rightarrow> (Some (Wrapv ''decoding proposal cid'' e), s)
         | Inr pcid \<Rightarrow>
             (case SetProposalCid (backend_of E) (clock E 0) (clock E 1) (PropBidId prop) pcid (store s) of
                (Some e, st) \<Rightarrow> (Some (Wrapv ''setting proposal cid'' e), s\<lparr>store := st\<rparr>)
              | (None, st) \<Rightarrow> (None, secureTokens (PropAuctionId prop) (s\<lparr>store := st\<rparr>)))))"

section \<open>Events\<close>

definition PublishBidbotEvent :: "BidbotEvent \<Rightarrow> 'd Service \<Rightarrow> 'd Service" where
  "PublishBidbotEvent e s = s\<lparr>events := events s @ [e]\<rparr>"

definition reportStartup :: "'d Service \<Rightarrow> 'd Service" where
  "reportStartup s = PublishBidbotEvent
     (EvStartup (DealStartWindow (bidParams s)) (StorageProviderID (bidParams s))
        (pricingRules s \<noteq> EmptyRules) (pricingRulesStrict s)) s"

definition reportUnhealthy :: "go_error \<Rightarrow> 'd Service \<Rightarrow> 'd Service" where
  "reportUnhealthy err s =
     PublishBidbotEvent (EvUnhealthy (StorageProviderID (bidParams s)) (Error err)) s"

text \<open>One tick of the health check's timer.\<close>

definition healthChecks :: "io \<Rightarrow> 'd Service \<Rightarrow> 'd Service" where
  "healthChecks w s =
     (case HealthCheck w (store s) of Some err \<Rightarrow> reportUnhealthy err s | None \<Rightarrow> s)"

text \<open>\<open>service/progress_reporter.go\<close>: the event of each call of the bid store.\<close>

fun progress_event :: "report \<Rightarrow> BidbotEvent" where
  "progress_event (StartFetching i n) = EvStartFetching i n"
| "progress_event (ErrorFetching i n e) = EvErrorFetching i n (Error e)"
| "progress_event (StartImporting i n) = EvStartImporting i n"
| "progress_event (EndImporting i n e) =
     EvEndImporting i n (case e of None \<Rightarrow> '''' | Some err \<Rightarrow> Error err)"
| "progress_event (ReportFinalized i) = EvFinalized i"
| "progress_event (ReportErrored i c) = EvErrored i c"

section \<open>Starting\<close>

record Config =
  ConfBidParams :: BidParams
  ConfAuctionFilters :: AuctionFilters
  ConfBytesLimiter :: Limiter
  ConcurrentImports :: int
  ChunkedDownload :: bool
  SealingSectorsLimit :: int
  ConfPricingRules :: "PricingRulesImpl option"
  ConfPricingRulesStrict :: bool
  ConcurrentDownloads :: nat

text \<open>The calls of the constructor, in order; the channel's id is the peer's.\<close>

record startup =
  NewLibp2pPubsub :: "go_error + string"
  VerifyBidder :: "string \<Rightarrow> string \<Rightarrow> string \<Rightarrow> go_error + bool"
  MarshalPrivateKey :: "go_error + string"
  DecryptionKeyFromBytes :: "string \<Rightarrow> go_error option"

definition NewService ::
  "('d, 't, 'v) env \<Rightarrow> os_calls \<Rightarrow> startup \<Rightarrow> string \<Rightarrow> (nat \<Rightarrow> Bid) \<Rightarrow> Config \<Rightarrow> 'd \<Rightarrow> go_error + 'd Service" where
  "NewService E os up fresh h conf d =
     (let p = ConfBidParams conf in
      case BidParams_Validate os fresh p of
        Some e \<Rightarrow> Inl (Wrapv ''validating bid parameters'' e)
      | None \<Rightarrow>
     (case AuctionFilters_Validate (ConfAuctionFilters conf) of
        Some e \<Rightarrow> Inl (Wrapv ''validating auction filters'' e)
      | None \<Rightarrow>
     (case NewLibp2pPubsub up of
        Inl e \<Rightarrow> Inl (Wrapv ''creating peer'' e)
      | Inr peer \<Rightarrow>
     (case NewStore (backend_of E) (io_of E) (clock E 0) (clock E 1) d (DealDataDirectory p)
             (DealDataFetchAttempts p) (DealDataFetchTimeout p) (ConfBytesLimiter conf)
             (ConcurrentImports conf) (ChunkedDownload conf) (ConcurrentDownloads conf) h of
        Inl e \<Rightarrow> Inl (Wrapv ''creating bid store'' e)
      | Inr st \<Rightarrow>
     (case VerifyBidder up (WalletAddrSig p) peer (StorageProviderID p) of
        Inl e \<Rightarrow> Inl (Wrapv ''verifying StorageProvider ID'' e)
      | Inr False \<Rightarrow> Inl (New ''invalid StorageProvider ID or signature'')
      | Inr True \<Rightarrow>
     (case MarshalPrivateKey up of
        Inl e \<Rightarrow> Inl (Wrapv ''marshaling private key'' e)
      | Inr privKey \<Rightarrow>
     (case DecryptionKeyFromBytes up privKey of
        Some e \<Rightarrow> Inl (Wrapv ''creating decryption key'' e)
      | None \<Rightarrow> Inr \<lparr>store = st, paused = 0, bidParams = p, auctionFilters = ConfAuctionFilters conf,
          sealingSectorsLimit = SealingSectorsLimit conf,
          pricingRules = (case ConfPricingRules conf of None \<Rightarrow> EmptyRules | Some r \<Rightarrow> r),
          pricingRulesStrict = ConfPricingRulesStrict conf, published = [], events = []\<rparr>)))))))"

section \<open>What a bid means\<close>

definition within :: "MinMaxFilter \<Rightarrow> u64 \<Rightarrow> bool" where
  "within f x \<longleftrightarrow> Min f \<le> x \<and> x \<le> Max f"

lemma filterAuction_passes:
  "filterAuction now f a = '''' \<longleftrightarrow> (\<exists>t. EndsAt a = Some t \<and> now \<le> t) \<and>
     within (DealSize f) (pbAuction.DealSize a) \<and> within (DealDuration f) (pbAuction.DealDuration a)"
  by (auto simp: filterAuction_def outside_def within_def not_less split: option.splits)

lemma submitBid_published:
  "published (snd (submitBid E a sender bid s)) = published s \<or>
   published (snd (submitBid E a sender bid s)) =
     published s @ [(BidsTopic (Id a), bid\<lparr>BidWalletAddrSig := WalletAddrSig (bidParams s)\<rparr>)]"
  by (auto simp: submitBid_def Let_def split: option.splits sum.splits prod.splits)

text \<open>The bid that \<open>makeBid\<close> submits, when it gets that far.\<close>

definition bidFor :: "('d, 't, 'v) env \<Rightarrow> pbAuction \<Rightarrow> 'd Service \<Rightarrow> pbBid option" where
  "bidFor E a s =
     (if filterAuction (clock E 0) (auctionFilters s) a \<noteq> '''' \<or> tooManySectors E s \<or>
         HealthCheck (io_of E) (store s) \<noteq> None then None
      else case GetChainHeight (io_of E) of
        Inl e \<Rightarrow> None
      | Inr height \<Rightarrow>
          let startEpoch = DealStartWindow (bidParams s) + height in
          if FilEpochDeadline a > 0 \<and> FilEpochDeadline a < startEpoch then None
          else (case fst (PricesFor (web_of E) (clock E 1) (clock E 2) (loaded_in_time E) a (pricingRules s)) of
              (prices, valid) \<Rightarrow>
                if AllowBidding prices \<or> \<not> valid \<and> \<not> pricingRulesStrict s
                then Some (newBid (bidParams s) a startEpoch prices) else None))"

lemma newBid_allow [simp]: "newBid p a n (r\<lparr>AllowBidding := x\<rparr>) = newBid p a n r"
  by (simp add: newBid_def askedPrices_def)

lemma PricesFor_invalid:
  assumes "PricesFor W now now' in_time a r = ((p, v), r')"
  shows "v \<or> p = noPrices"
  using rules_contract.invalid_is_empty [of W now now' in_time a r p] assms by (cases v) simp_all

lemma makeBid_decides:
  "case bidFor E a s of
     None \<Rightarrow> published (snd (makeBid E a sender s)) = published s \<and> store (snd (makeBid E a sender s)) = store s
   | Some bid \<Rightarrow> \<exists>r. makeBid E a sender s = submitBid E a sender bid (s\<lparr>pricingRules := r\<rparr>)"
proof -
  obtain prices valid r where
    p: "PricesFor (web_of E) (clock E 1) (clock E 2) (loaded_in_time E) a (pricingRules s) = ((prices, valid), r)"
    by (metis prod.exhaust)
  have "valid \<or> \<not> AllowBidding prices"
    using PricesFor_invalid [OF p] by auto
  with p show ?thesis
    by (auto simp: makeBid_def bidFor_def Let_def split: option.splits sum.splits)
qed

lemma makeBid_published:
  assumes "published (snd (makeBid E a sender s)) \<noteq> published s"
  obtains bid r where "bidFor E a s = Some bid"
    "makeBid E a sender s = submitBid E a sender bid (s\<lparr>pricingRules := r\<rparr>)"
    "published (snd (makeBid E a sender s)) =
       published s @ [(BidsTopic (Id a), bid\<lparr>BidWalletAddrSig := WalletAddrSig (bidParams s)\<rparr>)]"
proof (cases "bidFor E a s")
  case None
  with assms makeBid_decides [where E = E and a = a and s = s and sender = sender] show thesis by simp
next
  case (Some bid)
  then obtain r where r: "makeBid E a sender s = submitBid E a sender bid (s\<lparr>pricingRules := r\<rparr>)"
    using makeBid_decides [where E = E and a = a and s = s and sender = sender] by auto
  with assms submitBid_published [of E a sender bid "s\<lparr>pricingRules := r\<rparr>"] Some that show thesis
    by simp
qed

text \<open>
  C8: a bid goes out to an auction only when the auction has not ended, its deal lies in both
  windows of the filters, the store is healthy, the start epoch promised is not after the deadline,
  and the pricing rules allow it or are unavailable and not strict. Its prices are then those of
  the rules, and the configured ones where the rules have none.
\<close>

theorem published_bid_is_allowed:
  assumes "published (snd (makeBid E a sender s)) \<noteq> published s"
  shows "\<exists>bid end_at height prices valid.
    published (snd (makeBid E a sender s)) = published s @ [(BidsTopic (Id a), bid)] \<and>
    EndsAt a = Some end_at \<and> clock E 0 \<le> end_at \<and>
    within (DealSize (auctionFilters s)) (pbAuction.DealSize a) \<and>
    within (DealDuration (auctionFilters s)) (pbAuction.DealDuration a) \<and>
    HealthCheck (io_of E) (store s) = None \<and> \<not> tooManySectors E s \<and>
    GetChainHeight (io_of E) = Inr height \<and> BidStartEpoch bid = DealStartWindow (bidParams s) + height \<and>
    (FilEpochDeadline a = 0 \<or> BidStartEpoch bid \<le> FilEpochDeadline a) \<and>
    fst (PricesFor (web_of E) (clock E 1) (clock E 2) (loaded_in_time E) a (pricingRules s)) = (prices, valid) \<and>
    (if valid then AllowBidding prices else \<not> pricingRulesStrict s \<and> prices = noPrices) \<and>
    (BidAskPrice bid, BidVerifiedAskPrice bid) = askedPrices (bidParams s) prices"
proof -
  obtain bid where b: "bidFor E a s = Some bid"
    and pub: "published (snd (makeBid E a sender s)) =
       published s @ [(BidsTopic (Id a), bid\<lparr>BidWalletAddrSig := WalletAddrSig (bidParams s)\<rparr>)]"
    using makeBid_published [OF assms] by metis
  obtain prices valid r' where
    p: "PricesFor (web_of E) (clock E 1) (clock E 2) (loaded_in_time E) a (pricingRules s) = ((prices, valid), r')"
    by (metis prod.exhaust)
  note PricesFor_invalid [OF p]
  moreover from this have "valid \<or> \<not> AllowBidding prices" by auto
  ultimately obtain height where "filterAuction (clock E 0) (auctionFilters s) a = ''''"
    "\<not> tooManySectors E s" "HealthCheck (io_of E) (store s) = None" "GetChainHeight (io_of E) = Inr height"
    "FilEpochDeadline a = 0 \<or> DealStartWindow (bidParams s) + height \<le> FilEpochDeadline a"
    "if valid then AllowBidding prices else \<not> pricingRulesStrict s \<and> prices = noPrices"
    "bid = newBid (bidParams s) a (DealStartWindow (bidParams s) + height) prices"
    using b p by (auto simp: bidFor_def Let_def not_less word_gt_0 split: if_split_asm sum.split_asm)
  with pub p show ?thesis
    by (auto simp: filterAuction_passes newBid_def)
qed

text \<open>
  C18: when a bid was published and \<open>makeBid\<close> returns without an error, the bid is stored under the
  id the auctioneer gave it, as submitted: with the ids of the auction and of its sender, the payload,
  size, duration and client of the auction, and the two prices, the start epoch and the retrieval
  that were published; when it returns an error, the stored bids are what they were.
\<close>

theorem published_bid_is_saved:
  assumes "bid_backend (backend_of E) vd vt"
    and "represents (Decode (backend_of E)) (vd (db (store s))) m"
    and "\<forall>topic bid i. PublishBid E topic bid = Inr i \<longrightarrow> m i = None"
    and "makeBid E a sender s = (r, s')" and "published s' = published s @ [(topic, bid)]"
  shows "case r of
      Some e \<Rightarrow> represents (Decode (backend_of E)) (vd (db (store s'))) m
    | None \<Rightarrow> \<exists>i c. PublishBid E topic bid = Inr i \<and> cid_Parse (texts_of E) (pbAuction.PayloadCid a) = Inr c \<and>
        represents (Decode (backend_of E)) (vd (db (store s'))) (m(i \<mapsto>
          \<lparr>ID = i, AuctionID = Id a, AuctioneerID = sender, PayloadCid = c, DealSize = pbAuction.DealSize a,
           DealDuration = pbAuction.DealDuration a, ClientAddress = pbAuction.ClientAddress a,
           BidSources = \<lparr>CARURL = None, CARIPFS = None\<rparr>, Status = Submitted, AskPrice = BidAskPrice bid,
           VerifiedAskPrice = BidVerifiedAskPrice bid, StartEpoch = BidStartEpoch bid,
           FastRetrieval = BidFastRetrieval bid, ProposalCid = Undef, DealUID = '''', DataURIFetchAttempts = 0,
           CreatedAt = clock E 3, UpdatedAt = (if IsZero (clock E 4) then clock E 3 else clock E 4), ErrorCause = ''''\<rparr>))"
proof -
  let ?dec = "Decode (backend_of E)"
  from assms(4,5) have "published (snd (makeBid E a sender s)) \<noteq> published s" by simp
  then obtain bid0 r0 where "bidFor E a s = Some bid0"
    and sub: "makeBid E a sender s = submitBid E a sender bid0 (s\<lparr>pricingRules := r0\<rparr>)"
    and "published (snd (makeBid E a sender s)) =
       published s @ [(BidsTopic (Id a), bid0\<lparr>BidWalletAddrSig := WalletAddrSig (bidParams s)\<rparr>)]"
    by (rule makeBid_published)
  with assms(4,5) have b: "topic = BidsTopic (Id a)"
    "bid = bid0\<lparr>BidWalletAddrSig := WalletAddrSig (bidParams s)\<rparr>" by simp_all
  show ?thesis
  proof (cases "\<exists>i c. json_Bid E bid0 = None \<and> PublishBid E topic bid = Inr i \<and>
      cid_Parse (texts_of E) (pbAuction.PayloadCid a) = Inr c")
    case True
    then obtain i c where ok: "json_Bid E bid0 = None" "PublishBid E topic bid = Inr i"
      "cid_Parse (texts_of E) (pbAuction.PayloadCid a) = Inr c" by blast
    let ?b = "storedBid i a sender c bid"
    obtain r1 st where save: "SaveBid (backend_of E) (libs_of E) (clock E 3) (clock E 4) ?b (store s) = (r1, st)"
      by fastforce
    have ID: "ID ?b = i" by (simp add: storedBid_def)
    have "all_or_nothing ?dec (vd (db st)) m r1 (save_spec (libs_of E) (clock E 3) (clock E 4) ?b m)"
      using bid_backend.SaveBid_refines [OF assms(1) save assms(2)] assms(3) ok(2) ID by simp
    moreover have "(r, store s') = (map_option (Wrapv ''saving bid'') r1, st)"
      using assms(4) sub ok save b by (auto simp: submitBid_def Let_def split: option.splits)
    ultimately show ?thesis
      using ok ID by (auto simp: all_or_nothing_def save_spec_def storedBid_def saved_def touch_def split: option.splits)
  next
    case False
    then have "r \<noteq> None \<and> store s' = store s"
      using assms(4) sub b by (auto simp: submitBid_def Let_def split: option.splits sum.splits)
    with assms(2) show ?thesis by (auto split: option.splits)
  qed
qed

text \<open>
  The payload of an auction is parsed only after the bid for it went out. If it does not parse,
  the auctioneer holds a bid that the service does not know: the call ends with an error and the
  bid store is untouched.
\<close>

theorem unparsable_payload_leaves_bid_out:
  assumes "published (snd (makeBid E a sender s)) \<noteq> published s"
    and "cid_Parse (texts_of E) (pbAuction.PayloadCid a) = Inl e"
  shows "fst (makeBid E a sender s) \<noteq> None \<and> store (snd (makeBid E a sender s)) = store s"
proof -
  obtain bid r where "makeBid E a sender s = submitBid E a sender bid (s\<lparr>pricingRules := r\<rparr>)"
    using makeBid_published [OF assms(1)] by metis
  with assms(2) show ?thesis
    by (auto simp: submitBid_def Let_def split: option.splits sum.splits)
qed

text \<open>
  The validation of the auction filters never looks at the window of deal sizes, so a window
  whose ends are swapped passes it, and then no auction at all passes the filter.
\<close>

theorem size_window_is_not_validated:
  assumes "Min (DealSize f) > Max (DealSize f)"
  shows "AuctionFilters_Validate f = AuctionFilters_Validate (f\<lparr>DealSize := g\<rparr>) \<and>
    (\<nexists>now a. filterAuction now f a = '''')"
proof -
  have "\<not> within (DealSize f) x" for x
    using assms by (auto simp: within_def)
  then show ?thesis by (simp add: AuctionFilters_Validate_def filterAuction_passes split: option.split)
qed

section \<open>Surroundings for the witnesses\<close>

definition sample_params :: BidParams where
  "sample_params = \<lparr>StorageProviderID = ''f01234'', WalletAddrSig = ''sig'', AskPrice = 100,
     VerifiedAskPrice = 50, FastRetrieval = True, DealStartWindow = 500, DealDataDirectory = ''/data'',
     DealDataFetchAttempts = 3, DealDataFetchTimeout = minute, DiscardOrphanDealsAfter = minute\<rparr>"

definition sample_service :: "'d \<Rightarrow> 'd Service" where
  "sample_service d = \<lparr>store = sample_store d, paused = 0, bidParams = sample_params,
     auctionFilters = \<lparr>DealDuration = \<lparr>Min = 1, Max = 100\<rparr>, DealSize = \<lparr>Min = 1, Max = 100\<rparr>\<rparr>,
     sealingSectorsLimit = 2, pricingRules = EmptyRules, pricingRulesStrict = False, published = [], events = []\<rparr>"

text \<open>One car file for every download; the payload \<open>root\<close> is the only content id that parses.\<close>

definition sample_env :: "((key \<times> Bid option) list, (key \<times> Bid option) list, Bid option) env" where
  "sample_env = \<lparr>backend_of = mem_backend, libs_of = sample_libs, io_of = sample_io,
     web_of = sample_web 200 ''ok'',
     texts_of = sample_texts\<lparr>cid_Parse := (\<lambda>s. if s = ''root'' then Inr (Cid s) else Inl (New ''cid'')),
       SendRequest := (\<lambda>_ _. Inr \<lparr>Code = 200, AnswerBody = \<lparr>Bytes = [3, 0x82, 1, 2], Fault = None\<rparr>\<rparr>)\<rparr>,
     clock = (\<lambda>i. 1000 + int i), loaded_in_time = True, json_Auction = (\<lambda>_. None), json_Bid = (\<lambda>_. None),
     CurrentSealingSectors = Inr 1, PublishBid = (\<lambda>_ _. Inr ''bid1''),
     Decrypt = Inr, proto_Confidential = (\<lambda>s. if s = ''none'' then Inr None
       else Inr (Some \<lparr>CarUrl = Some ''https://a/b'', CarIpfs = None\<rparr>)),
     uuid_Parse = (\<lambda>s. if s = ''uuid'' then None else Some (New ''invalid UUID'')),
     cid_Decode = (\<lambda>s. Inr (Cid s))\<rparr>"

definition sample_auction :: "string \<Rightarrow> pbAuction" where
  "sample_auction payload = \<lparr>Id = ''auction'', PayloadCid = payload, DealSize = 10, DealDuration = 20,
     EndsAt = Some 2000, FilEpochDeadline = 1500, ClientAddress = ''f0client''\<rparr>"

lemmas sample_service_defs = sample_params_def sample_service_def sample_env_def sample_auction_def

lemma sample_env_simps [simp]:
  "backend_of sample_env = mem_backend" "libs_of sample_env = sample_libs" "io_of sample_env = sample_io"
  "clock sample_env i = 1000 + int i" "json_Bid sample_env bid = None" "Decrypt sample_env = Inr"
  "PublishBid sample_env topic bid = Inr ''bid1''" "CurrentSealingSectors sample_env = Inr 1"
  "cid_Parse (texts_of sample_env) p = (if p = ''root'' then Inr (Cid p) else Inl (New ''cid''))"
  by (simp_all add: sample_env_def)

lemma sample_service_simps [simp]:
  "store (sample_service d) = sample_store d" "bidParams (sample_service d) = sample_params"
  "published (sample_service d) = []" "pricingRules (sample_service d) = EmptyRules"
  by (simp_all add: sample_service_def)

lemma sample_auction_simps [simp]:
  "pbAuction.Id (sample_auction p) = ''auction''" "pbAuction.PayloadCid (sample_auction p) = p"
  by (simp_all add: sample_auction_def)

lemma sample_makeBid:
  "makeBid sample_env (sample_auction p) ''peer'' (sample_service d) =
     submitBid sample_env (sample_auction p) ''peer'' (newBid sample_params (sample_auction p) 1500 noPrices)
       (sample_service d)"
  by (simp add: makeBid_def filterAuction_def tooManySectors_def HealthCheck_def Let_def
      sample_service_defs sample_io_def sample_store_def)

lemma sample_published:
  "\<exists>bid. published (snd (makeBid sample_env (sample_auction p) ''peer'' (sample_service d))) =
     [(BidsTopic ''auction'', bid)] \<and> BidAskPrice bid = 100 \<and> BidVerifiedAskPrice bid = 50"
  unfolding sample_makeBid
  by (simp add: submitBid_def Let_def sample_env_def sample_auction_def sample_service_def newBid_def
      askedPrices_def sample_params_def split: sum.splits prod.splits option.splits)

theorem published_bid_is_allowed_witness:
  "\<exists>bid. published (snd (makeBid sample_env (sample_auction ''root'') ''peer'' (sample_service []))) =
      [(BidsTopic ''auction'', bid)] \<and> BidStartEpoch bid = 1500"
proof -
  have "published (snd (makeBid sample_env (sample_auction ''root'') ''peer'' (sample_service []))) \<noteq>
      published (sample_service [])"
    using sample_published [of "''root''" "[]"] by (auto simp: sample_service_def)
  from published_bid_is_allowed [OF this] show ?thesis
    by (auto simp: sample_service_defs sample_io_def)
qed

theorem unparsable_payload_leaves_bid_out_witness:
  "\<exists>bid. published (snd (makeBid sample_env (sample_auction ''bad'') ''peer'' (sample_service []))) =
      [(BidsTopic ''auction'', bid)] \<and>
    fst (makeBid sample_env (sample_auction ''bad'') ''peer'' (sample_service [])) \<noteq> None"
proof -
  have "published (snd (makeBid sample_env (sample_auction ''bad'') ''peer'' (sample_service []))) \<noteq>
      published (sample_service [])"
    using sample_published [of "''bad''" "[]"] by (auto simp: sample_service_def)
  from unparsable_payload_leaves_bid_out [OF this, of "New ''cid''"] sample_published [of "''bad''" "[]"]
  show ?thesis by (auto simp: sample_env_def sample_auction_def)
qed

theorem published_bid_is_saved_witness:
  "\<exists>s' m'. makeBid sample_env (sample_auction ''root'') ''peer'' (sample_service []) = (None, s') \<and>
     represents (Decode mem_backend) (map_of (db (store s'))) m' \<and>
     (\<exists>b. m' ''bid1'' = Some b \<and> Bid.AskPrice b = 100 \<and> Bid.VerifiedAskPrice b = 50 \<and> Status b = Submitted)"
proof -
  obtain bid where pub: "published (snd (makeBid sample_env (sample_auction ''root'') ''peer'' (sample_service []))) =
      published (sample_service []) @ [(BidsTopic ''auction'', bid)]" and price: "BidAskPrice bid = 100" "BidVerifiedAskPrice bid = 50"
    using sample_published [of "''root''" "[]"] by (auto simp: sample_service_def)
  obtain r s' where eq: "makeBid sample_env (sample_auction ''root'') ''peer'' (sample_service []) = (r, s')"
    by fastforce
  let ?b = "storedBid ''bid1'' (sample_auction ''root'') ''peer'' (Cid ''root'')
    ((newBid sample_params (sample_auction ''root'') 1500 noPrices)\<lparr>BidWalletAddrSig := WalletAddrSig sample_params\<rparr>)"
  have "validate sample_libs ?b = None"
    by (simp add: validate_def storedBid_def newBid_def askedPrices_def noPrices_def sample_params_def
        sample_auction_def sample_libs_def IsZero_def Defined_def)
  then have "fst (SaveBid mem_backend sample_libs 1003 1004 ?b (sample_store [])) = None"
    by (simp add: memb.SaveBid_error [where m = Map.empty] save_spec_def)
  then have "r = None"
    using eq unfolding sample_makeBid
    by (auto simp: submitBid_def Let_def split: prod.splits option.splits)
  with published_bid_is_saved [of sample_env map_of map_of "sample_service []" Map.empty, OF _ _ _ eq] pub eq
  obtain b where rep: "represents (Decode mem_backend) (map_of (db (store s'))) [''bid1'' \<mapsto> b]"
    and b: "Bid.AskPrice b = BidAskPrice bid" "Bid.VerifiedAskPrice b = BidVerifiedAskPrice bid" "Status b = Submitted"
    by (auto simp: memb.bid_backend_axioms)
  moreover have "makeBid sample_env (sample_auction ''root'') ''peer'' (sample_service []) = (None, s')"
    using eq \<open>r = None\<close> by simp
  ultimately show ?thesis
    by (intro exI [of _ s'] exI [of _ "[''bid1'' \<mapsto> b]"]) (simp add: rep b price)
qed

theorem size_window_is_not_validated_witness:
  "AuctionFilters_Validate \<lparr>DealDuration = \<lparr>Min = 1, Max = 2\<rparr>, DealSize = \<lparr>Min = 9, Max = 3\<rparr>\<rparr> = None \<and>
   (\<nexists>now a. filterAuction now \<lparr>DealDuration = \<lparr>Min = 1, Max = 2\<rparr>, DealSize = \<lparr>Min = 9, Max = 3\<rparr>\<rparr> a = '''')"
  using size_window_is_not_validated
    [of "\<lparr>DealDuration = \<lparr>Min = 1, Max = 2\<rparr>, DealSize = \<lparr>Min = 9, Max = 3\<rparr>\<rparr>" "\<lparr>Min = 1, Max = 2\<rparr>"]
  by (simp add: AuctionFilters_Validate_def MinMaxFilter_Validate_def)


end
