(* ===== verification/Store_Machine.thy ===== *)
theory Store_Machine
  imports Fetch_Worker "HOL-Library.Multiset"
begin

text \<open>
  The store while it runs: message handlers, fetch workers, and the goroutine that feeds them,
  interleaved. A step is one handler call or one stretch of a worker between two points where it
  waits. The invariant ties the jobs in the channel and in the workers to the bids stored as being
  fetched, bounds the attempts and the imports, and says that queued bids are never forgotten.
\<close>

section \<open>Machine\<close>

text \<open>Where a worker is with its job.\<close>

datatype phase =
    Downloading
  | Waiting string
  | Importing string
  | Ending BidStatus

record 'd machine =
  mem :: "'d Store"
  busy :: "(nat \<times> phase) list"
  timerArmed :: bool

text \<open>A message handler runs.\<close>

inductive handler ::
  "('d, 't, 'v) backend \<Rightarrow> 'z libs_scheme \<Rightarrow> 'd machine \<Rightarrow> 'd machine \<Rightarrow> bool"
  for B :: "('d, 't, 'v) backend" and L :: "'z libs_scheme" where
  handle_save: "GetBid B (ID b) (mem M) = Inl ErrBidNotFound \<Longrightarrow>
    SaveBid B L now now' b (mem M) = (r, s) \<Longrightarrow> handler B L M (M\<lparr>mem := s\<rparr>)"
| handle_awaiting: "SetAwaitingProposalCid B now i sources (mem M) = (r, s) \<Longrightarrow>
    handler B L M (M\<lparr>mem := s\<rparr>)"
| handle_deal_uid: "SetDealUID B now i uid (mem M) = (r, s) \<Longrightarrow> handler B L M (M\<lparr>mem := s\<rparr>)"
| handle_proposal: "SetProposalCid B now now' i pcid (mem M) = (r, s) \<Longrightarrow> handler B L M (M\<lparr>mem := s\<rparr>)"

text \<open>A worker or the goroutine that feeds the workers moves.\<close>

inductive worker ::
  "('d, 't, 'v) backend \<Rightarrow> 'z libs_scheme \<Rightarrow> 'd machine \<Rightarrow> 'd machine \<Rightarrow> bool"
  for B :: "('d, 't, 'v) backend" and L :: "'z libs_scheme" where
  work_recv: "length (busy M) < chanCap (mem M) \<Longrightarrow> recvJob (mem M) = Some (Some p, s) \<Longrightarrow>
    worker B L M (M\<lparr>mem := s, busy := busy M @ [(p, Downloading)]\<rparr>)"
| work_download: "k < length (busy M) \<Longrightarrow> busy M ! k = (p, Downloading) \<Longrightarrow>
    fetchData L w p (mem M) = (r, s) \<Longrightarrow>
    worker B L M (M\<lparr>mem := s, busy := (busy M)[k := (p, case r of Inl st \<Rightarrow> Ending st | Inr f \<Rightarrow> Waiting f)]\<rparr>)"
| work_acquire: "k < length (busy M) \<Longrightarrow> busy M ! k = (p, Waiting f) \<Longrightarrow> acquire (mem M) = Some s \<Longrightarrow>
    worker B L M (M\<lparr>mem := s, busy := (busy M)[k := (p, Importing f)]\<rparr>)"
| work_import: "k < length (busy M) \<Longrightarrow> busy M ! k = (p, Importing f) \<Longrightarrow>
    importData w now p f (mem M) = (st, s) \<Longrightarrow>
    worker B L M (M\<lparr>mem := s, busy := (busy M)[k := (p, Ending st)]\<rparr>)"
| work_end: "k < length (busy M) \<Longrightarrow> busy M ! k = (p, Ending st) \<Longrightarrow>
    worker B L M (M\<lparr>mem := endJob B now p st (mem M), busy := take k (busy M) @ drop (Suc k) (busy M)\<rparr>)"
| work_tick: "tickCh (mem M) = Suc n \<Longrightarrow>
    worker B L M (M\<lparr>mem := getNext B now now' ((mem M)\<lparr>tickCh := n\<rparr>)\<rparr>)"
| work_timer: "timerArmed M \<Longrightarrow>
    worker B L M (M\<lparr>timerArmed := False, mem := getNext B now now' (mem M)\<rparr>)"

definition step ::
  "('d, 't, 'v) backend \<Rightarrow> 'z libs_scheme \<Rightarrow> 'd machine \<Rightarrow> 'd machine \<Rightarrow> bool" where
  "step B L M M' \<longleftrightarrow> handler B L M M' \<or> worker B L M M'"

inductive reachable ::
  "('d, 't, 'v) backend \<Rightarrow> 'z libs_scheme \<Rightarrow> 'd machine \<Rightarrow> 'd machine \<Rightarrow> bool"
  for B :: "('d, 't, 'v) backend" and L :: "'z libs_scheme" and M0 :: "'d machine" where
  reach_start: "reachable B L M0 M0"
| reach_step: "reachable B L M0 M \<Longrightarrow> step B L M M' \<Longrightarrow> reachable B L M0 M'"

section \<open>Invariant\<close>

definition live :: "'d machine \<Rightarrow> nat list" where
  "live M = jobCh (mem M) @ map fst (busy M)"

text \<open>
  One job for each bid stored as being fetched, no two of them for the same bid or at the same
  address.
\<close>

definition jobs_inv :: "(nat \<Rightarrow> Bid) \<Rightarrow> nat \<Rightarrow> nat list \<Rightarrow> string set \<Rightarrow> bool" where
  "jobs_inv h n ps F \<longleftrightarrow> distinct (map (ID \<circ> h) ps) \<and> set (map (ID \<circ> h) ps) = F \<and>
     (\<forall>p \<in> set ps. p < n \<and> Status (h p) = FetchingData)"

definition jobs_ok :: "(string \<rightharpoonup> Bid) \<Rightarrow> 'd machine \<Rightarrow> bool" where
  "jobs_ok m M \<longleftrightarrow>
     jobs_inv (heap (mem M)) (nextAddr (mem M)) (live M) (with_status m FetchingData)"

definition tries :: "Bid \<Rightarrow> nat" where
  "tries b = unat (DataURIFetchAttempts b)"

text \<open>The first attempt is made even when the configured number is zero.\<close>

definition max_tries :: "'d machine \<Rightarrow> nat" where
  "max_tries M = max 1 (unat (dealDataFetchAttempts (mem M)))"

fun tries_cap :: "nat \<Rightarrow> BidStatus \<Rightarrow> nat" where
  "tries_cap A Finalized = A"
| "tries_cap A Errored = A"
| "tries_cap A QueuedData = A - 1"
| "tries_cap A FetchingData = A - 1"
| "tries_cap A _ = 0"

fun phase_ok :: "nat \<Rightarrow> Bid \<Rightarrow> phase \<Rightarrow> bool" where
  "phase_ok A b (Ending st) = (tries b \<le> tries_cap A st \<and> st \<in> {QueuedData, Finalized, Errored})"
| "phase_ok A b _ = (tries b \<le> A)"

definition tries_ok :: "(string \<rightharpoonup> Bid) \<Rightarrow> 'd machine \<Rightarrow> bool" where
  "tries_ok m M \<longleftrightarrow> (\<forall>b \<in> ran m. tries b \<le> tries_cap (max_tries M) (Status b)) \<and>
     (\<forall>p \<in> set (jobCh (mem M)). tries (heap (mem M) p) \<le> max_tries M - 1) \<and>
     (\<forall>(p, ph) \<in> set (busy M). phase_ok (max_tries M) (heap (mem M) p) ph)"

text \<open>Something will look at the queue again.\<close>

definition queue_ok :: "(string \<rightharpoonup> Bid) \<Rightarrow> 'd machine \<Rightarrow> bool" where
  "queue_ok m M \<longleftrightarrow> (with_status m QueuedData \<noteq> {} \<longrightarrow>
     timerArmed M \<or> 0 < tickCh (mem M) \<or> live M \<noteq> [])"

fun is_importing :: "phase \<Rightarrow> bool" where
  "is_importing (Importing f) = True"
| "is_importing _ = False"

definition importing :: "'d machine \<Rightarrow> nat" where
  "importing M = length (filter (is_importing \<circ> snd) (busy M))"

definition sem_ok :: "'d machine \<Rightarrow> bool" where
  "sem_ok M \<longleftrightarrow> (\<forall>cap cur. semImports (mem M) = Some (cap, cur) \<longrightarrow>
     cur = importing M \<and> cur \<le> cap \<and> 0 < cap)"

definition room_ok :: "'d machine \<Rightarrow> bool" where
  "room_ok M \<longleftrightarrow> 0 < chanCap (mem M) \<and> length (jobCh (mem M)) \<le> chanCap (mem M) \<and>
     length (busy M) \<le> chanCap (mem M) \<and> \<not> ctxDone (mem M)"

definition machine_ok :: "(string \<rightharpoonup> Bid) \<Rightarrow> 'd machine \<Rightarrow> bool" where
  "machine_ok m M \<longleftrightarrow> jobs_ok m M \<and> tries_ok m M \<and> queue_ok m M \<and> sem_ok M \<and> room_ok M"

lemmas ok_defs = machine_ok_def jobs_ok_def tries_ok_def queue_ok_def sem_ok_def room_ok_def

text \<open>The life of a bid.\<close>

definition edges :: "(BidStatus option \<times> BidStatus option) set" where
  "edges = {(None, Some Submitted), (Some Submitted, Some AwaitingProposal),
     (Some AwaitingProposal, Some QueuedData), (Some AwaitingProposal, Some FetchingData),
     (Some AwaitingProposal, Some Finalized), (Some QueuedData, Some FetchingData),
     (Some FetchingData, Some QueuedData), (Some FetchingData, Some Finalized),
     (Some FetchingData, Some Errored)}"

definition evolves :: "(string \<rightharpoonup> Bid) \<Rightarrow> (string \<rightharpoonup> Bid) \<Rightarrow> bool" where
  "evolves m m' \<longleftrightarrow> (\<forall>i. (map_option Status (m i), map_option Status (m' i)) \<in> Id \<union> edges)"

lemma evolves_refl [simp]: "evolves m m"
  by (simp add: evolves_def)

lemma evolves_upd:
  "(map_option Status (m i), Some (Status b)) \<in> Id \<union> edges \<Longrightarrow> evolves m (m(i \<mapsto> b))"
  by (simp add: evolves_def)

lemma evolves_edge: "evolves m m' \<Longrightarrow>
  map_option Status (m' i) = map_option Status (m i) \<or>
  (map_option Status (m i), map_option Status (m' i)) \<in> edges"
  unfolding evolves_def by (metis (no_types) IdD UnE)

section \<open>Preservation\<close>

lemma with_status_upd:
  "with_status (m(i \<mapsto> b)) st =
     (if Status b = st then insert i (with_status m st) else with_status m st - {i})"
  by (auto simp: with_status_def)

lemma ran_upd: "b' \<in> ran (m(i \<mapsto> b)) \<Longrightarrow> b' = b \<or> b' \<in> ran m"
  by (auto simp: ran_def split: if_splits)

lemma ranI_some: "m i = Some b \<Longrightarrow> b \<in> ran m"
  by (auto simp: ran_def)

lemmas view_defs = live_def max_tries_def importing_def

text \<open>A change of the database and of a bid that neither is nor becomes queued or fetched.\<close>

lemma handler_ok:
  assumes "machine_ok m M" "mem' = (mem M)\<lparr>db := d\<rparr>"
    "i \<notin> with_status m QueuedData" "i \<notin> with_status m FetchingData"
    "Status b \<noteq> QueuedData" "Status b \<noteq> FetchingData" "tries b \<le> tries_cap (max_tries M) (Status b)"
  shows "machine_ok (m(i \<mapsto> b)) (M\<lparr>mem := mem'\<rparr>)"
proof -
  have "with_status (m(i \<mapsto> b)) QueuedData = with_status m QueuedData"
    "with_status (m(i \<mapsto> b)) FetchingData = with_status m FetchingData"
    using assms by (auto simp: with_status_upd)
  moreover have "\<forall>c \<in> ran (m(i \<mapsto> b)). tries c \<le> tries_cap (max_tries M) (Status c)"
    using assms(1,7) by (auto simp: machine_ok_def tries_ok_def dest!: ran_upd)
  ultimately show ?thesis
    using assms(1) unfolding assms(2) by (simp add: ok_defs view_defs)
qed

lemma same_db_ok:
  "machine_ok m M \<Longrightarrow> machine_ok m (M\<lparr>mem := (mem M)\<lparr>db := d\<rparr>\<rparr>)"
  by (simp add: ok_defs view_defs)

text \<open>How the jobs change.\<close>

lemma jobs_frame:
  assumes "jobs_inv h n ps F" "\<forall>p \<in> set ps. ID (h' p) = ID (h p) \<and> Status (h' p) = Status (h p)" "n \<le> n'"
  shows "jobs_inv h' n' ps F"
proof -
  have "map (ID \<circ> h') ps = map (ID \<circ> h) ps" using assms(2) by simp
  with assms show ?thesis unfolding jobs_inv_def by (metis less_le_trans)
qed

lemma jobs_perm: "jobs_inv h n ps F \<Longrightarrow> mset qs = mset ps \<Longrightarrow> jobs_inv h n qs F"
  unfolding jobs_inv_def by (metis mset_eq_imp_distinct_iff mset_eq_setD mset_map)

lemma jobs_add:
  assumes "jobs_inv h n ps F" "ID (h n) \<notin> F" "Status (h n) = FetchingData"
  shows "jobs_inv h (Suc n) (n # ps) (insert (ID (h n)) F)"
  using assms by (auto simp: jobs_inv_def)

lemma jobs_remove:
  assumes "jobs_inv h n (p # ps) F"
  shows "jobs_inv h n ps (F - {ID (h p)})"
  using assms by (auto simp: jobs_inv_def) (metis imageI)

text \<open>A bid is enqueued.\<close>

lemma enqueue_jobs_ok:
  assumes "jobs_ok m M" "ID b \<notin> with_status m FetchingData"
  shows "jobs_ok (m(ID b \<mapsto> queued_or_fetching now now' (has_room (mem M)) b))
    (M\<lparr>mem := (enqueued now now' b (mem M))\<lparr>db := d\<rparr>\<rparr>)"
proof -
  let ?n = "nextAddr (mem M)" and ?h = "heap (enqueued now now' b (mem M))" and ?F = "with_status m FetchingData"
  have jobs: "jobs_inv (heap (mem M)) ?n (live M) ?F" using assms(1) by (simp add: jobs_ok_def)
  have "\<forall>p \<in> set (live M). ?h p = heap (mem M) p"
    using jobs by (auto simp: jobs_inv_def enqueued_def)
  then have frame: "jobs_inv ?h n (live M) ?F" if "?n \<le> n" for n
    using jobs_frame [OF jobs, of ?h n] that by simp
  show ?thesis
  proof (cases "has_room (mem M)")
    case True
    then have n: "?h ?n = saved now FetchingData b" by (simp add: enqueued_def queued_or_fetching_def)
    have "jobs_inv ?h (Suc ?n) (?n # live M) (insert (ID b) ?F)"
      using jobs_add [OF frame [of ?n]] assms(2) by (simp add: n)
    then have "jobs_inv ?h (Suc ?n) (jobCh (mem M) @ ?n # map fst (busy M)) (insert (ID b) ?F)"
      by (rule jobs_perm) (simp add: live_def)
    with True show ?thesis
      by (simp add: jobs_ok_def live_def with_status_upd queued_or_fetching_def)
        (simp add: enqueued_def queued_or_fetching_def)
  next
    case False
    then show ?thesis using frame [of "Suc ?n"] assms(2)
      by (simp add: jobs_ok_def live_def with_status_upd queued_or_fetching_def)
        (simp add: enqueued_def queued_or_fetching_def)
  qed
qed

lemma tries_saved [simp]: "tries (saved now st b) = tries b" "tries (touch now b) = tries b"
  "tries (queued_or_fetching now now' r b) = tries b"
  by (simp_all add: tries_def queued_or_fetching_def)

lemma queued_or_fetching_status:
  "Status (queued_or_fetching now now' r b) = (if r then FetchingData else QueuedData)"
  "ID (queued_or_fetching now now' r b) = ID b"
  by (simp_all add: queued_or_fetching_def)

lemma enqueued_simps [simp]:
  "busy (M\<lparr>mem := s\<rparr>) = busy M" "chanCap (enqueued now now' b s) = chanCap s"
  "tickCh (enqueued now now' b s) = tickCh s" "semImports (enqueued now now' b s) = semImports s" "ctxDone (enqueued now now' b s) = ctxDone s"
  "dealDataFetchAttempts (enqueued now now' b s) = dealDataFetchAttempts s"
  "nextAddr (enqueued now now' b s) = Suc (nextAddr s)"
  by (simp_all add: enqueued_def)

lemma enqueue_tries_ok:
  assumes "tries_ok m M" "jobs_ok m M" "tries b \<le> max_tries M - 1"
  shows "tries_ok (m(ID b \<mapsto> queued_or_fetching now now' (has_room (mem M)) b))
    (M\<lparr>mem := (enqueued now now' b (mem M))\<lparr>db := d\<rparr>\<rparr>)"
proof -
  let ?h = "heap (enqueued now now' b (mem M))" and ?b = "queued_or_fetching now now' (has_room (mem M)) b"
  have max: "max_tries (M\<lparr>mem := (enqueued now now' b (mem M))\<lparr>db := d\<rparr>\<rparr>) = max_tries M"
    by (simp add: max_tries_def)
  have "p < nextAddr (mem M)" if "p \<in> set (live M)" for p
    using assms(2) that by (simp add: jobs_ok_def jobs_inv_def)
  then have old: "?h p = heap (mem M) p" if "p \<in> set (live M)" for p
    using that by (fastforce simp: enqueued_def)
  have "\<forall>c \<in> ran (m(ID b \<mapsto> ?b)). tries c \<le> tries_cap (max_tries M) (Status c)"
    using assms(1,3) by (auto simp: tries_ok_def queued_or_fetching_status dest!: ran_upd)
  moreover have "\<forall>p \<in> set (jobCh (enqueued now now' b (mem M))). tries (?h p) \<le> max_tries M - 1"
  proof
    fix p assume "p \<in> set (jobCh (enqueued now now' b (mem M)))"
    then consider "p = nextAddr (mem M)" | "p \<in> set (jobCh (mem M))"
      by (auto simp: enqueued_def split: if_splits)
    then show "tries (?h p) \<le> max_tries M - 1"
    proof cases
      case 1
      then have "?h p = ?b" by (simp add: enqueued_def)
      with assms(3) show ?thesis by simp
    next
      case 2
      with old [of p] assms(1) show ?thesis by (simp add: live_def tries_ok_def)
    qed
  qed
  moreover have "\<forall>(p, ph) \<in> set (busy M). phase_ok (max_tries M) (?h p) ph"
  proof
    fix x assume x: "x \<in> set (busy M)"
    then have "fst x \<in> set (live M)" by (auto simp: live_def)
    with old x assms(1) show "case x of (p, ph) \<Rightarrow> phase_ok (max_tries M) (?h p) ph"
      by (auto simp: tries_ok_def)
  qed
  ultimately show ?thesis by (simp add: tries_ok_def max)
qed

lemma enqueue_ok:
  assumes "jobs_ok m M" "tries_ok m M" "sem_ok M" "room_ok M"
    "ID b \<notin> with_status m FetchingData" "tries b \<le> max_tries M - 1"
  shows "machine_ok (m(ID b \<mapsto> queued_or_fetching now now' (has_room (mem M)) b))
    (M\<lparr>mem := (enqueued now now' b (mem M))\<lparr>db := d\<rparr>\<rparr>)"
proof -
  have "length (jobCh (enqueued now now' b (mem M))) \<le> chanCap (mem M)"
    using assms(4) by (auto simp: enqueued_def has_room_def room_ok_def)
  moreover have "jobCh (enqueued now now' b (mem M)) \<noteq> []"
    using assms(4) by (auto simp: enqueued_def has_room_def room_ok_def)
  moreover note enqueue_jobs_ok [OF assms(1,5), of now now' d] enqueue_tries_ok [OF assms(2,1,6), of now now' d]
  ultimately show ?thesis using assms(3,4)
    by (simp add: machine_ok_def queue_ok_def sem_ok_def room_ok_def live_def importing_def)
qed

text \<open>A worker receives a job.\<close>

lemma live_distinct: "jobs_ok m M \<Longrightarrow> distinct (live M)"
  by (auto simp: jobs_ok_def jobs_inv_def distinct_map)

lemma max_tries_bound: "max_tries M < 2 ^ 32"
  using unsigned_less [of "dealDataFetchAttempts (mem M)"] by (simp add: max_tries_def)

lemma phase_ok_cong: "tries b' = tries b \<Longrightarrow> phase_ok A b' ph = phase_ok A b ph"
  by (cases ph) simp_all

lemma recv_ok:
  assumes "machine_ok m M" "recvJob (mem M) = Some (Some p, s)" "length (busy M) < chanCap (mem M)"
  shows "machine_ok m (M\<lparr>mem := s, busy := busy M @ [(p, Downloading)]\<rparr>)"
proof -
  let ?M = "M\<lparr>mem := s, busy := busy M @ [(p, Downloading)]\<rparr>"
  obtain ps where ps: "jobCh (mem M) = p # ps" and s: "s = set_bid p ((heap (mem M) p)
      \<lparr>DataURIFetchAttempts := DataURIFetchAttempts (heap (mem M) p) + 1\<rparr>) ((mem M)\<lparr>jobCh := ps\<rparr>)"
    using assms(2) by (auto simp: recvJob_def split: list.splits if_splits)
  have ok: "jobs_ok m M" "tries_ok m M" "sem_ok M" "room_ok M" using assms(1) by (simp_all add: machine_ok_def)
  have p: "p \<notin> set ps" "p \<notin> fst ` set (busy M)" using live_distinct [OF ok(1)] by (auto simp: live_def ps)
  have flds: "jobCh s = ps" "chanCap s = chanCap (mem M)" "nextAddr s = nextAddr (mem M)"
    "semImports s = semImports (mem M)" "dealDataFetchAttempts s = dealDataFetchAttempts (mem M)"
    "ctxDone s = ctxDone (mem M)" "\<And>q. q \<noteq> p \<Longrightarrow> heap s q = heap (mem M) q"
    by (simp_all add: s)
  have "jobs_inv (heap s) (nextAddr s) (live M) (with_status m FetchingData)"
    using ok(1) unfolding jobs_ok_def by (rule jobs_frame) (simp_all add: s)
  then have "jobs_inv (heap s) (nextAddr s) (live ?M) (with_status m FetchingData)"
    by (rule jobs_perm) (simp add: live_def ps flds)
  then have "jobs_ok m ?M" by (simp add: jobs_ok_def)
  moreover have "tries_ok m ?M"
  proof -
    have p_tries: "tries (heap (mem M) p) \<le> max_tries M - 1" using ok(2) ps by (simp add: tries_ok_def)
    have "max_tries M \<ge> 1" by (simp add: max_tries_def)
    with p_tries max_tries_bound [of M]
    have "unat (DataURIFetchAttempts (heap (mem M) p) + 1) = tries (heap (mem M) p) + 1"
      by (subst unat_add_no_wrap) (simp_all add: tries_def)
    then have "tries (heap s p) \<le> max_tries M"
      using p_tries \<open>max_tries M \<ge> 1\<close> by (simp add: s tries_def)
    moreover have "max_tries ?M = max_tries M" by (simp add: max_tries_def flds)
    moreover have "q \<noteq> p" if "(q, ph) \<in> set (busy M)" for q ph using p(2) that by force
    then have "\<forall>(q, ph) \<in> set (busy M). phase_ok (max_tries M) (heap s q) ph"
      using ok(2) by (auto simp: tries_ok_def flds(7))
    moreover have "\<forall>q \<in> set ps. tries (heap s q) \<le> max_tries M - 1"
    proof
      fix q assume "q \<in> set ps"
      moreover from this p(1) have "q \<noteq> p" by auto
      ultimately show "tries (heap s q) \<le> max_tries M - 1"
        using ok(2) by (simp add: tries_ok_def flds(7) ps)
    qed
    ultimately show ?thesis using ok(2) by (simp add: tries_ok_def flds(1))
  qed
  ultimately show ?thesis using ok(3,4) assms(3)
    by (simp add: machine_ok_def queue_ok_def sem_ok_def room_ok_def live_def importing_def flds ps)
qed


text \<open>A worker moves on with its job.\<close>

definition keeps :: "nat \<Rightarrow> 'd Store \<Rightarrow> 'd Store \<Rightarrow> bool" where
  "keeps p s s' \<longleftrightarrow> same_rest s s' \<and>
     (\<exists>c. heap s' = (heap s)(p := (heap s p)\<lparr>ErrorCause := c\<rparr>))"

definition verdict :: "'d Store \<Rightarrow> Bid \<Rightarrow> BidStatus \<Rightarrow> bool" where
  "verdict s b st \<longleftrightarrow> st = Finalized \<or> st = Errored \<or>
     st = QueuedData \<and> DataURIFetchAttempts b < dealDataFetchAttempts s"

lemma keeps_same: "same_rest s s' \<Longrightarrow> heap s' = heap s \<Longrightarrow> keeps p s s'"
  unfolding keeps_def by (intro conjI exI [of _ "ErrorCause (heap s p)"]) simp_all

lemma fail_keeps:
  assumes "fail p e imm s = (st, s')"
  shows "keeps p s s'" "verdict s (heap s p) st" "semImports s' = semImports s"
  using fail_outcome [OF assms] by (auto simp: keeps_def verdict_def)

lemma keeps_report: "keeps p (report_to rs s) s' \<Longrightarrow> keeps p s s'"
  by (auto simp: keeps_def same_rest_def)

lemma fetchData_keeps:
  assumes "fetchData L w p s = (r, s')"
  shows "keeps p s s' \<and> semImports s' = semImports s \<and>
    (\<forall>st. r = Inl st \<longrightarrow> verdict s (heap s p) st)"
proof -
  have stopped: ?thesis if "fail p e imm (report_to rs s) = (st, s')" "r = Inl st" for e imm rs st
    using fail_keeps [OF that(1)] that(2) keeps_report [of p rs s s'] by (auto simp: verdict_def)
  consider e imm rs st where "fail p e imm (report_to rs s) = (st, s')" "r = Inl st"
    | rs f where "s' = report_to rs s" "r = Inr f"
  proof -
    let ?e = "case GetChainHeight w of Inr h \<Rightarrow> StartEpoch (heap s p) < h | Inl e \<Rightarrow> False"
    have nil: "report_to [] s = s" by (simp add: report_to_def)
    have two: "report_to xs (report_to ys s) = report_to (ys @ xs) s" for xs ys
      by (simp add: report_to_def)
    show thesis
    proof (cases ?e)
      case True
      then show thesis using that(1) [of _ _ "[]"] assms unfolding nil
        by (auto simp: fetchData_def apfst_def map_prod_def split: prod.splits)
    next
      case False
      then show thesis using that assms
        by (auto simp: fetchData_def Let_def apfst_def map_prod_def two split: prod.splits sum.splits)
    qed
  qed
  then show ?thesis
  proof cases
    case 2
    then show ?thesis by (auto intro!: keeps_same simp: same_rest_def)
  qed (rule stopped)
qed

lemma importData_keeps:
  assumes "importData w now p f s = (st, s')"
  shows "keeps p s s' \<and> semImports s' = semImports (release s) \<and> verdict s (heap s p) st"
proof (cases "ImportData w (ProposalCid (heap s p)) f")
  case None
  with assms show ?thesis
    by (auto simp: importData_def Let_def keeps_def verdict_def same_rest_def set_bid_def report_to_def)
next
  case (Some e)
  then obtain rs where "fail p e False (report_to rs (release s)) = (st, s')"
    using assms by (auto simp: importData_def Let_def)
  from fail_keeps [OF this] show ?thesis by (auto simp: keeps_def verdict_def same_rest_def)
qed

lemma verdict_phase:
  assumes "verdict (mem M) b st" "tries b \<le> max_tries M"
  shows "phase_ok (max_tries M) b (Ending st)"
  using assms by (auto simp: verdict_def tries_def max_tries_def word_less_nat_alt)

lemma map_fst_update: "k < length xs \<Longrightarrow> xs ! k = (p, a) \<Longrightarrow> map fst (xs[k := (p, b)]) = map fst xs"
  by (simp add: map_update list_update_same_conv)

lemma phase_live_ok:
  assumes "machine_ok m M" "k < length (busy M)" "busy M ! k = (p, ph)" "keeps p (mem M) s"
    and "phase_ok (max_tries M) (heap (mem M) p) ph'"
    and "sem_ok (M\<lparr>mem := s, busy := (busy M)[k := (p, ph')]\<rparr>)"
  shows "machine_ok m (M\<lparr>mem := s, busy := (busy M)[k := (p, ph')]\<rparr>)"
proof -
  let ?M = "M\<lparr>mem := s, busy := (busy M)[k := (p, ph')]\<rparr>"
  obtain c where h: "heap s = (heap (mem M))(p := (heap (mem M) p)\<lparr>ErrorCause := c\<rparr>)"
    and rest: "same_rest (mem M) s" using assms(4) by (auto simp: keeps_def)
  have ok: "jobs_ok m M" "tries_ok m M" "queue_ok m M" "room_ok M"
    using assms(1) by (simp_all add: machine_ok_def)
  have live: "live ?M = live M"
    using rest map_fst_update [OF assms(2,3)] by (simp add: live_def same_rest_def)
  have "jobs_inv (heap s) (nextAddr s) (live M) (with_status m FetchingData)"
    using ok(1) unfolding jobs_ok_def
    by (rule jobs_frame) (use rest in \<open>simp_all add: h same_rest_def\<close>)
  then have "jobs_ok m ?M" unfolding jobs_ok_def live by simp
  moreover have tr: "tries (heap s q) = tries (heap (mem M) q)" for q by (simp add: h tries_def)
  then have "phase_ok (max_tries M) (heap s q) x = phase_ok (max_tries M) (heap (mem M) q) x" for q x
    by (rule phase_ok_cong)
  moreover have "max_tries ?M = max_tries M" using rest by (simp add: max_tries_def same_rest_def)
  ultimately have "tries_ok m ?M"
    using ok(2) assms(5) set_update_subset_insert [of "busy M" k "(p, ph')"] rest tr
    by (fastforce simp: tries_ok_def same_rest_def)
  moreover have "queue_ok m ?M" "room_ok ?M"
    using ok(3,4) rest by (simp_all add: queue_ok_def live) (simp_all add: same_rest_def room_ok_def)
  ultimately show ?thesis using \<open>jobs_ok m ?M\<close> assms(6) by (simp add: machine_ok_def)
qed


lemma filter_update:
  "k < length xs \<Longrightarrow> length (filter P (xs[k := x])) + (if P (xs ! k) then 1 else 0) =
     length (filter P xs) + (if P x then 1 else 0)"
proof (induction xs arbitrary: k)
  case (Cons a xs)
  then show ?case by (cases k) auto
qed simp

lemma importing_update:
  assumes "k < length (busy M)" "busy M ! k = (p, ph)"
  shows "importing (M\<lparr>mem := s, busy := (busy M)[k := (p, ph')]\<rparr>) + (if is_importing ph then 1 else 0) =
    importing M + (if is_importing ph' then 1 else 0)"
  using filter_update [OF assms(1), of "is_importing \<circ> snd" "(p, ph')"] assms(2)
  by (simp add: importing_def)

text \<open>A worker ends its job.\<close>

lemma end_ok:
  assumes "machine_ok m M" "k < length (busy M)" "busy M ! k = (p, Ending st)"
    and "mem' = sendTick (set_bid p (saved now st (heap (mem M) p)) ((mem M)\<lparr>db := d\<rparr>))"
  shows "machine_ok (m(ID (heap (mem M) p) \<mapsto> saved now st (heap (mem M) p)))
    (M\<lparr>mem := mem', busy := take k (busy M) @ drop (Suc k) (busy M)\<rparr>)"
proof -
  let ?M = "M\<lparr>mem := mem', busy := take k (busy M) @ drop (Suc k) (busy M)\<rparr>"
  let ?b = "saved now st (heap (mem M) p)" and ?i = "ID (heap (mem M) p)"
  have ok: "jobs_ok m M" "tries_ok m M" "sem_ok M" "room_ok M"
    using assms(1) by (simp_all add: machine_ok_def)
  have split: "busy M = take k (busy M) @ (p, Ending st) # drop (Suc k) (busy M)"
    using id_take_nth_drop [OF assms(2)] assms(3) by simp
  have perm: "mset (p # live ?M) = mset (live M)"
  proof -
    have "mset (map fst (busy M)) = mset (map fst (take k (busy M) @ (p, Ending st) # drop (Suc k) (busy M)))"
      using arg_cong [OF split, of "\<lambda>xs. mset (map fst xs)"] .
    also have "\<dots> = mset (p # map fst (busy ?M))" by simp
    finally show ?thesis by (simp add: live_def assms(4) sendTick_def)
  qed
  have flds: "heap mem' = (heap (mem M))(p := ?b)" "nextAddr mem' = nextAddr (mem M)"
    "jobCh mem' = jobCh (mem M)" "chanCap mem' = chanCap (mem M)" "semImports mem' = semImports (mem M)"
    "dealDataFetchAttempts mem' = dealDataFetchAttempts (mem M)" "ctxDone mem' = ctxDone (mem M)"
    by (simp_all add: assms(4) sendTick_def)
  have tick: "0 < tickCh mem'" using ok(4) by (simp add: assms(4) sendTick_def room_ok_def)
  have ph: "phase_ok (max_tries M) (heap (mem M) p) (Ending st)"
    using ok(2) assms(2,3) unfolding tries_ok_def by (metis (no_types, lifting) case_prodD nth_mem)
  have jobs: "jobs_inv (heap (mem M)) (nextAddr (mem M)) (live ?M) (with_status m FetchingData - {?i})"
    by (rule jobs_remove [OF jobs_perm [OF ok(1) [unfolded jobs_ok_def] perm]])
  have notin: "p \<notin> set (live ?M)"
    using live_distinct [OF ok(1)] mset_eq_imp_distinct_iff [OF perm] by simp
  have "jobs_inv (heap mem') (nextAddr mem') (live ?M) (with_status m FetchingData - {?i})"
    using jobs by (rule jobs_frame) (use notin in \<open>auto simp: flds\<close>)
  moreover have "with_status (m(?i \<mapsto> ?b)) FetchingData = with_status m FetchingData - {?i}"
    using ph by (auto simp: with_status_upd)
  ultimately have "jobs_ok (m(?i \<mapsto> ?b)) ?M" by (simp add: jobs_ok_def)
  moreover have "tries_ok (m(?i \<mapsto> ?b)) ?M"
  proof -
    have max: "max_tries ?M = max_tries M" by (simp add: max_tries_def flds)
    have old: "heap mem' q = heap (mem M) q" if "q \<in> set (live ?M)" for q
      using notin that by (auto simp: flds)
    have "\<forall>c \<in> ran (m(?i \<mapsto> ?b)). tries c \<le> tries_cap (max_tries M) (Status c)"
      using ok(2) ph by (auto simp: tries_ok_def dest!: ran_upd)
    moreover have "\<forall>q \<in> set (jobCh mem'). tries (heap mem' q) \<le> max_tries M - 1"
      using ok(2) old by (simp add: tries_ok_def live_def flds)
    moreover have "phase_ok (max_tries M) (heap mem' q) x" if "(q, x) \<in> set (busy ?M)" for q x
    proof -
      have "(q, x) \<in> set (busy M)" using that by (auto dest: in_set_takeD in_set_dropD)
      moreover have "q \<in> set (live ?M)" using that by (force simp: live_def)
      ultimately show ?thesis using ok(2) old [of q] by (auto simp: tries_ok_def)
    qed
    ultimately show ?thesis by (auto simp: tries_ok_def max)
  qed
  moreover have "sem_ok ?M"
  proof -
    have "importing M = importing ?M"
      unfolding importing_def using arg_cong [OF split, of "\<lambda>xs. length (filter (is_importing \<circ> snd) xs)"]
      by simp
    with ok(3) show ?thesis by (simp add: sem_ok_def flds)
  qed
  moreover have "length (busy ?M) \<le> length (busy M)" using assms(2) by simp
  then have "room_ok ?M" using ok(4) by (simp add: room_ok_def flds)
  ultimately show ?thesis using tick by (simp add: machine_ok_def queue_ok_def)
qed

section \<open>Steps keep the invariant\<close>

lemma commitStore_frame: "commitStore B t s = (r, s') \<Longrightarrow> s' = s\<lparr>db := db s'\<rparr>"
  by (auto simp: commitStore_def split: prod.splits option.splits)

lemma SaveBid_frame: "SaveBid B L now now' b s = (r, s') \<Longrightarrow> s' = s\<lparr>db := db s'\<rparr>"
  by (auto simp: SaveBid_def split: prod.splits option.splits)

lemma SetAwaitingProposalCid_frame:
  "SetAwaitingProposalCid B now i sources s = (r, s') \<Longrightarrow> s' = s\<lparr>db := db s'\<rparr>"
  by (auto simp: SetAwaitingProposalCid_def dest: commitStore_frame
      split: prod.splits option.splits sum.splits if_splits)

lemma SetDealUID_frame: "SetDealUID B now i uid s = (r, s') \<Longrightarrow> s' = s\<lparr>db := db s'\<rparr>"
  by (auto simp: SetDealUID_def dest: commitStore_frame
      split: prod.splits option.splits sum.splits if_splits)

lemma validate_tries: "validate L b = None \<Longrightarrow> tries b = 0"
  by (auto simp: validate_def tries_def split: if_splits option.splits)

lemma tries_stored: "machine_ok m M \<Longrightarrow> m i = Some b \<Longrightarrow> tries b \<le> tries_cap (max_tries M) (Status b)"
  by (auto simp: machine_ok_def tries_ok_def dest: ranI_some)

text \<open>A handler that changed nothing, or one bid that neither was nor is queued or fetched.\<close>

definition settles :: "(string \<rightharpoonup> Bid) \<Rightarrow> 'd machine \<Rightarrow> (string \<rightharpoonup> Bid) \<Rightarrow> bool" where
  "settles m M m' \<longleftrightarrow> m' = m \<or> (\<exists>i b. m' = m(i \<mapsto> b) \<and>
     i \<notin> with_status m QueuedData \<and> i \<notin> with_status m FetchingData \<and>
     Status b \<noteq> QueuedData \<and> Status b \<noteq> FetchingData \<and>
     tries b \<le> tries_cap (max_tries M) (Status b) \<and>
     (map_option Status (m i), Some (Status b)) \<in> edges)"

lemma settles_ok:
  assumes "machine_ok m M" "settles m M m'" "s = (mem M)\<lparr>db := d\<rparr>"
  shows "machine_ok m' (M\<lparr>mem := s\<rparr>) \<and> evolves m m'"
  using assms(2) unfolding settles_def
proof (elim disjE exE conjE)
  assume "m' = m"
  with assms show ?thesis by (simp add: same_db_ok)
next
  fix i b assume m': "m' = m(i \<mapsto> b)" and st: "i \<notin> with_status m QueuedData" "i \<notin> with_status m FetchingData"
    "Status b \<noteq> QueuedData" "Status b \<noteq> FetchingData" "tries b \<le> tries_cap (max_tries M) (Status b)"
    and e: "(map_option Status (m i), Some (Status b)) \<in> edges"
  show ?thesis unfolding m'
    using handler_ok [OF assms(1,3) st] evolves_upd [of m i b] e by simp
qed

lemma all_or_nothing_settles:
  assumes "all_or_nothing dec view m r spec" "fst spec = None \<Longrightarrow> settles m M (snd spec)"
  shows "\<exists>m'. represents dec view m' \<and> settles m M m'"
  using assms by (cases r) (auto simp: all_or_nothing_def settles_def)

lemma save_settles:
  assumes "m (ID b) = None" "fst (save_spec L now now' b m) = None"
  shows "settles m M (snd (save_spec L now now' b m))"
proof -
  have v: "validate L b = None" using assms(2) by (simp add: save_spec_def split: option.splits)
  then have "tries (b\<lparr>CreatedAt := now\<rparr>) = 0" using validate_tries [OF v] by (simp add: tries_def)
  with v assms(1) show ?thesis unfolding settles_def
    by (intro disjI2 exI [of _ "ID b"] exI [of _ "saved now' Submitted (b\<lparr>CreatedAt := now\<rparr>)"])
      (simp add: save_spec_def with_status_def edges_def)
qed

lemma awaiting_settles:
  assumes "machine_ok m M"
  shows "settles m M (snd (awaiting_spec now i sources m))"
proof (cases "Sources_Validate sources = None \<and> i \<in> with_status m Submitted")
  case True
  then obtain b where b: "m i = Some b" "Status b = Submitted" by (auto simp: with_status_def)
  then have "tries b = 0" using tries_stored [OF assms b(1)] by simp
  then have "tries (b\<lparr>BidSources := sources\<rparr>) = 0" by (simp add: tries_def)
  with True b show ?thesis unfolding settles_def
    by (intro disjI2 exI [of _ i] exI [of _ "saved now AwaitingProposal (b\<lparr>BidSources := sources\<rparr>)"])
      (simp add: awaiting_spec_def with_status_def edges_def)
next
  case False
  then have "snd (awaiting_spec now i sources m) = m"
    by (auto simp: awaiting_spec_def with_status_def split: option.splits)
  then show ?thesis by (simp add: settles_def)
qed

lemma deal_uid_settles:
  assumes "machine_ok m M"
  shows "settles m M (snd (deal_uid_spec now i uid m))"
proof (cases "uid \<noteq> '''' \<and> i \<in> with_status m AwaitingProposal")
  case True
  then obtain b where b: "m i = Some b" "Status b = AwaitingProposal" by (auto simp: with_status_def)
  then have "tries b = 0" using tries_stored [OF assms b(1)] by simp
  then have "tries (b\<lparr>DealUID := uid\<rparr>) = 0" by (simp add: tries_def)
  with True b show ?thesis unfolding settles_def
    by (intro disjI2 exI [of _ i] exI [of _ "saved now Finalized (b\<lparr>DealUID := uid\<rparr>)"])
      (simp add: deal_uid_spec_def proposal_spec_def with_status_def edges_def)
next
  case False
  then have "snd (deal_uid_spec now i uid m) = m"
    by (auto simp: deal_uid_spec_def proposal_spec_def with_status_def split: option.splits)
  then show ?thesis by (simp add: settles_def)
qed

context reliable_backend
begin

lemma GetBid_missing:
  assumes "represents (Decode B) (vd (db s)) m" "GetBid B i s = Inl ErrBidNotFound"
  shows "m i = None"
  using assms(2) GetBid_reliable [OF assms(1), of i] by (simp split: option.split_asm)

lemma endJob_total:
  assumes "represents (Decode B) (vd (db s)) m" "consistent m (heap s p) st"
  obtains d where "endJob B now p st s = sendTick (set_bid p (saved now st (heap s p)) (s\<lparr>db := d\<rparr>))"
    "represents (Decode B) (vd d) (m(ID (heap s p) \<mapsto> saved now st (heap s p)))"
proof -
  obtain t where t: "NewTransaction B (db s) = Inr t" "vt t = vd (db s)" by (rule txn_total)
  then have "represents (Decode B) (vt t) m" using assms(1) by simp
  from saveTxn_total [OF this assms(2), of now] obtain t1 where
    t1: "saveTxn B now t (heap s p) st = (None, t1, saved now st (heap s p))"
      "represents (Decode B) (vt t1) (m(ID (heap s p) \<mapsto> saved now st (heap s p)))" .
  obtain d where "TxnCommit B t1 (db s) = (None, d)" using commit_reliable by blast
  with t t1 that [of d] commit_ok [of t1 "db s" d] show thesis
    by (simp add: endJob_def saveAndTransitionStatus_def)
qed

lemma getNext_step:
  assumes "represents (Decode B) (vd (db (mem M))) m" "jobs_ok m M" "tries_ok m M" "sem_ok M" "room_ok M"
    and "with_status m QueuedData = {} \<Longrightarrow> queue_ok m M"
  shows "\<exists>m'. represents (Decode B) (vd (db (getNext B now now' (mem M)))) m' \<and>
    machine_ok m' (M\<lparr>mem := getNext B now now' (mem M)\<rparr>) \<and> evolves m m'"
proof (rule getNext_total [OF assms(1), of now now'])
  assume "with_status m QueuedData = {}" "getNext B now now' (mem M) = mem M"
  with assms show ?thesis by (intro exI [of _ m]) (simp add: machine_ok_def)
next
  fix b d assume b: "m (ID b) = Some b" "least_queued m (ID b)"
    and eq: "getNext B now now' (mem M) = (enqueued now now' b (mem M))\<lparr>db := d\<rparr>"
    and rep: "represents (Decode B) (vd d) (m(ID b \<mapsto> queued_or_fetching now now' (has_room (mem M)) b))"
  have st: "Status b = QueuedData" using b by (auto simp: least_queued_def with_status_def)
  then have "ID b \<notin> with_status m FetchingData" using b(1) by (simp add: with_status_def)
  moreover have "tries b \<le> max_tries M - 1"
    using assms(3) ranI_some [of m, OF b(1)] st by (force simp: tries_ok_def)
  moreover have "evolves m (m(ID b \<mapsto> queued_or_fetching now now' (has_room (mem M)) b))"
    using st b(1) by (intro evolves_upd) (simp add: queued_or_fetching_status edges_def)
  ultimately show ?thesis
    using enqueue_ok [OF assms(2-5), of b now now' d] rep unfolding eq by auto
qed

end

context reliable_backend
begin

lemma proposal_step:
  assumes "represents (Decode B) (vd (db (mem M))) m" "machine_ok m M"
    and "SetProposalCid B now now' i pcid (mem M) = (r, s)"
  shows "\<exists>m'. represents (Decode B) (vd (db s)) m' \<and> machine_ok m' (M\<lparr>mem := s\<rparr>) \<and> evolves m m'"
proof (cases "Defined pcid \<and> i \<in> with_status m AwaitingProposal")
  case True
  then obtain b where b: "m i = Some b" "Status b = AwaitingProposal" by (auto simp: with_status_def)
  let ?b = "b\<lparr>ProposalCid := pcid\<rparr>"
  have ID: "ID ?b = i" using represents_get [OF assms(1) b(1)] by simp
  obtain d where s: "s = (enqueued now now' ?b (mem M))\<lparr>db := d\<rparr>"
    and rep: "represents (Decode B) (vd d) (m(i \<mapsto> queued_or_fetching now now' (has_room (mem M)) ?b))"
    using SetProposalCid_exact [OF assms(1), of pcid i now now'] assms(3) True b
    by (auto simp: proposal_cid_spec_def proposal_spec_def)
  have ok: "jobs_ok m M" "tries_ok m M" "sem_ok M" "room_ok M"
    using assms(2) by (simp_all add: machine_ok_def)
  have "tries b = 0" using tries_stored [OF assms(2) b(1)] b(2) by simp
  then have "tries ?b \<le> max_tries M - 1" by (simp add: tries_def)
  moreover have "ID ?b \<notin> with_status m FetchingData" using b ID by (simp add: with_status_def)
  ultimately have "machine_ok (m(i \<mapsto> queued_or_fetching now now' (has_room (mem M)) ?b)) (M\<lparr>mem := s\<rparr>)"
    using enqueue_ok [OF ok, of ?b now now' d] unfolding s ID by blast
  moreover have "evolves m (m(i \<mapsto> queued_or_fetching now now' (has_room (mem M)) ?b))"
    using b by (intro evolves_upd) (simp add: queued_or_fetching_status edges_def)
  ultimately show ?thesis using rep by (auto simp: s)
next
  case False
  then have "s = mem M" using SetProposalCid_exact [OF assms(1), of pcid i now now'] assms(3) by simp
  with assms(1,2) show ?thesis by (intro exI [of _ m]) simp
qed

lemma settled_step:
  assumes "machine_ok m M" "s = (mem M)\<lparr>db := db s\<rparr>"
    and "\<exists>m'. represents (Decode B) (vd (db s)) m' \<and> settles m M m'"
  shows "\<exists>m'. represents (Decode B) (vd (db s)) m' \<and> machine_ok m' (M\<lparr>mem := s\<rparr>) \<and> evolves m m'"
  using assms(3) settles_ok [OF assms(1) _ assms(2)] by blast

lemma end_step:
  assumes "represents (Decode B) (vd (db (mem M))) m" "machine_ok m M"
    and "k < length (busy M)" "busy M ! k = (p, Ending st)"
  shows "\<exists>m'. represents (Decode B) (vd (db (endJob B now p st (mem M)))) m' \<and>
    machine_ok m' (M\<lparr>mem := endJob B now p st (mem M), busy := take k (busy M) @ drop (Suc k) (busy M)\<rparr>) \<and>
    evolves m m'"
proof -
  have "(p, Ending st) \<in> set (busy M)" using assms(3,4) by (metis nth_mem)
  then have p: "p \<in> set (live M)" and ph: "phase_ok (max_tries M) (heap (mem M) p) (Ending st)"
    using assms(2) by (force simp: live_def, auto simp: machine_ok_def tries_ok_def)
  let ?b = "heap (mem M) p"
  have st: "Status ?b = FetchingData" "ID ?b \<in> with_status m FetchingData"
    using assms(2) p by (auto simp: machine_ok_def jobs_ok_def jobs_inv_def)
  then obtain old where old: "m (ID ?b) = Some old" "Status old = Status ?b" by (auto simp: with_status_def)
  have "consistent m ?b st" using old by (rule consistent_same)
  from endJob_total [OF assms(1) this, of now] obtain d where
    d: "endJob B now p st (mem M) = sendTick (set_bid p (saved now st ?b) ((mem M)\<lparr>db := d\<rparr>))"
      "represents (Decode B) (vd d) (m(ID ?b \<mapsto> saved now st ?b))" .
  moreover have "db (endJob B now p st (mem M)) = d" by (simp add: d(1) sendTick_def)
  moreover have "evolves m (m(ID ?b \<mapsto> saved now st ?b))"
    using old st(1) ph by (intro evolves_upd) (auto simp: edges_def)
  ultimately show ?thesis using end_ok [OF assms(2,3,4) d(1)] by auto
qed

lemma keeps_step:
  assumes "represents (Decode B) (vd (db (mem M))) m" "machine_ok m M" "keeps p (mem M) s"
    and "k < length (busy M)" "busy M ! k = (p, ph)"
    and "phase_ok (max_tries M) (heap (mem M) p) ph'"
    and "sem_ok (M\<lparr>mem := s, busy := (busy M)[k := (p, ph')]\<rparr>)"
  shows "\<exists>m'. represents (Decode B) (vd (db s)) m' \<and>
    machine_ok m' (M\<lparr>mem := s, busy := (busy M)[k := (p, ph')]\<rparr>) \<and> evolves m m'"
  using phase_live_ok [OF assms(2,4,5,3,6,7)] assms(1,3)
  by (intro exI [of _ m]) (simp add: keeps_def same_rest_def)

lemma busy_phase:
  assumes "machine_ok m M" "k < length (busy M)" "busy M ! k = (p, ph)"
  shows "phase_ok (max_tries M) (heap (mem M) p) ph"
  using assms nth_mem [OF assms(2)] by (auto simp: machine_ok_def tries_ok_def)

lemma handler_preserves:
  assumes "handler B L M M'" "represents (Decode B) (vd (db (mem M))) m" "machine_ok m M"
  shows "\<exists>m'. represents (Decode B) (vd (db (mem M'))) m' \<and> machine_ok m' M' \<and> evolves m m'"
  using assms(1)
proof cases
  case (handle_save b now now' r s)
  have "m (ID b) = None" by (rule GetBid_missing [OF assms(2) handle_save(2)])
  from SaveBid_refines [OF handle_save(3) assms(2) this]
  have "\<exists>m'. represents (Decode B) (vd (db s)) m' \<and> settles m M m'"
    by (rule all_or_nothing_settles) (rule save_settles [of m b, OF \<open>m (ID b) = None\<close>])
  from settled_step [OF assms(3) SaveBid_frame [OF handle_save(3)] this]
  show ?thesis unfolding handle_save(1) by simp
next
  case (handle_awaiting now i sources r s)
  from SetAwaitingProposalCid_refines [OF handle_awaiting(2) assms(2)]
  have "\<exists>m'. represents (Decode B) (vd (db s)) m' \<and> settles m M m'"
    by (rule all_or_nothing_settles) (rule awaiting_settles [OF assms(3)])
  from settled_step [OF assms(3) SetAwaitingProposalCid_frame [OF handle_awaiting(2)] this]
  show ?thesis unfolding handle_awaiting(1) by simp
next
  case (handle_deal_uid now i uid r s)
  from SetDealUID_refines [OF handle_deal_uid(2) assms(2)]
  have "\<exists>m'. represents (Decode B) (vd (db s)) m' \<and> settles m M m'"
    by (rule all_or_nothing_settles) (rule deal_uid_settles [OF assms(3)])
  from settled_step [OF assms(3) SetDealUID_frame [OF handle_deal_uid(2)] this]
  show ?thesis unfolding handle_deal_uid(1) by simp
next
  case (handle_proposal now now' i pcid r s)
  from proposal_step [OF assms(2,3) handle_proposal(2)] show ?thesis unfolding handle_proposal(1) by simp
qed

lemma worker_preserves:
  assumes "worker B L M M'" "represents (Decode B) (vd (db (mem M))) m" "machine_ok m M"
  shows "\<exists>m'. represents (Decode B) (vd (db (mem M'))) m' \<and> machine_ok m' M' \<and> evolves m m'"
  using assms(1)
proof cases
  case (work_recv p s)
  have "db s = db (mem M)"
    using work_recv(3) by (auto simp: recvJob_def split: list.splits if_splits)
  with recv_ok [OF assms(3) work_recv(3,2)] assms(2) show ?thesis
    unfolding work_recv(1) by (intro exI [of _ m]) simp
next
  case (work_download k p w r s)
  note keep = fetchData_keeps [OF work_download(4)]
  let ?ph = "case r of Inl st \<Rightarrow> Ending st | Inr f \<Rightarrow> Waiting f"
  have "phase_ok (max_tries M) (heap (mem M) p) ?ph"
    using busy_phase [OF assms(3) work_download(2,3)] keep verdict_phase [of M]
    by (cases r) auto
  moreover have "sem_ok (M\<lparr>mem := s, busy := (busy M)[k := (p, ?ph)]\<rparr>)"
    using importing_update [OF work_download(2,3), where s = s and ph' = ?ph] keep assms(3)
    by (cases r) (simp_all add: machine_ok_def sem_ok_def)
  ultimately show ?thesis
    using keeps_step [OF assms(2,3) _ work_download(2,3), where s = s and ph' = ?ph] keep
    unfolding work_download(1) by simp
next
  case (work_acquire k p f s)
  note acq = acquire_release [OF work_acquire(4)]
  have "sem_ok (M\<lparr>mem := s, busy := (busy M)[k := (p, Importing f)]\<rparr>)"
    using importing_update [OF work_acquire(2,3), where s = s and ph' = "Importing f"] work_acquire(4) assms(3)
    by (auto simp: machine_ok_def sem_ok_def acquire_def split: option.splits if_splits)
  then show ?thesis
    using keeps_step [OF assms(2,3) keeps_same [OF acq(3,4)] work_acquire(2,3), where ph' = "Importing f"]
      busy_phase [OF assms(3) work_acquire(2,3)]
    unfolding work_acquire(1) by simp
next
  case (work_import k p f w now st s)
  note keep = importData_keeps [OF work_import(4)]
  have "phase_ok (max_tries M) (heap (mem M) p) (Ending st)"
    using busy_phase [OF assms(3) work_import(2,3)] keep by (intro verdict_phase) simp_all
  moreover have "sem_ok (M\<lparr>mem := s, busy := (busy M)[k := (p, Ending st)]\<rparr>)"
    using importing_update [OF work_import(2,3), where s = s and ph' = "Ending st"] keep assms(3)
    by (auto simp: machine_ok_def sem_ok_def release_def split: option.splits)
  ultimately show ?thesis
    using keeps_step [OF assms(2,3) _ work_import(2,3), where s = s and ph' = "Ending st"] keep
    unfolding work_import(1) by simp
next
  case (work_end k p st now)
  from end_step [OF assms(2,3) work_end(2,3), of now] show ?thesis unfolding work_end(1) by simp
next
  case (work_tick n now now')
  let ?M = "M\<lparr>mem := (mem M)\<lparr>tickCh := n\<rparr>\<rparr>"
  have ok: "jobs_ok m ?M" "tries_ok m ?M" "sem_ok ?M" "room_ok ?M"
    using assms(3) by (simp_all add: ok_defs view_defs)
  from getNext_step [OF _ ok, of now now'] assms(2) show ?thesis
    unfolding work_tick(1) by (simp add: queue_ok_def)
next
  case (work_timer now now')
  let ?M = "M\<lparr>timerArmed := False\<rparr>"
  have ok: "jobs_ok m ?M" "tries_ok m ?M" "sem_ok ?M" "room_ok ?M"
    using assms(3) by (simp_all add: ok_defs view_defs)
  from getNext_step [OF _ ok, of now now'] assms(2) show ?thesis
    unfolding work_timer(1) by (simp add: queue_ok_def)
qed

end

section \<open>Reachable states\<close>

text \<open>
  A store that \<open>NewStore\<close> returned on contents without an orphaned fetch and with attempts within
  the configured number: a new database, or one left by a store that was stopped in between jobs.
\<close>

definition boots :: "('d, 't, 'v) backend \<Rightarrow> ('d \<Rightarrow> key \<Rightarrow> 'v option) \<Rightarrow> 'd machine \<Rightarrow> bool" where
  "boots B vd M \<longleftrightarrow> busy M = [] \<and> timerArmed M \<and>
     (\<exists>w now now' d dir attempts timeout lim imps chunked conc h m.
        NewStore B w now now' d dir attempts timeout lim imps chunked (Suc conc) h = Inr (mem M) \<and>
        represents (Decode B) (vd d) m \<and> with_status m FetchingData = {} \<and>
        (\<forall>b \<in> ran m. tries b \<le> tries_cap (max_tries M) (Status b)))"

lemma bootsI:
  assumes "NewStore B w now now' d dir attempts timeout lim imps chunked (Suc conc) h = Inr (mem M)"
    and "busy M = []" "timerArmed M" "represents (Decode B) (vd d) m" "with_status m FetchingData = {}"
    and "\<forall>b \<in> ran m. tries b \<le> tries_cap (max_tries M) (Status b)"
  shows "boots B vd M"
  using assms unfolding boots_def by blast

lemma represents_unique:
  assumes "represents dec view m" "represents dec view m'"
  shows "m = m'"
proof
  fix i
  have none: "m i = None \<longleftrightarrow> m' i = None"
    unfolding represents_none [OF assms(1)] represents_none [OF assms(2)] ..
  have eq: "b = b'" if b: "m i = Some b" "m' i = Some b'" for b b'
  proof -
    obtain v where v: "view (ChildString dsPrefix i) = Some v" "dec v = Inr b"
      using represents_get [OF assms(1) b(1)] by blast
    obtain v' where "view (ChildString dsPrefix i) = Some v'" "dec v' = Inr b'"
      using represents_get [OF assms(2) b(2)] by blast
    with v show "b = b'" by simp
  qed
  show "m i = m' i"
  proof (cases "m i")
    case None
    with none show ?thesis by simp
  next
    case (Some b)
    with none obtain b' where "m' i = Some b'" by (cases "m' i") auto
    with eq [OF Some this] Some show ?thesis by simp
  qed
qed

context reliable_backend
begin

lemma boots_idle:
  assumes "boots B vd M"
  shows "\<exists>m. represents (Decode B) (vd (db (mem M))) m \<and> machine_ok m M \<and> live M = []"
proof -
  obtain w now now' d dir attempts timeout lim imps chunked conc h m where
    new: "NewStore B w now now' d dir attempts timeout lim imps chunked (Suc conc) h = Inr (mem M)"
    and m: "represents (Decode B) (vd d) m" "with_status m FetchingData = {}"
    and tries: "\<forall>b \<in> ran m. tries b \<le> tries_cap (max_tries M) (Status b)"
    and M: "busy M = []" "timerArmed M"
    using assms unfolding boots_def by blast
  have "mem M = \<lparr>db = d, bytesLimiter = lim, jobCh = [], tickCh = 0, chanCap = Suc conc,
      dealDataDirectory = dir, dealDataFetchAttempts = attempts, dealDataFetchTimeout = timeout,
      chunkedDownload = chunked, semImports = (if imps > 0 then Some (nat imps, 0) else None),
      ctxDone = False, heap = h, nextAddr = 0, reports = []\<rparr>"
    using new getOrphaned_none [OF _ m(2)] m(1)
    by (auto simp: NewStore_def Let_def split: option.splits prod.splits)
  with m tries M show ?thesis
    by (intro exI [of _ m])
      (simp add: ok_defs jobs_inv_def live_def importing_def split: if_splits)
qed

lemma boots_ok: "boots B vd M \<Longrightarrow> \<exists>m. represents (Decode B) (vd (db (mem M))) m \<and> machine_ok m M"
  using boots_idle by blast

lemma step_preserves:
  assumes "step B L M M'" "represents (Decode B) (vd (db (mem M))) m" "machine_ok m M"
  shows "\<exists>m'. represents (Decode B) (vd (db (mem M'))) m' \<and> machine_ok m' M' \<and> evolves m m'"
  using assms handler_preserves worker_preserves unfolding step_def by blast

lemma reachable_ok:
  assumes "reachable B L M0 M" "boots B vd M0"
  shows "\<exists>m. represents (Decode B) (vd (db (mem M))) m \<and> machine_ok m M"
  using assms(1)
proof induction
  case reach_start
  then show ?case by (rule boots_ok [OF assms(2)])
next
  case (reach_step M M')
  then show ?case using step_preserves by blast
qed

lemma reachable_at:
  assumes "reachable B L M0 M" "boots B vd M0" "represents (Decode B) (vd (db (mem M))) m"
  shows "machine_ok m M"
  using reachable_ok [OF assms(1,2)] represents_unique [OF assms(3)] by blast

end

section \<open>Progress\<close>

text \<open>A worker with a job can always move, or another one that imports can.\<close>

lemma busy_moves:
  assumes "machine_ok m M" "busy M \<noteq> []"
  shows "\<exists>M'. worker B L M M'"
proof -
  have ex: "\<exists>M'. worker B L M M'" if "k < length (busy M)" "busy M ! k = (p, ph)"
    "\<And>f. ph \<noteq> Waiting f" for k p ph
  proof (cases ph)
    case Downloading
    obtain r s where "fetchData L (undefined :: io) p (mem M) = (r, s)" by fastforce
    with Downloading that show ?thesis by (metis work_download)
  next
    case (Importing f)
    obtain st s where "importData (undefined :: io) 0 p f (mem M) = (st, s)" by fastforce
    with Importing that show ?thesis by (metis work_import)
  next
    case (Ending st)
    with that show ?thesis by (metis work_end)
  qed (use that in simp)
  show ?thesis
  proof (cases "\<exists>k p ph. k < length (busy M) \<and> busy M ! k = (p, ph) \<and> (\<forall>f. ph \<noteq> Waiting f)")
    case True
    then show ?thesis using ex by blast
  next
    case False
    then have "filter (is_importing \<circ> snd) (busy M) = []"
      by (auto simp: filter_empty_conv in_set_conv_nth) (metis is_importing.elims(2) phase.distinct(7))
    then have "importing M = 0" by (simp add: importing_def)
    then have "acquire (mem M) \<noteq> None"
      using assms(1) by (auto simp: machine_ok_def sem_ok_def acquire_def split: option.splits)
    then obtain s where s: "acquire (mem M) = Some s" by blast
    obtain p ph where "busy M ! 0 = (p, ph)" by fastforce
    with False assms(2) obtain f where "busy M ! 0 = (p, Waiting f)" by (metis length_greater_0_conv)
    with s assms(2) show ?thesis by (metis work_acquire length_greater_0_conv)
  qed
qed

lemma worker_progress:
  assumes "machine_ok m M" "with_status m QueuedData \<union> with_status m FetchingData \<noteq> {}"
  shows "\<exists>M'. worker B L M M'"
proof (cases "busy M = []")
  case False
  with assms(1) show ?thesis by (rule busy_moves)
next
  case True
  show ?thesis
  proof (cases "jobCh (mem M)")
    case (Cons p ps)
    with True assms(1) have "length (busy M) < chanCap (mem M)" "\<exists>s. recvJob (mem M) = Some (Some p, s)"
      by (auto simp: machine_ok_def room_ok_def recvJob_def)
    then show ?thesis by (metis work_recv)
  next
    case Nil
    with True have "live M = []" by (simp add: live_def)
    moreover from this assms(1) have "with_status m FetchingData = {}"
      by (simp add: machine_ok_def jobs_ok_def jobs_inv_def)
    ultimately have "timerArmed M \<or> 0 < tickCh (mem M)"
      using assms by (auto simp: machine_ok_def queue_ok_def)
    then show ?thesis by (metis work_timer work_tick gr0_implies_Suc)
  qed
qed

section \<open>Draining\<close>

text \<open>
  How much is left to do: ten for every attempt a bid has left, a little for where its job is, one
  for every tick and one for the start timer.
\<close>

fun phase_work :: "phase \<Rightarrow> nat" where
  "phase_work Downloading = 8"
| "phase_work (Waiting f) = 7"
| "phase_work (Importing f) = 6"
| "phase_work (Ending st) = 5"

definition left :: "'d machine \<Rightarrow> Bid \<Rightarrow> nat" where
  "left M b = 10 * (max_tries M - tries b)"

definition queue_work :: "(string \<rightharpoonup> Bid) \<Rightarrow> 'd machine \<Rightarrow> nat" where
  "queue_work m M = (\<Sum>i \<in> with_status m QueuedData. left M (the (m i)) + 1)"

definition chan_work :: "'d machine \<Rightarrow> nat" where
  "chan_work M = sum_list (map (\<lambda>p. left M (heap (mem M) p) - 1) (jobCh (mem M)))"

definition busy_work :: "'d machine \<Rightarrow> nat" where
  "busy_work M = sum_list (map (\<lambda>(p, ph). left M (heap (mem M) p) + phase_work ph) (busy M))"

definition work :: "(string \<rightharpoonup> Bid) \<Rightarrow> 'd machine \<Rightarrow> nat" where
  "work m M = queue_work m M + chan_work M + busy_work M + tickCh (mem M) + (if timerArmed M then 1 else 0)"

lemma left_cong: "max_tries M' = max_tries M \<Longrightarrow> tries b' = tries b \<Longrightarrow> left M' b' = left M b"
  by (simp add: left_def)

lemma chan_work_cong:
  assumes "jobCh (mem M') = jobCh (mem M)" "max_tries M' = max_tries M"
    "\<And>p. p \<in> set (jobCh (mem M)) \<Longrightarrow> tries (heap (mem M') p) = tries (heap (mem M) p)"
  shows "chan_work M' = chan_work M"
  unfolding chan_work_def assms(1) by (intro arg_cong [of _ _ sum_list] map_cong refl) (simp add: left_def assms)

lemma busy_work_cong:
  assumes "busy M' = busy M" "max_tries M' = max_tries M"
    "\<And>p ph. (p, ph) \<in> set (busy M) \<Longrightarrow> tries (heap (mem M') p) = tries (heap (mem M) p)"
  shows "busy_work M' = busy_work M"
  unfolding busy_work_def assms(1)
  by (intro arg_cong [of _ _ sum_list] map_cong refl) (auto simp: left_def assms)

lemma queue_work_cong: "max_tries M' = max_tries M \<Longrightarrow> queue_work m M' = queue_work m M"
  by (simp add: queue_work_def left_def)

text \<open>A job moves on.\<close>

lemma phase_work_less:
  assumes "k < length (busy M)" "busy M ! k = (p, ph)" "keeps p (mem M) s" "phase_work ph' < phase_work ph"
  shows "work m (M\<lparr>mem := s, busy := (busy M)[k := (p, ph')]\<rparr>) < work m M"
proof -
  let ?M = "M\<lparr>mem := s, busy := (busy M)[k := (p, ph')]\<rparr>"
  have rest: "same_rest (mem M) s" and tr: "tries (heap s q) = tries (heap (mem M) q)" for q
    using assms(3) by (auto simp: keeps_def tries_def)
  have max: "max_tries ?M = max_tries M" using rest by (simp add: max_tries_def same_rest_def)
  have eq: "(\<lambda>(p, ph). left ?M (heap s p) + phase_work ph) = (\<lambda>(p, ph). left M (heap (mem M) p) + phase_work ph)"
    (is "_ = ?f") by (auto simp: left_def max tr)
  have "map ?f (busy M) ! k = left M (heap (mem M) p) + phase_work ph" using assms(1,2) by simp
  moreover have "map ?f (busy M) ! k \<le> sum_list (map ?f (busy M))"
    using assms(1) by (intro elem_le_sum_list) simp
  ultimately have "busy_work ?M < busy_work M"
    using assms(1,4) eq by (simp add: busy_work_def map_update sum_list_update)
  moreover have "chan_work ?M = chan_work M"
    using rest by (intro chan_work_cong) (simp_all add: max tr same_rest_def)
  ultimately show ?thesis
    using rest by (simp add: work_def queue_work_cong [OF max] same_rest_def)
qed

lemma recv_work_less:
  assumes "machine_ok m M" "recvJob (mem M) = Some (Some p, s)"
  shows "work m (M\<lparr>mem := s, busy := busy M @ [(p, Downloading)]\<rparr>) < work m M"
proof -
  let ?M = "M\<lparr>mem := s, busy := busy M @ [(p, Downloading)]\<rparr>"
  obtain ps where ps: "jobCh (mem M) = p # ps" and s: "s = set_bid p ((heap (mem M) p)
      \<lparr>DataURIFetchAttempts := DataURIFetchAttempts (heap (mem M) p) + 1\<rparr>) ((mem M)\<lparr>jobCh := ps\<rparr>)"
    using assms(2) by (auto simp: recvJob_def split: list.splits if_splits)
  have ok: "jobs_ok m M" "tries_ok m M" using assms(1) by (simp_all add: machine_ok_def)
  have max: "max_tries ?M = max_tries M" by (simp add: max_tries_def s)
  have A: "1 \<le> max_tries M" "tries (heap (mem M) p) \<le> max_tries M - 1"
    using ok(2) ps by (simp_all add: tries_ok_def max_tries_def)
  with max_tries_bound [of M] have inc: "tries (heap s p) = tries (heap (mem M) p) + 1"
    by (simp add: s tries_def unat_add_no_wrap)
  have p: "p \<notin> set ps" "p \<notin> fst ` set (busy M)" using live_distinct [OF ok(1)] by (auto simp: live_def ps)
  have old: "heap s q = heap (mem M) q" if "q \<noteq> p" for q using that by (simp add: s)
  have "chan_work ?M = sum_list (map (\<lambda>q. left M (heap (mem M) q) - 1) ps)"
    unfolding chan_work_def using p(1) max
    by (intro arg_cong [of _ _ sum_list] map_cong) (auto simp: s left_def)
  then have "chan_work M = left M (heap (mem M) p) - 1 + chan_work ?M" by (simp add: chan_work_def ps)
  moreover have "busy_work ?M = busy_work M + (left ?M (heap s p) + 8)"
  proof -
    have "sum_list (map (\<lambda>(q, ph). left ?M (heap s q) + phase_work ph) (busy M)) = busy_work M"
      unfolding busy_work_def using p(2) old max
      by (intro arg_cong [of _ _ sum_list] map_cong refl) (force simp: left_def)
    then show ?thesis by (simp add: busy_work_def)
  qed
  moreover have "left ?M (heap s p) + 10 = left M (heap (mem M) p)"
    using A inc by (simp add: left_def max)
  moreover have "tickCh s = tickCh (mem M)" by (simp add: s)
  ultimately show ?thesis by (simp add: work_def queue_work_cong [OF max])
qed


lemma queue_upd_out:
  assumes "finite (with_status m QueuedData)" "i \<notin> with_status m QueuedData" "max_tries M' = max_tries M"
    "Status b = QueuedData"
  shows "queue_work (m(i \<mapsto> b)) M' = queue_work m M + (left M b + 1)"
proof -
  have "(\<Sum>j \<in> with_status m QueuedData. left M' (the ((m(i \<mapsto> b)) j)) + 1) = queue_work m M"
    unfolding queue_work_def using assms(2,3) by (intro sum.cong) (auto simp: left_def)
  then show ?thesis
    using assms by (simp add: queue_work_def with_status_upd left_def)
qed

lemma queue_upd_gone:
  assumes "finite (with_status m QueuedData)" "m i = Some b" "Status b = QueuedData"
    "max_tries M' = max_tries M" "Status b' \<noteq> QueuedData"
  shows "queue_work (m(i \<mapsto> b')) M' + (left M b + 1) = queue_work m M"
proof -
  have i: "i \<in> with_status m QueuedData" using assms(2,3) by (simp add: with_status_def)
  have "queue_work (m(i \<mapsto> b')) M' = (\<Sum>j \<in> with_status m QueuedData - {i}. left M (the (m j)) + 1)"
    unfolding queue_work_def with_status_upd using assms(4,5)
    by (simp add: left_def)
  then show ?thesis
    using sum.remove [OF assms(1) i, of "\<lambda>j. left M (the (m j)) + 1"] assms(2)
    by (simp add: queue_work_def)
qed

lemma queue_upd_same:
  assumes "Status b = QueuedData \<longleftrightarrow> Status b' = QueuedData" "m i = Some b" "tries b' = tries b"
    "max_tries M' = max_tries M"
  shows "queue_work (m(i \<mapsto> b')) M' = queue_work m M"
proof -
  have "with_status (m(i \<mapsto> b')) QueuedData = with_status m QueuedData"
    using assms(1,2) by (auto simp: with_status_def)
  then show ?thesis
    unfolding queue_work_def using assms(2-4) by (intro sum.cong) (auto simp: left_def)
qed

lemma end_work_less:
  assumes "machine_ok m M" "k < length (busy M)" "busy M ! k = (p, Ending st)"
    and "mem' = sendTick (set_bid p (saved now st (heap (mem M) p)) ((mem M)\<lparr>db := d\<rparr>))"
    and "finite (with_status m QueuedData)"
  shows "work (m(ID (heap (mem M) p) \<mapsto> saved now st (heap (mem M) p)))
    (M\<lparr>mem := mem', busy := take k (busy M) @ drop (Suc k) (busy M)\<rparr>) < work m M"
proof -
  let ?M = "M\<lparr>mem := mem', busy := take k (busy M) @ drop (Suc k) (busy M)\<rparr>"
  let ?b = "heap (mem M) p" and ?f = "\<lambda>(p, ph). left M (heap (mem M) p) + phase_work ph"
  have ok: "jobs_ok m M" "tries_ok m M" using assms(1) by (simp_all add: machine_ok_def)
  have flds: "heap mem' = (heap (mem M))(p := saved now st ?b)" "jobCh mem' = jobCh (mem M)"
    "dealDataFetchAttempts mem' = dealDataFetchAttempts (mem M)" "tickCh mem' \<le> tickCh (mem M) + 1"
    by (simp_all add: assms(4) sendTick_def)
  have max: "max_tries ?M = max_tries M" by (simp add: max_tries_def flds)
  have tr: "tries (heap mem' q) = tries (heap (mem M) q)" for q by (simp add: flds)
  have chan: "chan_work ?M = chan_work M"
    by (rule chan_work_cong) (simp_all add: flds(2) max tr)
  have split: "busy M = take k (busy M) @ (p, Ending st) # drop (Suc k) (busy M)"
    using id_take_nth_drop [OF assms(2)] assms(3) by simp
  have f: "(\<lambda>(p, ph). left ?M (heap mem' p) + phase_work ph) = ?f" by (auto simp: left_def max tr)
  have "busy_work M = sum_list (map ?f (take k (busy M) @ (p, Ending st) # drop (Suc k) (busy M)))"
    unfolding busy_work_def using split by (rule arg_cong)
  then have busy: "busy_work M = busy_work ?M + (left M ?b + 5)"
    by (simp add: busy_work_def f)
  have "(p, Ending st) \<in> set (busy M)" using assms(2,3) by (metis nth_mem)
  then have p: "p \<in> set (live M)" and ph: "phase_ok (max_tries M) ?b (Ending st)"
    using ok(2) by (force simp: live_def, auto simp: tries_ok_def)
  then have F: "ID ?b \<in> with_status m FetchingData" using ok(1) by (auto simp: jobs_ok_def jobs_inv_def)
  then have notQ: "ID ?b \<notin> with_status m QueuedData" by (auto simp: with_status_def)
  obtain old where old: "m (ID ?b) = Some old" "Status old = FetchingData" using F by (auto simp: with_status_def)
  have "queue_work (m(ID ?b \<mapsto> saved now st ?b)) ?M \<le> queue_work m M + (left M ?b + 1)"
  proof (cases "st = QueuedData")
    case True
    then show ?thesis
      using queue_upd_out [OF assms(5) notQ max, of "saved now st ?b"] by (simp add: left_def)
  next
    case False
    then have "with_status (m(ID ?b \<mapsto> saved now st ?b)) QueuedData = with_status m QueuedData"
      using notQ by (simp add: with_status_upd)
    moreover have "(\<Sum>j \<in> with_status m QueuedData. left ?M (the ((m(ID ?b \<mapsto> saved now st ?b)) j)) + 1) =
        queue_work m M"
      unfolding queue_work_def using notQ by (intro sum.cong) (auto simp: left_def max)
    ultimately show ?thesis by (simp add: queue_work_def)
  qed
  with chan busy flds(4) show ?thesis by (simp add: work_def)
qed

context reliable_backend
begin

lemma finite_queued: "represents (Decode B) (vd d) m \<Longrightarrow> finite (with_status m QueuedData)"
proof -
  assume rep: "represents (Decode B) (vd d) m"
  obtain t where "vt t = vd d" by (rule txn_total)
  with rep have "represents (Decode B) (vt t) m" "indexed (vt t) m dsQueuedPrefix QueuedData"
    by (simp_all add: represents_def)
  from index_results [OF this, of 0] show ?thesis by (metis List.finite_set)
qed

text \<open>Feeding a worker never adds work.\<close>

lemma getNext_work:
  assumes "represents (Decode B) (vd (db (mem M))) m" "tries_ok m M" "jobs_ok m M"
    and "represents (Decode B) (vd (db (getNext B now now' (mem M)))) m'"
  shows "work m' (M\<lparr>mem := getNext B now now' (mem M)\<rparr>) \<le> work m M"
proof (rule getNext_total [OF assms(1), of now now'])
  assume "getNext B now now' (mem M) = mem M"
  with assms(1,4) show ?thesis using represents_unique [of "Decode B"] by fastforce
next
  fix b d assume b: "m (ID b) = Some b" "least_queued m (ID b)"
    and eq: "getNext B now now' (mem M) = (enqueued now now' b (mem M))\<lparr>db := d\<rparr>"
    and rep: "represents (Decode B) (vd d) (m(ID b \<mapsto> queued_or_fetching now now' (has_room (mem M)) b))"
  let ?s = "(enqueued now now' b (mem M))\<lparr>db := d\<rparr>" and ?c = "queued_or_fetching now now' (has_room (mem M)) b"
  let ?M = "M\<lparr>mem := ?s\<rparr>"
  have m': "m' = m(ID b \<mapsto> ?c)" using assms(4) rep represents_unique unfolding eq by fastforce
  have st: "Status b = QueuedData" using b by (auto simp: least_queued_def with_status_def)
  have max: "max_tries ?M = max_tries M" by (simp add: max_tries_def)
  have tb: "tries b \<le> max_tries M - 1" using assms(2) ranI_some [of m, OF b(1)] st
    by (force simp: tries_ok_def)
  have old: "heap ?s q = heap (mem M) q" if "q \<in> set (live M)" for q
    using assms(3) that by (auto simp: jobs_ok_def jobs_inv_def enqueued_def)
  have busy: "busy_work ?M = busy_work M"
  proof (rule busy_work_cong)
    fix p ph assume "(p, ph) \<in> set (busy M)"
    then have "p \<in> set (live M)" by (force simp: live_def)
    with old show "tries (heap (mem ?M) p) = tries (heap (mem M) p)" by simp
  qed (simp_all add: max)
  show ?thesis
  proof (cases "has_room (mem M)")
    case True
    have "queue_work m' ?M + (left M b + 1) = queue_work m M"
      unfolding m' using finite_queued [OF assms(1)] b(1) st True max
      by (intro queue_upd_gone) (simp_all add: queued_or_fetching_status)
    moreover have "chan_work ?M = chan_work M + (left M b - 1)"
    proof -
      have "sum_list (map (\<lambda>q. left ?M (heap ?s q) - 1) (jobCh (mem M))) = chan_work M"
        unfolding chan_work_def using old by (intro arg_cong [of _ _ sum_list] map_cong refl)
          (simp add: left_def max live_def)
      moreover have "tries (heap ?s (nextAddr (mem M))) = tries b" by (simp add: enqueued_def)
      then have "left ?M (heap ?s (nextAddr (mem M))) = left M b" by (rule left_cong [OF max])
      moreover have "jobCh ?s = jobCh (mem M) @ [nextAddr (mem M)]" using True by (simp add: enqueued_def)
      ultimately show ?thesis by (simp add: chan_work_def)
    qed
    ultimately show ?thesis using busy unfolding eq by (simp add: work_def)
  next
    case False
    have "queue_work m' ?M = queue_work m M"
      unfolding m' using b(1) st False max
      by (intro queue_upd_same) (simp_all add: queued_or_fetching_status)
    moreover have "chan_work ?M = chan_work M"
    proof (rule chan_work_cong)
      show "jobCh (mem ?M) = jobCh (mem M)" using False by (simp add: enqueued_def)
      fix p assume "p \<in> set (jobCh (mem M))"
      with old show "tries (heap (mem ?M) p) = tries (heap (mem M) p)" by (simp add: live_def)
    qed (simp_all add: max)
    ultimately show ?thesis using busy unfolding eq by (simp add: work_def)
  qed
qed

lemma worker_work_less:
  assumes "worker B L M M'" "represents (Decode B) (vd (db (mem M))) m" "machine_ok m M"
    and "represents (Decode B) (vd (db (mem M'))) m'"
  shows "work m' M' < work m M"
  using assms(1)
proof cases
  case (work_recv p s)
  have "db s = db (mem M)"
    using work_recv(3) by (auto simp: recvJob_def split: list.splits if_splits)
  then have "m' = m" using assms(2,4) represents_unique unfolding work_recv(1) by fastforce
  with recv_work_less [OF assms(3) work_recv(3)] show ?thesis unfolding work_recv(1) by simp
next
  case (work_download k p w r s)
  have k: "keeps p (mem M) s" using fetchData_keeps [OF work_download(4)] by blast
  then have "m' = m" using assms(2,4) represents_unique unfolding work_download(1)
    by (fastforce simp: keeps_def same_rest_def)
  then show ?thesis unfolding work_download(1)
    using phase_work_less [OF work_download(2,3) k, of "case r of Inl st \<Rightarrow> Ending st | Inr f \<Rightarrow> Waiting f" m]
    by (cases r) simp_all
next
  case (work_acquire k p f s)
  have k: "keeps p (mem M) s" using acquire_release [OF work_acquire(4)] by (auto intro: keeps_same)
  then have "m' = m" using assms(2,4) represents_unique unfolding work_acquire(1)
    by (fastforce simp: keeps_def same_rest_def)
  then show ?thesis unfolding work_acquire(1)
    using phase_work_less [OF work_acquire(2,3) k, of "Importing f" m] by simp
next
  case (work_import k p f w now st s)
  have k: "keeps p (mem M) s" using importData_keeps [OF work_import(4)] by blast
  then have "m' = m" using assms(2,4) represents_unique unfolding work_import(1)
    by (fastforce simp: keeps_def same_rest_def)
  then show ?thesis unfolding work_import(1)
    using phase_work_less [OF work_import(2,3) k, of "Ending st" m] by simp
next
  case (work_end k p st now)
  have "(p, Ending st) \<in> set (busy M)" using work_end(2,3) by (metis nth_mem)
  then have "p \<in> set (live M)" by (force simp: live_def)
  then obtain old where "m (ID (heap (mem M) p)) = Some old" "Status old = Status (heap (mem M) p)"
    using assms(3) by (force simp: machine_ok_def jobs_ok_def jobs_inv_def with_status_def)
  then have "consistent m (heap (mem M) p) st" by (rule consistent_same)
  from endJob_total [OF assms(2) this, of now] obtain d where d:
    "endJob B now p st (mem M) = sendTick (set_bid p (saved now st (heap (mem M) p)) ((mem M)\<lparr>db := d\<rparr>))"
    "represents (Decode B) (vd d) (m(ID (heap (mem M) p) \<mapsto> saved now st (heap (mem M) p)))" .
  have "db (endJob B now p st (mem M)) = d" by (simp add: d(1) sendTick_def)
  then have "m' = m(ID (heap (mem M) p) \<mapsto> saved now st (heap (mem M) p))"
    using assms(4) d(2) represents_unique unfolding work_end(1) by fastforce
  with end_work_less [OF assms(3) work_end(2,3) d(1) finite_queued [OF assms(2)]]
  show ?thesis unfolding work_end(1) by simp
next
  case (work_tick n now now')
  let ?M = "M\<lparr>mem := (mem M)\<lparr>tickCh := n\<rparr>\<rparr>"
  have ok: "jobs_ok m ?M" "tries_ok m ?M"
    using assms(3) by (simp_all add: ok_defs view_defs)
  have "work m' (?M\<lparr>mem := getNext B now now' (mem ?M)\<rparr>) \<le> work m ?M"
    using assms(2,4) ok unfolding work_tick(1) by (intro getNext_work) simp_all
  moreover have "work m ?M < work m M"
    using work_tick(2) by (simp add: work_def queue_work_def chan_work_def busy_work_def left_def max_tries_def)
  ultimately show ?thesis unfolding work_tick(1) by simp
next
  case (work_timer now now')
  let ?M = "M\<lparr>timerArmed := False\<rparr>"
  have ok: "jobs_ok m ?M" "tries_ok m ?M"
    using assms(3) by (simp_all add: ok_defs view_defs)
  have "work m' (?M\<lparr>mem := getNext B now now' (mem ?M)\<rparr>) \<le> work m ?M"
    using assms(2,4) ok unfolding work_timer(1) by (intro getNext_work) simp_all
  moreover have "work m ?M < work m M"
    using work_timer(2) by (simp add: work_def queue_work_def chan_work_def busy_work_def left_def max_tries_def)
  ultimately show ?thesis unfolding work_timer(1) by simp
qed

end

context reliable_backend
begin

lemma worker_run:
  assumes "(worker B L ^^ k) M M'" "represents (Decode B) (vd (db (mem M))) m" "machine_ok m M"
  shows "\<exists>m'. represents (Decode B) (vd (db (mem M'))) m' \<and> machine_ok m' M' \<and> work m' M' + k \<le> work m M"
  using assms(1)
proof (induction k arbitrary: M')
  case (Suc k)
  then obtain M1 where M1: "(worker B L ^^ k) M M1" "worker B L M1 M'" by (auto elim: relpowp_Suc_E)
  from Suc.IH [OF M1(1)] obtain m1 where m1: "represents (Decode B) (vd (db (mem M1))) m1"
    "machine_ok m1 M1" "work m1 M1 + k \<le> work m M" by blast
  from worker_preserves [OF M1(2) m1(1,2)] obtain m' where m':
    "represents (Decode B) (vd (db (mem M'))) m'" "machine_ok m' M'" by blast
  with worker_work_less [OF M1(2) m1(1,2) m'(1)] m1(3) show ?case by (intro exI [of _ m']) simp
qed (use assms(2,3) in auto)

end

section \<open>A running store for the witnesses\<close>

definition sample_machine :: "'d \<Rightarrow> 'd machine" where
  "sample_machine d = \<lparr>mem = sample_store d, busy = [], timerArmed = True\<rparr>"

lemma sample_machine_simps [simp]:
  "mem (sample_machine d) = sample_store d" "busy (sample_machine d) = []" "timerArmed (sample_machine d)"
  by (simp_all add: sample_machine_def)

lemma sample_max_tries [simp]: "max_tries (sample_machine d) = 3"
  by (simp add: max_tries_def sample_store_def)

lemma sample_machine_boots:
  assumes "represents (Decode mem_backend) (map_of d) m" "with_status m FetchingData = {}"
    and "\<forall>b \<in> ran m. tries b \<le> tries_cap 3 (Status b)"
  shows "boots mem_backend map_of (sample_machine d)"
proof -
  have "getOrphaned mem_backend 0 0 (sample_store d) = (None, sample_store d)"
    using memb.getOrphaned_none [OF _ assms(2), of "sample_store d"] assms(1) by simp
  then have "NewStore mem_backend sample_io 0 0 d ''/data'' 3 60 NopeLimiter 1 False (Suc 0)
      (\<lambda>_. sample_bid '''' Unspecified) = Inr (sample_store d)"
    by (simp add: NewStore_def HealthCheck_def sample_io_def sample_store_def Let_def)
  then show ?thesis
    using bootsI [where M = "sample_machine d" and vd = map_of, OF _ _ _ assms(1,2)] assms(3) by simp
qed

lemma sample_boots: "boots mem_backend map_of (sample_machine one_queued)"
  by (rule sample_machine_boots [OF one_queued_represents])
    (simp_all add: with_status_def tries_def sample_bid_def)

section \<open>Properties\<close>

text \<open>
  C13: from a store that started without orphaned fetches, in every reachable state the jobs in the
  channel and in the workers belong to different bids, and these are exactly the bids stored as
  being fetched: no bid is fetched twice at a time and none is lost.
\<close>

theorem one_job_per_bid:
  assumes "reliable_backend B vd vt" "boots B vd M0" "reachable B L M0 M"
  shows "\<exists>m. represents (Decode B) (vd (db (mem M))) m \<and>
    distinct (map (ID \<circ> heap (mem M)) (live M)) \<and>
    set (map (ID \<circ> heap (mem M)) (live M)) = with_status m FetchingData"
  using reliable_backend.reachable_ok [OF assms(1,3,2)]
  unfolding machine_ok_def jobs_ok_def jobs_inv_def by blast

theorem one_job_per_bid_witness:
  "\<exists>m. represents (Decode mem_backend) (map_of one_queued) m \<and> with_status m FetchingData = {}"
  using one_job_per_bid [OF memb.reliable_backend_axioms sample_boots reach_start [of _ sample_libs]]
  by (auto simp: live_def)

text \<open>
  C14: no bid is ever tried more often than configured, and a bid that waits for another attempt has
  one left; so the 32 bit counter does not wrap around.
\<close>

theorem attempts_bounded:
  assumes "reliable_backend B vd vt" "boots B vd M0" "reachable B L M0 M"
    and "represents (Decode B) (vd (db (mem M))) m" "m i = Some b"
  shows "unat (DataURIFetchAttempts b) \<le>
    (if Status b = QueuedData \<or> Status b = FetchingData then max_tries M - 1 else max_tries M)"
proof -
  have "machine_ok m M" by (rule reliable_backend.reachable_at [OF assms(1,3,2,4)])
  from tries_stored [OF this assms(5)] show ?thesis
    by (cases "Status b") (simp_all add: tries_def)
qed

theorem attempts_bounded_witness:
  "unat (DataURIFetchAttempts (sample_bid ''a'' QueuedData)) \<le> 2"
  using attempts_bounded [OF memb.reliable_backend_axioms sample_boots reach_start [of _ sample_libs],
      of "[''a'' \<mapsto> sample_bid ''a'' QueuedData]" "''a''" "sample_bid ''a'' QueuedData"]
    one_queued_represents by simp

text \<open>
  C12: every step moves the status of each bid along the life cycle or leaves it, in particular
  finalized and errored bids stay so, and no bid disappears.
\<close>

theorem status_follows_life_cycle:
  assumes "reliable_backend B vd vt" "boots B vd M0" "reachable B L M0 M" "step B L M M'"
    and "represents (Decode B) (vd (db (mem M))) m"
  shows "\<exists>m'. represents (Decode B) (vd (db (mem M'))) m' \<and>
    (\<forall>i. (map_option Status (m i), map_option Status (m' i)) \<in> Id \<union> edges)"
proof -
  have "machine_ok m M" by (rule reliable_backend.reachable_at [OF assms(1,3,2,5)])
  from reliable_backend.step_preserves [OF assms(1,4,5) this] show ?thesis
    unfolding evolves_def by blast
qed

theorem status_follows_life_cycle_witness:
  "\<exists>M' m'. step mem_backend sample_libs (sample_machine one_queued) M' \<and>
     represents (Decode mem_backend) (map_of (db (mem M'))) m' \<and>
     (Some QueuedData, map_option Status (m' ''a'')) \<in> Id \<union> edges"
proof -
  have "\<exists>M'. worker mem_backend sample_libs (sample_machine one_queued) M'"
    using work_timer [of "sample_machine one_queued" mem_backend sample_libs] by fastforce
  then obtain M' where M': "step mem_backend sample_libs (sample_machine one_queued) M'"
    unfolding step_def by blast
  have "represents (Decode mem_backend) (map_of (db (mem (sample_machine one_queued))))
      [''a'' \<mapsto> sample_bid ''a'' QueuedData]" using one_queued_represents by simp
  from status_follows_life_cycle [OF memb.reliable_backend_axioms sample_boots reach_start M' this]
  obtain m' where m': "represents (Decode mem_backend) (map_of (db (mem M'))) m'"
    and e: "\<forall>i. (map_option Status ([''a'' \<mapsto> sample_bid ''a'' QueuedData] i), map_option Status (m' i))
      \<in> Id \<union> edges" by blast
  from e have "(Some QueuedData, map_option Status (m' ''a'')) \<in> Id \<union> edges"
    by (auto dest: spec [of _ "''a''"])
  with M' m' show ?thesis by blast
qed

text \<open>
  The import semaphore counts the workers that import, and there are never more of them than
  its size.
\<close>

theorem imports_bounded:
  assumes "reliable_backend B vd vt" "boots B vd M0" "reachable B L M0 M"
    and "semImports (mem M) = Some (cap, cur)"
  shows "cur = length (filter (is_importing \<circ> snd) (busy M)) \<and> cur \<le> cap"
  using reliable_backend.reachable_ok [OF assms(1,3,2)] assms(4)
  by (auto simp: machine_ok_def sem_ok_def importing_def)

theorem imports_bounded_witness:
  "length (filter (is_importing \<circ> snd) (busy (sample_machine one_queued))) \<le> 1"
  using imports_bounded [OF memb.reliable_backend_axioms sample_boots reach_start [of _ sample_libs], of 1 0]
  by simp

text \<open>
  C3: left to themselves the workers come to rest. However they are scheduled, they make at most as many
  steps as the contents and the attempts left bound, so no run of them goes on for ever.
\<close>

theorem workers_terminate:
  assumes "reliable_backend B vd vt" "boots B vd M0" "reachable B L M0 M"
    and "represents (Decode B) (vd (db (mem M))) m"
  shows "(\<forall>k M'. (worker B L ^^ k) M M' \<longrightarrow> k \<le> work m M) \<and>
    (\<nexists>run. run 0 = M \<and> (\<forall>k. worker B L (run k) (run (Suc k))))"
proof -
  have ok: "machine_ok m M" by (rule reliable_backend.reachable_at [OF assms(1,3,2,4)])
  have bound: "k \<le> work m M" if "(worker B L ^^ k) M M'" for k M'
    using reliable_backend.worker_run [OF assms(1) that assms(4) ok] by auto
  moreover have False if "run 0 = M" "\<forall>k. worker B L (run k) (run (Suc k))" for run
  proof -
    have "(worker B L ^^ Suc (work m M)) M (run (Suc (work m M)))"
      unfolding relpowp_fun_conv using that by (intro exI [of _ run]) simp
    from bound [OF this] show False by simp
  qed
  ultimately show ?thesis by blast
qed

lemma one_queued_work: "work [''a'' \<mapsto> sample_bid ''a'' QueuedData] (sample_machine one_queued) = 32"
proof -
  have Q: "with_status [''a'' \<mapsto> sample_bid ''a'' QueuedData] QueuedData = {''a''}"
    by (auto simp: with_status_def)
  show ?thesis
    unfolding work_def queue_work_def Q
    by (simp add: chan_work_def busy_work_def left_def) (simp add: sample_bid_def tries_def)
qed

theorem workers_terminate_witness:
  "\<nexists>k M'. 32 < k \<and> (worker mem_backend sample_libs ^^ k) (sample_machine one_queued) M'"
  using workers_terminate [OF memb.reliable_backend_axioms sample_boots reach_start [of _ sample_libs],
      of "[''a'' \<mapsto> sample_bid ''a'' QueuedData]"] one_queued_represents
  by (simp add: one_queued_work) (meson linorder_not_less)

text \<open>
  C2: from every state of the store the workers can come to rest, and where they rest no bid is queued
  or being fetched. So every queued bid is finalized or given up, and none is forgotten in the queue.
\<close>

theorem workers_drain_the_queue:
  assumes "reliable_backend B vd vt" "boots B vd M0" "reachable B L M0 M"
    and "represents (Decode B) (vd (db (mem M))) m"
  shows "(\<exists>M'. (worker B L)\<^sup>*\<^sup>* M M' \<and> (\<nexists>M''. worker B L M' M'')) \<and>
    (\<forall>M'. (worker B L)\<^sup>*\<^sup>* M M' \<longrightarrow> (\<nexists>M''. worker B L M' M'') \<longrightarrow>
      (\<exists>m'. represents (Decode B) (vd (db (mem M'))) m' \<and>
        with_status m' QueuedData = {} \<and> with_status m' FetchingData = {}))"
proof -
  have ok: "machine_ok m M" by (rule reliable_backend.reachable_at [OF assms(1,3,2,4)])
  note run = reliable_backend.worker_run [OF assms(1) _ assms(4) ok]
  show ?thesis
  proof (intro conjI allI impI)
    have "\<exists>k M'. (worker B L ^^ k) M M' \<and> (\<nexists>M''. worker B L M' M'')"
    proof (rule bounded_run_rests)
      fix k M' assume "(worker B L ^^ k) M M'"
      from run [OF this] show "k \<le> work m M" by auto
    qed
    then show "\<exists>M'. (worker B L)\<^sup>*\<^sup>* M M' \<and> (\<nexists>M''. worker B L M' M'')"
      by (auto simp: rtranclp_power)
  next
    fix M' assume "(worker B L)\<^sup>*\<^sup>* M M'" and rest: "\<nexists>M''. worker B L M' M''"
    then obtain k where "(worker B L ^^ k) M M'" by (auto simp: rtranclp_power)
    from run [OF this] obtain m' where m': "represents (Decode B) (vd (db (mem M'))) m'" "machine_ok m' M'"
      by blast
    with worker_progress [OF m'(2)] rest
    show "\<exists>m'. represents (Decode B) (vd (db (mem M'))) m' \<and>
        with_status m' QueuedData = {} \<and> with_status m' FetchingData = {}" by blast
  qed
qed

theorem workers_drain_the_queue_witness:
  "\<exists>M' m'. (worker mem_backend sample_libs)\<^sup>*\<^sup>* (sample_machine one_queued) M' \<and>
     represents (Decode mem_backend) (map_of (db (mem M'))) m' \<and> with_status m' QueuedData = {}"
proof -
  have "represents (Decode mem_backend) (map_of (db (mem (sample_machine one_queued))))
      [''a'' \<mapsto> sample_bid ''a'' QueuedData]" using one_queued_represents by simp
  from workers_drain_the_queue [OF memb.reliable_backend_axioms sample_boots reach_start this]
  obtain M' where "(worker mem_backend sample_libs)\<^sup>*\<^sup>* (sample_machine one_queued) M'"
    "\<nexists>M''. worker mem_backend sample_libs M' M''"
    "\<forall>M'. (worker mem_backend sample_libs)\<^sup>*\<^sup>* (sample_machine one_queued) M' \<longrightarrow>
       (\<nexists>M''. worker mem_backend sample_libs M' M'') \<longrightarrow>
       (\<exists>m'. represents (Decode mem_backend) (map_of (db (mem M'))) m' \<and>
         with_status m' QueuedData = {} \<and> with_status m' FetchingData = {})" by blast
  then show ?thesis by blast
qed

end
