(* ===== verification/Service_Run.thy ===== *)
theory Service_Run
  imports Service Store_Machine
begin

text \<open>
  The running service: its handlers, the timers of the limiter and the workers of the bid store,
  interleaved. The handlers only reach the bids through the operations of the bid store, so the
  invariant of the store's machine carries over to the service.
\<close>

section \<open>The system\<close>

record 'd system =
  svc :: "'d Service"
  jobs :: "(nat \<times> phase) list"
  armed :: bool

definition machine_of :: "'d system \<Rightarrow> 'd machine" where
  "machine_of S = \<lparr>mem = store (svc S), busy = jobs S, timerArmed = armed S\<rparr>"

definition with_machine :: "'d machine \<Rightarrow> 'd system \<Rightarrow> 'd system" where
  "with_machine M S = S\<lparr>svc := (svc S)\<lparr>store := mem M\<rparr>, jobs := busy M, armed := timerArmed M\<rparr>"

text \<open>
  Each step has surroundings of its own, over the same backend and libraries. A bid is made by a
  goroutine that \<open>AuctionsHandler\<close> started at some time before. The ids the auctioneer answers are new,
  as those of a \<open>BidID\<close> are documented to be. A message that makes its handler panic ends the process,
  so it is no step. A load of pricing rules that outlived its call ends at some later time.
\<close>

inductive serve ::
  "('d, 't, 'v) backend \<Rightarrow> libs \<Rightarrow> 'd system \<Rightarrow> 'd system \<Rightarrow> bool"
  for B :: "('d, 't, 'v) backend" and L :: libs where
  serve_bid: "backend_of E = B \<Longrightarrow> libs_of E = L \<Longrightarrow>
    \<forall>topic bid i. PublishBid E topic bid = Inr i \<longrightarrow> GetBid B i (store (svc S)) = Inl ErrBidNotFound \<Longrightarrow>
    makeBid E a sender (svc S) = (r, s) \<Longrightarrow>
    serve B L S (S\<lparr>svc := s\<rparr>)"
| serve_win: "backend_of E = B \<Longrightarrow> libs_of E = L \<Longrightarrow> WinsHandler E wb (svc S) = Ret (r, s) \<Longrightarrow>
    serve B L S (S\<lparr>svc := s\<rparr>)"
| serve_proposal: "backend_of E = B \<Longrightarrow> libs_of E = L \<Longrightarrow> ProposalsHandler E prop (svc S) = (r, s) \<Longrightarrow>
    serve B L S (S\<lparr>svc := s\<rparr>)"
| serve_pause: "serve B L S (S\<lparr>svc := SetPaused p (svc S)\<rparr>)"
| serve_health: "serve B L S (S\<lparr>svc := healthChecks w (svc S)\<rparr>)"
| serve_startup: "serve B L S (S\<lparr>svc := reportStartup (svc S)\<rparr>)"
| serve_load: "serve B L S (S\<lparr>svc := (svc S)\<lparr>pricingRules := backgroundLoad (W :: web) now client k (pricingRules (svc S))\<rparr>\<rparr>)"
| serve_timer: "bytesLimiter (store (svc S)) = Running rl \<Longrightarrow>
    serve B L S (S\<lparr>svc := withLimiter (Running (fireTimer now t rl)) (svc S)\<rparr>)"
| serve_expire: "bytesLimiter (store (svc S)) = Running rl \<Longrightarrow>
    serve B L S (S\<lparr>svc := withLimiter (Running (runFired k rl)) (svc S)\<rparr>)"
| serve_worker: "worker B L (machine_of S) M \<Longrightarrow> serve B L S (with_machine M S)"

inductive serves ::
  "('d, 't, 'v) backend \<Rightarrow> libs \<Rightarrow> 'd system \<Rightarrow> 'd system \<Rightarrow> bool"
  for B :: "('d, 't, 'v) backend" and L :: libs and S0 :: "'d system" where
  serves_start: "serves B L S0 S0"
| serves_step: "serves B L S0 S \<Longrightarrow> serve B L S S' \<Longrightarrow> serves B L S0 S'"

section \<open>The handlers are steps of the bid store\<close>

lemma machine_simps [simp]:
  "mem (machine_of S) = store (svc S)" "busy (machine_of S) = jobs S" "timerArmed (machine_of S) = armed S"
  "machine_of (S\<lparr>svc := s\<rparr>) = (machine_of S)\<lparr>mem := store s\<rparr>"
  "machine_of (with_machine M S) = M" "store (svc (with_machine M S)) = mem M"
  by (simp_all add: machine_of_def with_machine_def)

lemma withLimiter_simps [simp]:
  "store (withLimiter l s) = (store s)\<lparr>bytesLimiter := l\<rparr>" "store (secureTokens i s) =
    (store s)\<lparr>bytesLimiter := lim_Secure i (bytesLimiter (store s))\<rparr>"
  by (simp_all add: withLimiter_def secureTokens_def)

lemma machine_ok_limiter [simp]:
  "machine_ok m (M\<lparr>mem := s\<lparr>bytesLimiter := l\<rparr>\<rparr>) = machine_ok m (M\<lparr>mem := s\<rparr>)"
  by (simp add: ok_defs view_defs)

lemma same_mem [simp]: "(machine_of S)\<lparr>mem := store (svc S)\<rparr> = machine_of S"
  by (simp add: machine_of_def)

text \<open>A handler leaves the store or calls one of its operations, the limiter aside.\<close>

definition calls :: "('d, 't, 'v) backend \<Rightarrow> libs \<Rightarrow> 'd Store \<Rightarrow> 'd Store \<Rightarrow> bool" where
  "calls B L st st' \<longleftrightarrow> (\<exists>l l' st1. (st1 = st\<lparr>bytesLimiter := l\<rparr> \<or>
      (\<forall>M. mem M = st\<lparr>bytesLimiter := l\<rparr> \<longrightarrow> handler B L M (M\<lparr>mem := st1\<rparr>))) \<and>
    st' = st1\<lparr>bytesLimiter := l'\<rparr>)"

lemma calls_limiter: "calls B L st (st\<lparr>bytesLimiter := l\<rparr>)"
  unfolding calls_def by (intro exI [of _ "bytesLimiter st"] exI [of _ l] exI [of _ st]) simp

lemma calls_same: "calls B L st st"
  using calls_limiter [of B L st "bytesLimiter st"] by simp

lemma calls_handler:
  assumes "\<forall>M. mem M = st\<lparr>bytesLimiter := l\<rparr> \<longrightarrow> handler B L M (M\<lparr>mem := st1\<rparr>)"
  shows "calls B L st st1" and "calls B L st (st1\<lparr>bytesLimiter := l'\<rparr>)"
proof -
  have "st1 = st1\<lparr>bytesLimiter := bytesLimiter st1\<rparr>" by simp
  with assms show "calls B L st st1" unfolding calls_def by blast
  from assms show "calls B L st (st1\<lparr>bytesLimiter := l'\<rparr>)" unfolding calls_def by blast
qed

lemma submitBid_calls:
  assumes "\<forall>topic bid i. PublishBid E topic bid = Inr i \<longrightarrow> GetBid (backend_of E) i (store s) = Inl ErrBidNotFound"
  shows "calls (backend_of E) (libs_of E) (store s) (store (snd (submitBid E a sender bid s)))"
proof (cases "store (snd (submitBid E a sender bid s)) = store s")
  case False
  then obtain i c bid' r st where i: "PublishBid E (BidsTopic (pbAuction.Id a)) bid' = Inr i"
    and save: "SaveBid (backend_of E) (libs_of E) (clock E 3) (clock E 4) (storedBid i a sender c bid') (store s) = (r, st)"
    and st: "store (snd (submitBid E a sender bid s)) = st"
    by (auto simp: submitBid_def Let_def split: option.split_asm sum.split_asm prod.split_asm)
  have "handler (backend_of E) (libs_of E) M (M\<lparr>mem := st\<rparr>)" if "mem M = store s" for M
  proof (rule handle_save)
    show "GetBid (backend_of E) (ID (storedBid i a sender c bid')) (mem M) = Inl ErrBidNotFound"
      using assms i that by (simp add: storedBid_def)
    show "SaveBid (backend_of E) (libs_of E) (clock E 3) (clock E 4) (storedBid i a sender c bid') (mem M) = (r, st)"
      using save that by simp
  qed
  then show ?thesis
    unfolding st by (intro calls_handler(1) [where l = "bytesLimiter (store s)"]) simp
qed (simp add: calls_same)

lemma makeBid_calls:
  assumes "\<forall>topic bid i. PublishBid E topic bid = Inr i \<longrightarrow> GetBid (backend_of E) i (store s) = Inl ErrBidNotFound"
    and "makeBid E a sender s = (r, s')"
  shows "calls (backend_of E) (libs_of E) (store s) (store s')"
proof (cases "bidFor E a s")
  case None
  with assms(2) makeBid_decides [where E = E and a = a and s = s and sender = sender]
  show ?thesis by (simp add: calls_same)
next
  case (Some bid)
  then obtain rr where "makeBid E a sender s = submitBid E a sender bid (s\<lparr>pricingRules := rr\<rparr>)"
    using makeBid_decides [where E = E and a = a and s = s and sender = sender] by auto
  with submitBid_calls [of E "s\<lparr>pricingRules := rr\<rparr>" a sender bid] assms show ?thesis by simp
qed

text \<open>What a win that does not panic comes to.\<close>

lemma WinsHandler_Ret:
  assumes "WinsHandler E wb s = Ret (r, s')"
  obtains (nobid) e where "GetBid (backend_of E) (WinBidId wb) (store s) = Inl e" "r = Some (Wrapv ''getting bid'' e)" "s' = s"
  | (denied) b l where "GetBid (backend_of E) (WinBidId wb) (store s) = Inr b"
      "lim_Request (clock E 0) (clock E 1) (WinAuctionId wb) (Bid.DealSize b) BidsExpiration
        (bytesLimiter (store s)) = (False, l)"
      "r = Some errWouldExceedRunningBytesLimit" "s' = withLimiter l s"
  | (refused) b l e where "GetBid (backend_of E) (WinBidId wb) (store s) = Inr b"
      "lim_Request (clock E 0) (clock E 1) (WinAuctionId wb) (Bid.DealSize b) BidsExpiration
        (bytesLimiter (store s)) = (True, l)"
      "winSources E b (Encrypted wb) = Ret (Inl e)" "r = Some e" "s' = withLimiter l s"
  | (set) b l sources r1 st where "GetBid (backend_of E) (WinBidId wb) (store s) = Inr b"
      "lim_Request (clock E 0) (clock E 1) (WinAuctionId wb) (Bid.DealSize b) BidsExpiration
        (bytesLimiter (store s)) = (True, l)"
      "winSources E b (Encrypted wb) = Ret (Inr sources)"
      "SetAwaitingProposalCid (backend_of E) (clock E 2) (WinBidId wb) sources
        ((store s)\<lparr>bytesLimiter := l\<rparr>) = (r1, st)"
      "r = map_option (Wrapv ''setting awaiting proposal cid'') r1" "s' = (withLimiter l s)\<lparr>store := st\<rparr>"
proof (cases "GetBid (backend_of E) (WinBidId wb) (store s)")
  case (Inl e)
  show thesis
    by (rule nobid [OF Inl]) (use assms Inl in \<open>simp_all add: WinsHandler_def\<close>)
next
  case b: (Inr b)
  obtain g l where l: "lim_Request (clock E 0) (clock E 1) (WinAuctionId wb) (Bid.DealSize b) BidsExpiration
      (bytesLimiter (store s)) = (g, l)" by fastforce
  show thesis
  proof (cases g)
    case False
    with l have l': "lim_Request (clock E 0) (clock E 1) (WinAuctionId wb) (Bid.DealSize b) BidsExpiration
      (bytesLimiter (store s)) = (False, l)" by simp
    show thesis
      by (rule denied [OF b l']) (use assms b l' in \<open>simp_all add: WinsHandler_def Let_def\<close>)
  next
    case True
    with l have l': "lim_Request (clock E 0) (clock E 1) (WinAuctionId wb) (Bid.DealSize b) BidsExpiration
      (bytesLimiter (store s)) = (True, l)" by simp
    obtain x where x: "winSources E b (Encrypted wb) = Ret x"
      using assms b l' by (cases "winSources E b (Encrypted wb)") (simp_all add: WinsHandler_def Let_def)
    show thesis
    proof (cases x)
      case (Inl e)
      show thesis
        by (rule refused [OF b l' x [unfolded Inl]])
          (use assms b l' x Inl in \<open>simp_all add: WinsHandler_def Let_def\<close>)
    next
      case (Inr sources)
      obtain r1 st where st: "SetAwaitingProposalCid (backend_of E) (clock E 2) (WinBidId wb) sources
        ((store s)\<lparr>bytesLimiter := l\<rparr>) = (r1, st)" by fastforce
      have "(r, s') = (map_option (Wrapv ''setting awaiting proposal cid'') r1, (withLimiter l s)\<lparr>store := st\<rparr>)"
        using assms b l' x Inr st by (cases r1) (simp_all add: WinsHandler_def Let_def)
      then show thesis by (intro set [OF b l' x [unfolded Inr] st]) simp_all
    qed
  qed
qed

lemma WinsHandler_calls:
  assumes "WinsHandler E wb s = Ret (r, s')"
  shows "calls (backend_of E) (libs_of E) (store s) (store s')"
  using assms
proof (cases rule: WinsHandler_Ret)
  case (set b l sources r1 st)
  then have "\<forall>M. mem M = (store s)\<lparr>bytesLimiter := l\<rparr> \<longrightarrow> handler (backend_of E) (libs_of E) M (M\<lparr>mem := st\<rparr>)"
    by (metis handle_awaiting)
  from calls_handler(1) [OF this] set show ?thesis by simp
qed (simp_all add: calls_same calls_limiter)

lemma ProposalsHandler_calls:
  assumes "ProposalsHandler E prop s = (r, s')"
  shows "calls (backend_of E) (libs_of E) (store s) (store s')"
proof -
  obtain r1 st where uid: "SetDealUID (backend_of E) (clock E 0) (PropBidId prop) (PropDealUid prop) (store s) = (r1, st)"
    by fastforce
  then have 1: "\<forall>M. mem M = (store s)\<lparr>bytesLimiter := bytesLimiter (store s)\<rparr> \<longrightarrow>
      handler (backend_of E) (libs_of E) M (M\<lparr>mem := st\<rparr>)"
    by (auto intro: handle_deal_uid)
  have 2: "\<forall>M. mem M = (store s)\<lparr>bytesLimiter := bytesLimiter (store s)\<rparr> \<longrightarrow>
      handler (backend_of E) (libs_of E) M (M\<lparr>mem := st2\<rparr>)"
    if "SetProposalCid (backend_of E) (clock E 0) (clock E 1) (PropBidId prop) pcid (store s) = (r2, st2)" for pcid r2 st2
    using that by (auto intro: handle_proposal)
  show ?thesis
    using assms uid calls_handler [OF 1] calls_handler [OF 2]
    by (auto simp: ProposalsHandler_def calls_same split: if_split_asm option.split_asm sum.split_asm prod.split_asm)
qed

text \<open>A step of the service is a call of the bid store, or a step of its workers.\<close>

lemma serve_cases:
  assumes "serve B L S S'"
  obtains (call) s where "S' = S\<lparr>svc := s\<rparr>" "calls B L (store (svc S)) (store s)"
  | (work) M where "S' = with_machine M S" "worker B L (machine_of S) M"
  using assms
proof cases
  case (serve_bid E a sender r s)
  with makeBid_calls [of E "svc S" a sender r s] call [of s] show ?thesis by simp
next
  case (serve_win E wb r s)
  with WinsHandler_calls [of E wb "svc S" r s] call [of s] show ?thesis by simp
next
  case (serve_proposal E pr r s)
  with ProposalsHandler_calls [of E pr "svc S" r s] call [of s] show ?thesis by simp
next
  case (serve_pause p)
  with call [of "SetPaused p (svc S)"] show ?thesis by (simp add: SetPaused_def calls_same)
next
  case (serve_health w)
  have "store (healthChecks w (svc S)) = store (svc S)"
    by (simp add: healthChecks_def reportUnhealthy_def PublishBidbotEvent_def split: option.split)
  with serve_health call [of "healthChecks w (svc S)"] show ?thesis by (simp add: calls_same)
next
  case serve_startup
  with call [of "reportStartup (svc S)"] show ?thesis
    by (simp add: reportStartup_def PublishBidbotEvent_def calls_same)
next
  case (serve_load W now client k)
  with call [of "(svc S)\<lparr>pricingRules := backgroundLoad W now client k (pricingRules (svc S))\<rparr>"] show ?thesis
    by (simp add: calls_same)
next
  case (serve_timer rl now t)
  with call [of "withLimiter (Running (fireTimer now t rl)) (svc S)"] show ?thesis
    by (simp add: calls_limiter)
next
  case (serve_expire rl k)
  with call [of "withLimiter (Running (runFired k rl)) (svc S)"] show ?thesis
    by (simp add: calls_limiter)
next
  case (serve_worker M)
  with work show ?thesis by blast
qed

section \<open>The invariant of the running service\<close>

context reliable_backend
begin

lemma calls_preserves:
  assumes "calls B L (mem M) st" "represents (Decode B) (vd (db (mem M))) m" "machine_ok m M"
  shows "\<exists>m'. represents (Decode B) (vd (db st)) m' \<and> machine_ok m' (M\<lparr>mem := st\<rparr>) \<and> evolves m m'"
proof -
  obtain l l' st1 where st1: "st1 = (mem M)\<lparr>bytesLimiter := l\<rparr> \<or>
      (\<forall>M'. mem M' = (mem M)\<lparr>bytesLimiter := l\<rparr> \<longrightarrow> handler B L M' (M'\<lparr>mem := st1\<rparr>))"
    and st: "st = st1\<lparr>bytesLimiter := l'\<rparr>"
    using assms(1) unfolding calls_def by blast
  let ?M = "M\<lparr>mem := (mem M)\<lparr>bytesLimiter := l\<rparr>\<rparr>"
  have ok: "machine_ok m ?M" using assms(3) by simp
  from st1 show ?thesis
  proof
    assume "st1 = (mem M)\<lparr>bytesLimiter := l\<rparr>"
    with assms(2,3) st show ?thesis by (intro exI [of _ m]) simp
  next
    assume "\<forall>M'. mem M' = (mem M)\<lparr>bytesLimiter := l\<rparr> \<longrightarrow> handler B L M' (M'\<lparr>mem := st1\<rparr>)"
    then have "handler B L ?M (?M\<lparr>mem := st1\<rparr>)" by (auto dest!: spec [of _ ?M])
    from handler_preserves [OF this _ ok] assms(2) st show ?thesis by simp
  qed
qed

lemma serve_preserves:
  assumes "serve B L S S'" "represents (Decode B) (vd (db (store (svc S)))) m" "machine_ok m (machine_of S)"
  shows "\<exists>m'. represents (Decode B) (vd (db (store (svc S')))) m' \<and> machine_ok m' (machine_of S') \<and> evolves m m'"
  using assms(1)
proof (cases rule: serve_cases)
  case (call s)
  with calls_preserves [of L "machine_of S" "store s"] assms(2,3) show ?thesis by simp
next
  case (work M)
  with worker_preserves [of L "machine_of S" M m] assms(2,3) show ?thesis by simp
qed

lemma serves_ok:
  assumes "serves B L S0 S" "boots B vd (machine_of S0)"
  shows "\<exists>m. represents (Decode B) (vd (db (store (svc S)))) m \<and> machine_ok m (machine_of S)"
  using assms(1)
proof induction
  case serves_start
  from boots_ok [OF assms(2)] show ?case by simp
next
  case (serves_step S S')
  then show ?case using serve_preserves by blast
qed

lemma serves_at:
  assumes "serves B L S0 S" "boots B vd (machine_of S0)" "represents (Decode B) (vd (db (store (svc S)))) m"
  shows "machine_ok m (machine_of S)"
  using serves_ok [OF assms(1,2)] represents_unique [OF assms(3)] by blast

end

section \<open>What leaves the limiter alone\<close>

lemma enqueueDataURI_limiter: "enqueueDataURI B now now' t p s = (r, t', s') \<Longrightarrow> bytesLimiter s' = bytesLimiter s"
  by (auto simp: enqueueDataURI_def split: prod.split_asm option.split_asm if_split_asm)

lemma commitStore_limiter [simp]: "bytesLimiter (snd (commitStore B t s)) = bytesLimiter s"
  by (simp add: commitStore_def split: prod.split option.split)

lemma getNext_limiter: "bytesLimiter (getNext B now now' s) = bytesLimiter s"
  by (auto simp: getNext_def alloc_def Let_def split: prod.split option.split sum.split
      dest!: enqueueDataURI_limiter)

lemma endJob_limiter: "bytesLimiter (endJob B now p st s) = bytesLimiter s"
  by (auto simp: endJob_def sendTick_def set_bid_def split: prod.split)

lemma SetProposalCid_limiter:
  assumes "SetProposalCid B now now' i pcid s = (r, s')"
  shows "bytesLimiter s' = bytesLimiter s"
proof -
  have alloc: "bytesLimiter (snd (alloc b s)) = bytesLimiter s" for b by (simp add: alloc_def)
  show ?thesis
    using assms
    by (auto simp: SetProposalCid_def split: if_split_asm sum.split_asm prod.split_asm option.split_asm
        dest!: enqueueDataURI_limiter)
      (metis alloc commitStore_limiter snd_conv)+
qed

lemma frames_limiter:
  "SaveBid B L now now' b s = (r, s') \<Longrightarrow> bytesLimiter s' = bytesLimiter s"
  "SetAwaitingProposalCid B now i sources s = (r, s') \<Longrightarrow> bytesLimiter s' = bytesLimiter s"
  "SetDealUID B now i uid s = (r, s') \<Longrightarrow> bytesLimiter s' = bytesLimiter s"
  using SaveBid_frame SetAwaitingProposalCid_frame SetDealUID_frame
  by (metis Store.select_convs(2) Store.surjective Store.update_convs(1))+

lemma makeBid_limiter:
  assumes "makeBid E a sender s = (r, s')"
  shows "bytesLimiter (store s') = bytesLimiter (store s)"
proof -
  have sub: "bytesLimiter (store (snd (submitBid E a sender bid s))) = bytesLimiter (store s)" for bid s
    by (auto simp: submitBid_def Let_def split: option.split sum.split prod.split dest!: frames_limiter(1))
  show ?thesis
  proof (cases "bidFor E a s")
    case None
    with assms makeBid_decides [where E = E and a = a and s = s and sender = sender] show ?thesis by simp
  next
    case (Some bid)
    then obtain rr where "makeBid E a sender s = submitBid E a sender bid (s\<lparr>pricingRules := rr\<rparr>)"
      using makeBid_decides [where E = E and a = a and s = s and sender = sender] by auto
    with sub [of bid "s\<lparr>pricingRules := rr\<rparr>"] assms show ?thesis by simp
  qed
qed

section \<open>Properties\<close>

text \<open>
  C1: whatever auctions, wins, proposals, expiries and fetches a running service handles, in any
  order, the invariant of the bid store's machine holds: one job for each bid that is being fetched
  and no other, no bid tried too often, no queued bid forgotten, imports within the semaphore.
\<close>

theorem service_keeps_the_store:
  assumes "reliable_backend B vd vt" "boots B vd (machine_of S0)" "serves B L S0 S" "serve B L S S'"
    and "represents (Decode B) (vd (db (store (svc S)))) m"
  shows "machine_ok m (machine_of S) \<and>
    (\<exists>m'. represents (Decode B) (vd (db (store (svc S')))) m' \<and> machine_ok m' (machine_of S') \<and> evolves m m')"
  using reliable_backend.serve_preserves [OF assms(1,4,5)] reliable_backend.serves_at [OF assms(1,3,2,5)]
  by blast

text \<open>What passes the checks of a won auction.\<close>

lemma winSources_Ret:
  assumes "winSources E b encrypted = Ret r"
  obtains (bad) p e where "r = Inl (Wrapv p e)"
  | (good) sources u where "r = Inr sources"
      "NewFromSources (texts_of E) (cid_String (libs_of E) (Bid.PayloadCid b)) sources = Inr u"
      "Validate (texts_of E) u = Ret None"
proof (cases "Decrypt E encrypted")
  case d: (Inr decrypted)
  show thesis
  proof (cases "proto_Confidential E decrypted")
    case p: (Inr pbs)
    obtain src where src: "SourcesFromPb (texts_of E) pbs = Ret src"
      using assms d p by (cases "SourcesFromPb (texts_of E) pbs") (simp_all add: winSources_def)
    show thesis
    proof (cases src)
      case s: (Inr sources)
      show thesis
      proof (cases "NewFromSources (texts_of E) (cid_String (libs_of E) (Bid.PayloadCid b)) sources")
        case u: (Inr u)
        obtain v where v: "Validate (texts_of E) u = Ret v"
          using assms d p src s u by (cases "Validate (texts_of E) u") (simp_all add: winSources_def)
        show thesis
        proof (cases v)
          case None
          have "r = Inr sources" using assms d p src s u v None by (simp add: winSources_def)
          from good [OF this u] v None show thesis by simp
        qed (use assms d p src s u v bad in \<open>auto simp: winSources_def\<close>)
      qed (use assms d p src s bad in \<open>auto simp: winSources_def\<close>)
    qed (use assms d p src bad in \<open>auto simp: winSources_def\<close>)
  qed (use assms d bad in \<open>auto simp: winSources_def\<close>)
qed (use assms bad in \<open>auto simp: winSources_def\<close>)

context bid_backend
begin

lemma GetBid_found: "represents (Decode B) (vd (db s)) m \<Longrightarrow> GetBid B i s = Inr b \<Longrightarrow> m i = Some b"
  using getBid_sound [of "vd (db s)" m "StoreGet B (db s)" i b] store_get_found by (auto simp: GetBid_def)

end

text \<open>
  C16: a win is accepted, without an error, only for a bid that is stored, once the limiter has
  granted its deal size, and when the sources of the message lead to a car file whose one root is
  the bid's payload. The bid then waits for its proposal with these sources, or did so already.
\<close>

theorem accepted_win:
  assumes "bid_backend (backend_of E) vd vt"
    and "represents (Decode (backend_of E)) (vd (db (store s))) m"
    and "WinsHandler E wb s = Ret (None, s')"
  shows "\<exists>b sources u. m (WinBidId wb) = Some b \<and>
    fst (lim_Request (clock E 0) (clock E 1) (WinAuctionId wb) (Bid.DealSize b) BidsExpiration
      (bytesLimiter (store s))) \<and>
    NewFromSources (texts_of E) (cid_String (libs_of E) (Bid.PayloadCid b)) sources = Inr u \<and>
    Validate (texts_of E) u = Ret None \<and> usable_sources sources \<and>
    represents (Decode (backend_of E)) (vd (db (store s')))
      (if Status b = AwaitingProposal then m
       else m(WinBidId wb \<mapsto> saved (clock E 2) AwaitingProposal (b\<lparr>BidSources := sources\<rparr>))) \<and>
    Status b \<in> {Submitted, AwaitingProposal}"
  using assms(3)
proof (cases rule: WinsHandler_Ret)
  case (set b l sources r1 st)
  obtain u where u: "NewFromSources (texts_of E) (cid_String (libs_of E) (Bid.PayloadCid b)) sources = Inr u"
    "Validate (texts_of E) u = Ret None"
    using set(3) by (cases rule: winSources_Ret) auto
  have b: "m (WinBidId wb) = Some b"
    by (rule bid_backend.GetBid_found [OF assms(1,2) set(1)])
  have "all_or_nothing (Decode (backend_of E)) (vd (db st)) m r1
      (awaiting_spec (clock E 2) (WinBidId wb) sources m)"
    using bid_backend.SetAwaitingProposalCid_refines [OF assms(1) set(4)] assms(2) by simp
  moreover have "r1 = None" using set(5) by simp
  ultimately have "Sources_Validate sources = None" "Status b \<in> {Submitted, AwaitingProposal}"
    "represents (Decode (backend_of E)) (vd (db st))
      (if Status b = AwaitingProposal then m
       else m(WinBidId wb \<mapsto> saved (clock E 2) AwaitingProposal (b\<lparr>BidSources := sources\<rparr>)))"
    using b by (auto simp: all_or_nothing_def awaiting_spec_def split: option.split_asm if_split_asm)
  with b u set(2,6) show ?thesis
    by (intro exI [of _ b] exI [of _ sources] exI [of _ u]) (simp add: Sources_Validate_None)
qed simp_all

text \<open>
  C17: a win that ends with an error changes no bid, and of the limiter only the tokens of the
  auction it is for; when the limiter refuses the deal size, not even these.
\<close>

theorem failed_win_changes_no_bid:
  assumes "bid_backend (backend_of E) vd vt"
    and "represents (Decode (backend_of E)) (vd (db (store s))) m"
    and "WinsHandler E wb s = Ret (Some e, s')"
  shows "represents (Decode (backend_of E)) (vd (db (store s'))) m \<and>
    (\<forall>i. i \<noteq> WinAuctionId wb \<or> e = errWouldExceedRunningBytesLimit \<longrightarrow>
      lim_held (bytesLimiter (store s')) i = lim_held (bytesLimiter (store s)) i)"
  using assms(3)
proof (cases rule: WinsHandler_Ret)
  case nobid
  with assms(2) show ?thesis by simp
next
  case (denied b l)
  then have "lim_held l = lim_held (bytesLimiter (store s))"
    using limiter.request_denied [of "clock E 0" "clock E 1" "WinAuctionId wb" "Bid.DealSize b" BidsExpiration
      "bytesLimiter (store s)"] by simp
  with denied assms(2) show ?thesis by simp
next
  case (refused b l e')
  have "e \<noteq> errWouldExceedRunningBytesLimit"
    using refused(3) refused(4) by (cases rule: winSources_Ret) (auto simp: errWouldExceedRunningBytesLimit_def)
  moreover have "i \<noteq> WinAuctionId wb \<Longrightarrow> lim_held l i = lim_held (bytesLimiter (store s)) i" for i
    using limiter.request_other [of i "WinAuctionId wb" "clock E 0" "clock E 1" "Bid.DealSize b" BidsExpiration
      "bytesLimiter (store s)"] refused(2) by simp
  ultimately show ?thesis using refused assms(2) by simp
next
  case (set b l sources r1 st)
  have "e \<noteq> errWouldExceedRunningBytesLimit"
    using set(5) by (cases r1) (auto simp: errWouldExceedRunningBytesLimit_def)
  moreover have "i \<noteq> WinAuctionId wb \<Longrightarrow> lim_held l i = lim_held (bytesLimiter (store s)) i" for i
    using limiter.request_other [of i "WinAuctionId wb" "clock E 0" "clock E 1" "Bid.DealSize b" BidsExpiration
      "bytesLimiter (store s)"] set(2) by simp
  moreover have "bytesLimiter st = l" using frames_limiter(2) [OF set(4)] by simp
  moreover have "represents (Decode (backend_of E)) (vd (db st)) m"
  proof -
    have "all_or_nothing (Decode (backend_of E)) (vd (db st)) m r1
        (awaiting_spec (clock E 2) (WinBidId wb) sources m)"
      using bid_backend.SetAwaitingProposalCid_refines [OF assms(1) set(4)] assms(2) by simp
    moreover have "r1 \<noteq> None" using set(5) by (cases r1) auto
    ultimately show ?thesis by (auto simp: all_or_nothing_def)
  qed
  ultimately show ?thesis using set(6) by simp
qed

text \<open>
  A win for a stored bid whose confidential part has no sources ends the process: the handler
  panics. So does one that leads to a car file with a header of 128 bytes or more.
\<close>

lemma win_without_sources_panics:
  assumes "GetBid (backend_of E) (WinBidId wb) (store s) = Inr b"
    and "fst (lim_Request (clock E 0) (clock E 1) (WinAuctionId wb) (Bid.DealSize b) BidsExpiration
      (bytesLimiter (store s)))"
    and "Decrypt E (Encrypted wb) = Inr msg" and "proto_Confidential E msg = Inr None"
  shows "WinsHandler E wb s = Panic ''runtime error: invalid memory address or nil pointer dereference''"
  using assms by (auto simp: WinsHandler_def winSources_def SourcesFromPb_def Let_def split: prod.split)

text \<open>
  After a proposal of the Boost kind the bid is finalized without a job, and the tokens of its
  auction are secured against expiry; no other operation of the limiter gives them back, so nothing
  but a new win, import or failure of the same auction, which do not come any more, ever does.
\<close>

theorem boost_tokens_stay:
  assumes "bid_backend (backend_of E) vd vt"
    and "represents (Decode (backend_of E)) (vd (db (store s))) m"
    and "m (PropBidId prop) = Some b" and "Status b = AwaitingProposal"
    and "uuid_Parse E (PropDealUid prop) = None"
    and "bytesLimiter (store s) = Running rl" and "rl_requested rl (PropAuctionId prop) = Some rq"
    and "\<forall>t tm. rl_timers rl t = Some tm \<longrightarrow> tm_id tm = PropAuctionId prop \<longrightarrow> t = rq_t rq"
    and "PropAuctionId prop \<notin> set (rl_fired rl)"
    and "ProposalsHandler E prop s = (None, s')"
  shows "represents (Decode (backend_of E)) (vd (db (store s')))
      (m(PropBidId prop \<mapsto> saved (clock E 0) Finalized (b\<lparr>DealUID := PropDealUid prop\<rparr>))) \<and>
    jobCh (store s') = jobCh (store s) \<and>
    (\<exists>rl'. bytesLimiter (store s') = Running rl' \<and>
      (\<forall>xs. (\<forall>x \<in> set xs. \<not> touches (PropAuctionId prop) x) \<longrightarrow>
        rl_requested (lim_run rl' xs) (PropAuctionId prop) = Some rq))"
proof -
  let ?k = "PropAuctionId prop"
  obtain r st where uid: "SetDealUID (backend_of E) (clock E 0) (PropBidId prop) (PropDealUid prop) (store s) = (r, st)"
    by fastforce
  then have r: "r = None" and s': "s' = secureTokens ?k (s\<lparr>store := st\<rparr>)"
    using assms(5,10) by (auto simp: ProposalsHandler_def split: option.split_asm)
  have frame: "st = (store s)\<lparr>db := db st\<rparr>" by (rule SetDealUID_frame [OF uid])
  have "all_or_nothing (Decode (backend_of E)) (vd (db st)) m r
      (deal_uid_spec (clock E 0) (PropBidId prop) (PropDealUid prop) m)"
    by (rule bid_backend.SetDealUID_refines [OF assms(1) uid assms(2)])
  then have rep: "represents (Decode (backend_of E)) (vd (db st))
      (m(PropBidId prop \<mapsto> saved (clock E 0) Finalized (b\<lparr>DealUID := PropDealUid prop\<rparr>)))"
    using assms(3,4) r
    by (auto simp: all_or_nothing_def deal_uid_spec_def proposal_spec_def status_order split: if_split_asm)
  have lim: "bytesLimiter st = Running rl" using frames_limiter(3) [OF uid] assms(6) by simp
  have "rl_requested (Secure ?k rl) ?k = Some rq" "\<not> expirable (Secure ?k rl) ?k"
    using assms(7-9) by (auto simp: Secure_def expirable_def)
  then have "\<forall>xs. (\<forall>x \<in> set xs. \<not> touches ?k x) \<longrightarrow> rl_requested (lim_run (Secure ?k rl) xs) ?k = Some rq"
    using secured_run by blast
  moreover have "jobCh st = jobCh (store s)" using frame by (metis Store.select_convs(3) Store.surjective Store.update_convs(1))
  ultimately show ?thesis using s' lim rep by simp
qed

section \<open>The hypotheses hold\<close>

text \<open>A service whose one bid, of payload \<open>root\<close>, has the given status and limiter.\<close>

definition root_bid :: "BidStatus \<Rightarrow> Bid" where
  "root_bid st = (sample_bid ''a'' st)\<lparr>Bid.PayloadCid := Cid ''root''\<rparr>"

definition root_service :: "BidStatus \<Rightarrow> Limiter \<Rightarrow> (key \<times> Bid option) list Service" where
  "root_service st l = (sample_service [(ChildString dsPrefix ''a'', Some (root_bid st))])
     \<lparr>store := (sample_store [(ChildString dsPrefix ''a'', Some (root_bid st))])\<lparr>bytesLimiter := l\<rparr>\<rparr>"

definition sample_win :: "string \<Rightarrow> WinningBid" where
  "sample_win msg = \<lparr>WinAuctionId = ''auction'', WinBidId = ''a'', Encrypted = msg\<rparr>"

lemma root_represents:
  assumes "st \<noteq> QueuedData" "st \<noteq> FetchingData"
  shows "represents (Decode mem_backend) (map_of (db (store (root_service st l)))) [''a'' \<mapsto> root_bid st]"
  using represents_one [of "root_bid st" "Decode mem_backend" "Some (root_bid st)"] assms
  by (simp add: root_service_def root_bid_def)

lemma root_GetBid: "GetBid mem_backend ''a'' (store (root_service st l)) = Inr (root_bid st)"
  by (simp add: GetBid_def getBid_def root_service_def mem_backend_def mem_datastore_def mem_get_def
      datastore.defs)

lemma root_winSources:
  "winSources sample_env (root_bid st) ''msg'' = Ret (Inr \<lparr>CARURL =
     Some \<lparr>URL = \<lparr>Scheme = ''https'', URLString = ''https://a/b''\<rparr>\<rparr>, CARIPFS = None\<rparr>)"
  by (simp add: winSources_def sample_env_def sample_texts_def sample_net_def net.defs root_bid_def
      sample_bid_def sample_libs_def SourcesFromPb_def urlFromPb_def ipfsFromPb_def NewFromSources_def
      NewURI_def Validate_def getRequest_def validateCarHeader_def ldRead_def ReadUvarint_def ReadFull_def
      PutUvarint_one sample_header_def)

lemma root_win: "\<exists>r s. WinsHandler sample_env (sample_win ''msg'') (root_service Submitted NopeLimiter) = Ret (r, s)"
proof -
  let ?s = "root_service Submitted NopeLimiter"
  let ?src = "\<lparr>CARURL = Some \<lparr>URL = \<lparr>Scheme = ''https'', URLString = ''https://a/b''\<rparr>\<rparr>, CARIPFS = None\<rparr>"
  have lim: "bytesLimiter (store ?s) = NopeLimiter" "(store ?s)\<lparr>bytesLimiter := NopeLimiter\<rparr> = store ?s"
    by (simp_all add: root_service_def)
  obtain r st where "SetAwaitingProposalCid mem_backend 1002 ''a'' ?src (store ?s) = (r, st)" by fastforce
  then show ?thesis
    by (cases r) (simp_all add: WinsHandler_def sample_win_def root_GetBid root_winSources lim Let_def)
qed

definition sample_system :: "(key \<times> Bid option) list system" where
  "sample_system = \<lparr>svc = sample_service one_queued, jobs = [], armed = True\<rparr>"

theorem service_keeps_the_store_witness:
  "\<exists>S' m'. serve mem_backend sample_libs sample_system S' \<and> armed sample_system \<and> \<not> armed S' \<and>
     represents (Decode mem_backend) (map_of (db (store (svc S')))) m' \<and> machine_ok m' (machine_of S')"
proof -
  have M: "machine_of sample_system = sample_machine one_queued"
    by (simp add: machine_of_def sample_system_def sample_machine_def)
  have db: "db (store (svc sample_system)) = one_queued"
    by (simp add: sample_system_def)
  let ?M = "(sample_machine one_queued)\<lparr>timerArmed := False, mem := getNext mem_backend 9 9 (mem (sample_machine one_queued))\<rparr>"
  have "worker mem_backend sample_libs (sample_machine one_queued) ?M" by (rule work_timer) simp
  then have step: "serve mem_backend sample_libs sample_system (with_machine ?M sample_system)"
    using serve_worker [of mem_backend sample_libs sample_system ?M] by (simp add: M)
  from service_keeps_the_store [OF memb.reliable_backend_axioms _ serves_start step,
      of "[''a'' \<mapsto> sample_bid ''a'' QueuedData]"] sample_boots one_queued_represents
  obtain m' where "represents (Decode mem_backend) (map_of (db (store (svc (with_machine ?M sample_system))))) m'"
    "machine_ok m' (machine_of (with_machine ?M sample_system))"
    by (auto simp: M db)
  moreover have "armed sample_system" "\<not> armed (with_machine ?M sample_system)"
    by (simp_all add: sample_system_def with_machine_def)
  ultimately show ?thesis using step by blast
qed

theorem accepted_win_witness:
  "\<exists>s' sources. WinsHandler sample_env (sample_win ''msg'') (root_service Submitted NopeLimiter) = Ret (None, s') \<and>
     represents (Decode mem_backend) (map_of (db (store s')))
       [''a'' \<mapsto> saved 1002 AwaitingProposal ((root_bid Submitted)\<lparr>BidSources := sources\<rparr>)]"
proof -
  let ?s = "root_service Submitted NopeLimiter"
  let ?src = "\<lparr>CARURL = Some \<lparr>URL = \<lparr>Scheme = ''https'', URLString = ''https://a/b''\<rparr>\<rparr>, CARIPFS = None\<rparr>"
  have rep: "represents (Decode mem_backend) (map_of (db (store ?s))) [''a'' \<mapsto> root_bid Submitted]"
    by (rule root_represents) simp_all
  have lim: "(store ?s)\<lparr>bytesLimiter := NopeLimiter\<rparr> = store ?s" "bytesLimiter (store ?s) = NopeLimiter"
    by (simp_all add: root_service_def)
  obtain r st where st: "SetAwaitingProposalCid mem_backend 1002 ''a'' ?src (store ?s) = (r, st)" by fastforce
  have "r = fst (awaiting_spec 1002 ''a'' ?src [''a'' \<mapsto> root_bid Submitted])"
    using memb.SetAwaitingProposalCid_error [OF rep, of 1002 "''a''" ?src] st by simp
  then have "r = None"
    by (simp add: awaiting_spec_def Sources_Validate_def root_bid_def)
  with st have win: "WinsHandler sample_env (sample_win ''msg'') ?s =
      Ret (None, (withLimiter NopeLimiter ?s)\<lparr>store := st\<rparr>)"
    by (simp add: WinsHandler_def sample_win_def root_GetBid root_winSources lim Let_def)
  have "represents (Decode (backend_of sample_env)) (map_of (db (store ?s))) [''a'' \<mapsto> root_bid Submitted]"
    using rep by simp
  note acc = accepted_win [of sample_env map_of map_of ?s "[''a'' \<mapsto> root_bid Submitted]", OF _ this win]
  show ?thesis
    using acc win by (auto simp: memb.bid_backend_axioms sample_win_def root_bid_def)
qed

theorem failed_win_changes_no_bid_witness:
  "\<exists>s'. WinsHandler sample_env (sample_win ''msg'') (root_service Submitted (Running (NewRunningTotalLimiter 10 60))) =
      Ret (Some errWouldExceedRunningBytesLimit, s') \<and>
    represents (Decode mem_backend) (map_of (db (store s'))) [''a'' \<mapsto> root_bid Submitted]"
proof -
  let ?s = "root_service Submitted (Running (NewRunningTotalLimiter 10 60))"
  have lim: "bytesLimiter (store ?s) = Running (NewRunningTotalLimiter 10 60)" by (simp add: root_service_def)
  have size: "Bid.DealSize (root_bid Submitted) = 1024" by (simp add: root_bid_def)
  obtain l where "lim_Request 1000 1001 ''auction'' 1024 BidsExpiration (Running (NewRunningTotalLimiter 10 60)) =
      (False, l)" by (simp add: lim_eval)
  then obtain s' where win: "WinsHandler sample_env (sample_win ''msg'') ?s =
      Ret (Some errWouldExceedRunningBytesLimit, s')"
    by (simp add: WinsHandler_def sample_win_def root_GetBid lim size Let_def)
  have "represents (Decode (backend_of sample_env)) (map_of (db (store ?s))) [''a'' \<mapsto> root_bid Submitted]"
    using root_represents [of Submitted] by simp
  from failed_win_changes_no_bid [of sample_env map_of map_of ?s "[''a'' \<mapsto> root_bid Submitted]", OF _ this win] win
  show ?thesis by (auto simp: memb.bid_backend_axioms)
qed

theorem boost_tokens_stay_witness:
  "\<exists>s' rl'. ProposalsHandler sample_env \<lparr>PropAuctionId = ''auction'', PropBidId = ''a'', PropProposalCid = '''',
        PropDealUid = ''uuid''\<rparr>
      (root_service AwaitingProposal (Running (snd (Request 1 1 ''auction'' 1024 10 (NewRunningTotalLimiter 5000 60))))) =
      (None, s') \<and> bytesLimiter (store s') = Running rl' \<and>
    rl_requested (lim_run rl' [OpFire 999 0, OpRunFired 0]) ''auction'' = Some \<lparr>rq_n = 1024, rq_t = 0\<rparr>"
proof -
  let ?rl = "snd (Request 1 1 ''auction'' 1024 10 (NewRunningTotalLimiter 5000 60))"
  let ?s = "root_service AwaitingProposal (Running ?rl)"
  let ?p = "\<lparr>PropAuctionId = ''auction'', PropBidId = ''a'', PropProposalCid = '''', PropDealUid = ''uuid''\<rparr>"
  have rl: "rl_requested ?rl = [''auction'' \<mapsto> \<lparr>rq_n = 1024, rq_t = 0\<rparr>]" "rl_fired ?rl = []"
    "rl_timers ?rl = [0 \<mapsto> \<lparr>tm_id = ''auction'', tm_deadline = 11\<rparr>]"
    by (simp_all add: lim_eval)
  have rep: "represents (Decode mem_backend) (map_of (db (store ?s))) [''a'' \<mapsto> root_bid AwaitingProposal]"
    by (rule root_represents) simp_all
  obtain s' where ok: "ProposalsHandler sample_env ?p ?s = (None, s')"
  proof -
    have "fst (SetDealUID mem_backend 1000 ''a'' ''uuid'' (store ?s)) =
        fst (deal_uid_spec 1000 ''a'' ''uuid'' [''a'' \<mapsto> root_bid AwaitingProposal])"
      by (rule memb.SetDealUID_error [OF rep])
    also have "\<dots> = None" by (simp add: deal_uid_spec_def proposal_spec_def root_bid_def status_order)
    finally obtain st where "SetDealUID mem_backend 1000 ''a'' ''uuid'' (store ?s) = (None, st)"
      by (metis prod.collapse)
    then show thesis
      using that by (auto simp: ProposalsHandler_def sample_env_def)
  qed
  have "represents (Decode (backend_of sample_env)) (map_of (db (store ?s))) [''a'' \<mapsto> root_bid AwaitingProposal]"
    using rep by simp
  moreover have own: "\<forall>t tm. rl_timers ?rl t = Some tm \<longrightarrow> tm_id tm = PropAuctionId ?p \<longrightarrow> t = rq_t \<lparr>rq_n = 1024, rq_t = 0\<rparr>"
    unfolding rl(3) by (simp split: if_splits)
  moreover note boost_tokens_stay [of sample_env map_of map_of ?s "[''a'' \<mapsto> root_bid AwaitingProposal]" ?p "root_bid AwaitingProposal"
      ?rl "\<lparr>rq_n = 1024, rq_t = 0\<rparr>" s', OF _ _ _ _ _ _ _ own _ ok]
  ultimately obtain rl' where "bytesLimiter (store s') = Running rl'"
    "\<forall>xs. (\<forall>x \<in> set xs. \<not> touches ''auction'' x) \<longrightarrow> rl_requested (lim_run rl' xs) ''auction'' = Some \<lparr>rq_n = 1024, rq_t = 0\<rparr>"
    using rl by (auto simp: memb.bid_backend_axioms root_bid_def root_service_def sample_env_def split: if_splits)
  then have "rl_requested (lim_run rl' [OpFire 999 0, OpRunFired 0]) ''auction'' = Some \<lparr>rq_n = 1024, rq_t = 0\<rparr>"
    by (metis (no_types) empty_iff empty_set insert_iff list.simps(15) touches.simps(5,6))
  with ok \<open>bytesLimiter (store s') = Running rl'\<close> show ?thesis by blast
qed


end
