(* ===== verification/Pubsub.thy ===== *)
theory Pubsub
  imports Service_Run
begin

text \<open>
  The channel to the auctioneer, \<open>service/libp2p_pubsub.go\<close>: its constructor, the subscription to the
  three topics, the handlers that unmarshal their messages and call the service, and the publishing
  of bids and events. The peer, its topics, the codecs of the messages and the finalizer are
  arguments. A running bot receives its messages only here, so its runs are runs of the service.
\<close>

section \<open>The channel\<close>

datatype message_kind = AuctionMessage | WinMessage | ProposalMessage

datatype resource = PeerResource | TopicResource string

text \<open>\<open>closers\<close> are the resources of the finalizer, in the order they were added.\<close>

record Libp2pPubsub =
  peerID :: string
  started :: bool
  closers :: "resource list"
  subscribed :: "(string \<times> message_kind) list"
  closed :: bool

text \<open>
  The libp2p side: \<open>Cleanup\<close> closes the resources and joins their errors to the given one; \<open>Publish\<close> of a
  bid waits for the answer of the auctioneer.
\<close>

record pubsub_net =
  peer_New :: "go_error + string"
  NewTopic :: "string \<Rightarrow> bool \<Rightarrow> go_error option"
  Cleanup :: "resource list \<Rightarrow> go_error option \<Rightarrow> go_error option"
  proto_Auction :: "string \<Rightarrow> go_error + pbAuction"
  proto_Win :: "string \<Rightarrow> go_error + WinningBid"
  proto_Proposal :: "string \<Rightarrow> go_error + WinningBidProposal"
  proto_Bid :: "pbBid \<Rightarrow> go_error + string"
  proto_Event :: "BidbotEvent \<Rightarrow> go_error + string"
  Publish :: "string \<Rightarrow> string \<Rightarrow> go_error + (go_error + string)"
  PublishEvent :: "string \<Rightarrow> go_error option"

text \<open>\<open>Cleanupf\<close> wraps the error first; it never returns nil for one.\<close>

definition Cleanupf :: "pubsub_net \<Rightarrow> resource list \<Rightarrow> string \<Rightarrow> go_error \<Rightarrow> go_error" where
  "Cleanupf N rs what e =
     (case Cleanup N rs (Some (Wrapv what e)) of Some e' \<Rightarrow> e' | None \<Rightarrow> Wrapv what e)"

definition newPubsub :: "pubsub_net \<Rightarrow> go_error + Libp2pPubsub" where
  "newPubsub N =
     (case peer_New N of
        Inl e \<Rightarrow> Inl (Cleanupf N [] ''creating peer'' e)
      | Inr p \<Rightarrow>
          (case NewTopic N BidbotEventsTopic False of
             Some e \<Rightarrow> Inl (Cleanupf N [PeerResource] ''creating bidbot events topic'' e)
           | None \<Rightarrow> Inr \<lparr>peerID = p, started = False, closers = [PeerResource, TopicResource BidbotEventsTopic],
               subscribed = [], closed = False\<rparr>))"

text \<open>Joining one topic; on an error the finalizer closes the peer and all topics so far.\<close>

definition joinTopic ::
  "pubsub_net \<Rightarrow> string \<Rightarrow> string \<Rightarrow> message_kind \<Rightarrow> Libp2pPubsub \<Rightarrow> go_error option \<times> Libp2pPubsub" where
  "joinTopic N what name kind ps =
     (case NewTopic N name True of
        Some e \<Rightarrow> (Some (Cleanupf N (closers ps) what e), ps\<lparr>closed := True\<rparr>)
      | None \<Rightarrow> (None, ps\<lparr>subscribed := subscribed ps @ [(name, kind)], closers := closers ps @ [TopicResource name]\<rparr>))"

definition Subscribe :: "pubsub_net \<Rightarrow> Libp2pPubsub \<Rightarrow> go_error option \<times> Libp2pPubsub" where
  "Subscribe N ps =
     (if started ps then (None, ps)
      else case joinTopic N ''creating auction topic'' Topic AuctionMessage ps of
        (Some e, ps1) \<Rightarrow> (Some e, ps1)
      | (None, ps1) \<Rightarrow>
     (case joinTopic N ''creating wins topic'' (WinsTopic (peerID ps1)) WinMessage ps1 of
        (Some e, ps2) \<Rightarrow> (Some e, ps2)
      | (None, ps2) \<Rightarrow>
     (case joinTopic N ''creating proposals topic'' (ProposalsTopic (peerID ps2)) ProposalMessage ps2 of
        (Some e, ps3) \<Rightarrow> (Some e, ps3)
      | (None, ps3) \<Rightarrow> (None, ps3\<lparr>started := True\<rparr>))))"

definition ps_Close :: "pubsub_net \<Rightarrow> Libp2pPubsub \<Rightarrow> go_error option \<times> Libp2pPubsub" where
  "ps_Close N ps = (Cleanup N (closers ps) None, ps\<lparr>closed := True\<rparr>)"

definition ps_PublishBid :: "pubsub_net \<Rightarrow> string \<Rightarrow> pbBid \<Rightarrow> go_error + string" where
  "ps_PublishBid N topicName bid =
     (case NewTopic N topicName False of
        Some e \<Rightarrow> Inl (Wrapv ''creating bids topic'' e)
      | None \<Rightarrow>
     (case proto_Bid N bid of
        Inl e \<Rightarrow> Inl (Wrapv ''marshaling bid'' e)
      | Inr msg \<Rightarrow>
     (case Publish N topicName msg of
        Inl e \<Rightarrow> Inl (Wrapv ''publishing bid'' e)
      | Inr (Inl e) \<Rightarrow> Inl (Wrapv ''publishing bid; auctioneer returned error'' e)
      | Inr (Inr data) \<Rightarrow> Inr data)))"

text \<open>The message that goes out for an event, if it does; errors are logged only.\<close>

definition ps_PublishBidbotEvent :: "pubsub_net \<Rightarrow> BidbotEvent \<Rightarrow> string option" where
  "ps_PublishBidbotEvent N ev =
     (case proto_Event N ev of
        Inl e \<Rightarrow> None
      | Inr msg \<Rightarrow> (case PublishEvent N msg of Some e \<Rightarrow> None | None \<Rightarrow> Some msg))"

section \<open>Messages\<close>

text \<open>
  What a handler does with a message: the error that answers it, the auction a goroutine starts to bid
  in, and the service.
\<close>

definition onAuction ::
  "('d, 't, 'v) env \<Rightarrow> pubsub_net \<Rightarrow> string \<Rightarrow> 'd Service \<Rightarrow> go_error option \<times> pbAuction option \<times> 'd Service" where
  "onAuction E N msg s =
     (case proto_Auction N msg of
        Inl e \<Rightarrow> (Some (Wrapv ''unmarshaling message'' e), None, s)
      | Inr a \<Rightarrow> (case AuctionsHandler E a s of (err, pending) \<Rightarrow> (err, pending, s)))"

definition onWin ::
  "('d, 't, 'v) env \<Rightarrow> pubsub_net \<Rightarrow> string \<Rightarrow> 'd Service \<Rightarrow>
     (go_error option \<times> pbAuction option \<times> 'd Service) go_out" where
  "onWin E N msg s =
     (case proto_Win N msg of
        Inl e \<Rightarrow> Ret (Some (Wrapv ''unmarshaling message'' e), None, s)
      | Inr wb \<Rightarrow> bind_out (WinsHandler E wb s) (\<lambda>r. case r of (err, s1) \<Rightarrow> Ret (err, None, s1)))"

definition onProposal ::
  "('d, 't, 'v) env \<Rightarrow> pubsub_net \<Rightarrow> string \<Rightarrow> 'd Service \<Rightarrow> go_error option \<times> pbAuction option \<times> 'd Service" where
  "onProposal E N msg s =
     (case proto_Proposal N msg of
        Inl e \<Rightarrow> (Some (Wrapv ''unmarshaling message'' e), None, s)
      | Inr p \<Rightarrow> (case ProposalsHandler E p s of (err, s1) \<Rightarrow> (err, None, s1)))"

text \<open>A message on a topic: none is delivered on a closed channel or on a topic that was not joined.\<close>

definition receive ::
  "('d, 't, 'v) env \<Rightarrow> pubsub_net \<Rightarrow> Libp2pPubsub \<Rightarrow> string \<Rightarrow> string \<Rightarrow> 'd Service \<Rightarrow>
     (go_error option \<times> pbAuction option \<times> 'd Service) go_out" where
  "receive E N ps topic msg s =
     (if closed ps then Ret (None, None, s)
      else case map_of (subscribed ps) topic of
        None \<Rightarrow> Ret (None, None, s)
      | Some AuctionMessage \<Rightarrow> Ret (onAuction E N msg s)
      | Some WinMessage \<Rightarrow> onWin E N msg s
      | Some ProposalMessage \<Rightarrow> Ret (onProposal E N msg s))"

section \<open>The service on its channel\<close>

text \<open>
  \<open>startupDue\<close>: the timer runs that reports the start, 30 seconds after a subscription; \<open>bidding\<close>: the
  auctions, with their senders, that goroutines are about to bid in.
\<close>

record 'd bot =
  chan :: Libp2pPubsub
  sys :: "'d system"
  startupDue :: bool
  bidding :: "(pbAuction \<times> string) list"

definition with_svc :: "'d Service \<Rightarrow> 'd bot \<Rightarrow> 'd bot" where
  "with_svc s b = b\<lparr>sys := (sys b)\<lparr>svc := s\<rparr>\<rparr>"

definition srv_Subscribe :: "pubsub_net \<Rightarrow> 'd bot \<Rightarrow> go_error option \<times> 'd bot" where
  "srv_Subscribe N b =
     (case Subscribe N (chan b) of
        (err, ps) \<Rightarrow> (err, b\<lparr>chan := ps, startupDue := (if err = None then True else startupDue b)\<rparr>))"

definition srv_Close :: "pubsub_net \<Rightarrow> 'd bot \<Rightarrow> go_error option \<times> 'd bot" where
  "srv_Close N b =
     (case ps_Close N (chan b) of
        (err, ps) \<Rightarrow> (err, with_svc ((svc (sys b))\<lparr>store := Close (store (svc (sys b)))\<rparr>) (b\<lparr>chan := ps\<rparr>)))"

text \<open>
  A step of a bot before its \<open>Close\<close>, which ends a run: a message comes in, a goroutine bids, the bot
  subscribes, the startup is reported, or something runs inside that no message causes.
\<close>

inductive bot_step ::
  "('d, 't, 'v) backend \<Rightarrow> libs \<Rightarrow> pubsub_net \<Rightarrow> 'd bot \<Rightarrow> 'd bot \<Rightarrow> bool"
  for B :: "('d, 't, 'v) backend" and L :: libs and N :: pubsub_net where
  bot_message: "backend_of E = B \<Longrightarrow> libs_of E = L \<Longrightarrow>
    receive E N (chan b) topic msg (svc (sys b)) = Ret (r, pending, s) \<Longrightarrow>
    bot_step B L N b ((with_svc s b)\<lparr>bidding := bidding b @ (case pending of None \<Rightarrow> [] | Some a \<Rightarrow> [(a, sender)])\<rparr>)"
| bot_bid: "backend_of E = B \<Longrightarrow> libs_of E = L \<Longrightarrow> PublishBid E = ps_PublishBid N \<Longrightarrow>
    \<forall>topic bid i. PublishBid E topic bid = Inr i \<longrightarrow> GetBid B i (store (svc (sys b))) = Inl ErrBidNotFound \<Longrightarrow>
    (a, sender) \<in> set (bidding b) \<Longrightarrow> makeBid E a sender (svc (sys b)) = (r, s) \<Longrightarrow>
    bot_step B L N b ((with_svc s b)\<lparr>bidding := remove1 (a, sender) (bidding b)\<rparr>)"
| bot_subscribe: "srv_Subscribe N b = (err, b') \<Longrightarrow> bot_step B L N b b'"
| bot_startup: "startupDue b \<Longrightarrow>
    bot_step B L N b ((with_svc (reportStartup (svc (sys b))) b)\<lparr>startupDue := False\<rparr>)"
| bot_pause: "bot_step B L N b (with_svc (SetPaused p (svc (sys b))) b)"
| bot_health: "bot_step B L N b (with_svc (healthChecks w (svc (sys b))) b)"
| bot_load: "bot_step B L N b
    (with_svc ((svc (sys b))\<lparr>pricingRules := backgroundLoad (W :: web) now client k (pricingRules (svc (sys b)))\<rparr>) b)"
| bot_timer: "bytesLimiter (store (svc (sys b))) = Running rl \<Longrightarrow>
    bot_step B L N b (with_svc (withLimiter (Running (fireTimer now t rl)) (svc (sys b))) b)"
| bot_expire: "bytesLimiter (store (svc (sys b))) = Running rl \<Longrightarrow>
    bot_step B L N b (with_svc (withLimiter (Running (runFired k rl)) (svc (sys b))) b)"
| bot_worker: "worker B L (machine_of (sys b)) M \<Longrightarrow> bot_step B L N b (b\<lparr>sys := with_machine M (sys b)\<rparr>)"

inductive bot_runs ::
  "('d, 't, 'v) backend \<Rightarrow> libs \<Rightarrow> pubsub_net \<Rightarrow> 'd bot \<Rightarrow> 'd bot \<Rightarrow> bool"
  for B :: "('d, 't, 'v) backend" and L :: libs and N :: pubsub_net and b0 :: "'d bot" where
  bot_start: "bot_runs B L N b0 b0"
| bot_next: "bot_runs B L N b0 b \<Longrightarrow> bot_step B L N b b' \<Longrightarrow> bot_runs B L N b0 b'"

section \<open>Messages are steps of the service\<close>


lemma with_svc_sys [simp]: "sys (with_svc s b) = (sys b)\<lparr>svc := s\<rparr>" "chan (with_svc s b) = chan b"
  by (simp_all add: with_svc_def)



lemma bot_runs_trans: "bot_runs B L N b1 b2 \<Longrightarrow> bot_runs B L N b0 b1 \<Longrightarrow> bot_runs B L N b0 b2"
  by (induction rule: bot_runs.induct) (auto intro: bot_runs.bot_next)

section \<open>What a bot listens to\<close>

lemma feed_topics:
  assumes "plain_segment p"
  shows "Topic \<noteq> WinsTopic p" "Topic \<noteq> ProposalsTopic p" "WinsTopic p \<noteq> ProposalsTopic p"
  using suffix_neq(3) [OF assms assms] by (simp_all add: topic_eqs [OF assms])














section \<open>Who gets a message\<close>

text \<open>
  C33: subscribing is all or nothing. A channel that has subscribed hands the messages of the auction feed,
  of its own wins and of its own proposals to the handler of that kind, and gets no others, neither
  those of another peer. When one topic cannot be joined, the channel is closed with the topics
  joined before, and no message reaches the service.
\<close>

theorem subscription_routes:
  assumes "Subscribe N ps = (err, ps')" and "\<not> started ps" and "subscribed ps = []" and "plain_segment (peerID ps)"
  shows "case err of
      None \<Rightarrow> started ps' \<and> closed ps' = closed ps \<and>
        map_of (subscribed ps') = [Topic \<mapsto> AuctionMessage, WinsTopic (peerID ps) \<mapsto> WinMessage,
          ProposalsTopic (peerID ps) \<mapsto> ProposalMessage]
    | Some e \<Rightarrow> \<not> started ps' \<and> receive E N ps' topic msg s = Ret (None, None, s)"
  using assms feed_topics [OF assms(4)]
  by (auto simp: Subscribe_def joinTopic_def receive_def fun_eq_iff
      split: option.split_asm prod.split_asm)

section \<open>The hypotheses hold\<close>

definition sample_pubsub :: pubsub_net where
  "sample_pubsub = \<lparr>peer_New = Inr ''peer1'', NewTopic = (\<lambda>_ _. None), Cleanup = (\<lambda>_ e. e),
     proto_Auction = (\<lambda>_. Inr (sample_auction ''root'')), proto_Win = (\<lambda>m. Inr (sample_win m)),
     proto_Proposal = (\<lambda>_. Inl (New ''wire'')), proto_Bid = (\<lambda>_. Inr ''bid''), proto_Event = (\<lambda>_. Inr ''event''),
     Publish = (\<lambda>_ _. Inr (Inr ''bid1'')), PublishEvent = (\<lambda>_. None)\<rparr>"

definition joined :: Libp2pPubsub where
  "joined = \<lparr>peerID = ''peer1'', started = True, closers = [PeerResource, TopicResource BidbotEventsTopic,
       TopicResource Topic, TopicResource (WinsTopic ''peer1''), TopicResource (ProposalsTopic ''peer1'')],
     subscribed = [(Topic, AuctionMessage), (WinsTopic ''peer1'', WinMessage),
       (ProposalsTopic ''peer1'', ProposalMessage)], closed = False\<rparr>"

definition unjoined :: Libp2pPubsub where
  "unjoined = \<lparr>peerID = ''peer1'', started = False, closers = [PeerResource, TopicResource BidbotEventsTopic],
     subscribed = [], closed = False\<rparr>"

lemma sample_subscribe: "newPubsub sample_pubsub = Inr unjoined" "Subscribe sample_pubsub unjoined = (None, joined)"
  by (simp_all add: newPubsub_def Subscribe_def joinTopic_def sample_pubsub_def unjoined_def joined_def)


lemma sample_receive:
  "\<exists>r s. receive sample_env sample_pubsub joined (WinsTopic ''peer1'') ''msg'' (root_service Submitted NopeLimiter) =
     Ret (r, None, s)"
proof -
  obtain r s where "WinsHandler sample_env (sample_win ''msg'') (root_service Submitted NopeLimiter) = Ret (r, s)"
    using root_win by blast
  moreover have "plain_segment ''peer1''" by (simp add: plain_segment_def)
  from feed_topics [OF this] have "map_of (subscribed joined) (WinsTopic ''peer1'') = Some WinMessage"
    by (simp add: joined_def)
  ultimately show ?thesis by (simp add: receive_def onWin_def sample_pubsub_def joined_def)
qed


theorem subscription_routes_witness:
  "map_of (subscribed joined) (WinsTopic ''peer1'') = Some WinMessage \<and>
   (\<forall>s. receive sample_env (sample_pubsub\<lparr>NewTopic := (\<lambda>n _. if n = Topic then None else Some (New ''join''))\<rparr>)
     (snd (Subscribe (sample_pubsub\<lparr>NewTopic := (\<lambda>n _. if n = Topic then None else Some (New ''join''))\<rparr>) unjoined))
     Topic ''msg'' s = Ret (None, None, s))"
proof -
  let ?N = "sample_pubsub\<lparr>NewTopic := (\<lambda>n _. if n = Topic then None else Some (New ''join''))\<rparr>"
  have plain: "plain_segment (peerID unjoined)" by (simp add: plain_segment_def unjoined_def)
  have init: "\<not> started unjoined" "subscribed unjoined = []" "peerID unjoined = ''peer1''" by (simp_all add: unjoined_def)
  have topics: "Topic \<noteq> WinsTopic ''peer1''" "WinsTopic ''peer1'' \<noteq> ProposalsTopic ''peer1''"
    using feed_topics [of "''peer1''"] plain init(3) by simp_all
  have "map_of (subscribed joined) (WinsTopic ''peer1'') = Some WinMessage"
    using subscription_routes [OF sample_subscribe(2) init(1,2) plain] topics init(3) by simp
  moreover obtain e ps' where eq: "Subscribe ?N unjoined = (Some e, ps')"
    using topics init(3) by (auto simp: Subscribe_def joinTopic_def unjoined_def)
  ultimately show ?thesis
    using subscription_routes [OF eq init(1,2) plain, of sample_env Topic "''msg''"] by simp
qed

end
