(* ===== verification/Url_Query.thy ===== *)
theory Url_Query
  imports Auction
begin

text \<open>
  Queries of urls, as the HTTP API reads them and the command line writes them: \<open>net/url\<close> of Go's
  standard library at version 1.17. A string is a list of bytes.
\<close>

section \<open>Escaping\<close>

definition is_digit :: "char \<Rightarrow> bool" where
  "is_digit c \<longleftrightarrow> 48 \<le> (of_char c :: nat) \<and> (of_char c :: nat) \<le> 57"

definition unhex :: "char \<Rightarrow> nat option" where
  "unhex c =
     (let n = of_char c in
      if 48 \<le> n \<and> n \<le> 57 then Some (n - 48)
      else if 97 \<le> n \<and> n \<le> 102 then Some (n - 97 + 10)
      else if 65 \<le> n \<and> n \<le> 70 then Some (n - 65 + 10)
      else None)"

definition hexdigit :: "nat \<Rightarrow> char" where
  "hexdigit n = (if n < 10 then char_of (48 + n) else char_of (55 + n))"

definition escapeError :: "string \<Rightarrow> go_error" where
  "escapeError s = New (''invalid URL escape '' @ [CHR 0x22] @ take 3 s @ [CHR 0x22])"

fun QueryUnescape :: "string \<Rightarrow> go_error + string" where
  "QueryUnescape [] = Inr []"
| "QueryUnescape (c # cs) =
     (if c = CHR ''%'' then
        (case cs of
           a # b # rest \<Rightarrow>
             (case (unhex a, unhex b) of
                (Some x, Some y) \<Rightarrow> map_sum (\<lambda>e. e) (Cons (char_of (16 * x + y))) (QueryUnescape rest)
              | _ \<Rightarrow> Inl (escapeError (c # cs)))
         | _ \<Rightarrow> Inl (escapeError (c # cs)))
      else map_sum (\<lambda>e. e) (Cons (if c = CHR ''+'' then CHR '' '' else c)) (QueryUnescape cs))"

definition unreserved :: "char \<Rightarrow> bool" where
  "unreserved c \<longleftrightarrow>
     (let n = of_char c :: nat in
      48 \<le> n \<and> n \<le> 57 \<or> 65 \<le> n \<and> n \<le> 90 \<or> 97 \<le> n \<and> n \<le> 122 \<or> c \<in> {CHR ''-'', CHR ''_'', CHR ''.'', CHR ''~''})"

definition escape_char :: "char \<Rightarrow> string" where
  "escape_char c =
     (if unreserved c then [c]
      else if c = CHR '' '' then ''+''
      else [CHR ''%'', hexdigit (of_char c div 16), hexdigit (of_char c mod 16)])"

definition QueryEscape :: "string \<Rightarrow> string" where
  "QueryEscape s = concat (map escape_char s)"

section \<open>Values\<close>

text \<open>The part before the first \<open>c\<close> and the part after it.\<close>

definition cut :: "char \<Rightarrow> string \<Rightarrow> string \<times> string" where
  "cut c s = (takeWhile (\<lambda>x. x \<noteq> c) s, tl (dropWhile (\<lambda>x. x \<noteq> c) s))"

text \<open>Broken settings are left out, as \<open>URL.Query\<close> drops the error.\<close>

definition parse_setting :: "string \<Rightarrow> (string \<times> string) list" where
  "parse_setting s =
     (if CHR '';'' \<in> set s \<or> s = '''' then []
      else case cut CHR ''='' s of (k, v) \<Rightarrow>
        (case (QueryUnescape k, QueryUnescape v) of
           (Inr k', Inr v') \<Rightarrow> [(k', v')]
         | _ \<Rightarrow> []))"

definition ParseQuery :: "string \<Rightarrow> (string \<times> string) list" where
  "ParseQuery q = concat (map parse_setting (split_on CHR ''&'' q))"

definition Values_Get :: "(string \<times> string) list \<Rightarrow> string \<Rightarrow> string" where
  "Values_Get vs k = (case map_of vs k of None \<Rightarrow> '''' | Some v \<Rightarrow> v)"

definition encode_setting :: "string \<times> string \<Rightarrow> string" where
  "encode_setting kv = QueryEscape (fst kv) @ ''='' @ QueryEscape (snd kv)"

definition Values_Encode :: "(string \<times> string) list \<Rightarrow> string" where
  "Values_Encode vs = join_with ''&'' (map encode_setting (sort_key fst vs))"

section \<open>Round trips\<close>

lemma hex_parts [simp]: "(of_char c :: nat) div 16 < 16" "(of_char c :: nat) mod 16 < 16"
  using nat_of_char_less_256 [of c] by (simp_all add: div_less_iff_less_mult)

lemma unhex_hexdigit: "n < 16 \<Longrightarrow> unhex (hexdigit n) = Some n"
  by (auto simp: unhex_def hexdigit_def Let_def)

lemma hexdigit_unreserved: "n < 16 \<Longrightarrow> unreserved (hexdigit n)"
  by (auto simp: unreserved_def hexdigit_def Let_def)

lemma unreserved_plain: "unreserved c \<Longrightarrow> c \<notin> {CHR ''%'', CHR ''+'', CHR ''&'', CHR ''='', CHR '';'', CHR ''#'', CHR ''?''}"
  by (auto simp: unreserved_def)

lemma escape_char_set: "set (escape_char c) \<subseteq> {x. unreserved x} \<union> {CHR ''%'', CHR ''+''}"
  by (auto simp: escape_char_def hexdigit_unreserved)

lemma QueryEscape_set: "set (QueryEscape s) \<subseteq> {x. unreserved x} \<union> {CHR ''%'', CHR ''+''}"
  using escape_char_set by (fastforce simp: QueryEscape_def)

lemma QueryEscape_free:
  "x \<in> {CHR ''&'', CHR ''='', CHR '';'', CHR ''#'', CHR ''?''} \<Longrightarrow> x \<notin> set (QueryEscape s)"
  using QueryEscape_set [of s] unreserved_plain [of x] by auto

lemma unescape_escape_char: "QueryUnescape (escape_char c @ s) = map_sum (\<lambda>e. e) (Cons c) (QueryUnescape s)"
proof -
  have "char_of (16 * (of_char c div 16) + of_char c mod 16 :: nat) = c" by simp
  then show ?thesis
    using unreserved_plain [of c] by (auto simp: escape_char_def unhex_hexdigit)
qed

theorem unescape_escape: "QueryUnescape (QueryEscape s) = Inr s"
  by (induction s) (simp_all add: QueryEscape_def unescape_escape_char)

lemma split_join:
  "ss \<noteq> [] \<Longrightarrow> \<forall>s \<in> set ss. CHR ''&'' \<notin> set s \<Longrightarrow> split_on CHR ''&'' (join_with ''&'' ss) = ss"
proof (induction ss rule: induct_list012)
  case (3 s t ss)
  then show ?case by (simp add: split_on_append)
qed (auto simp: split_on_segment)

lemma parse_encode_setting: "parse_setting (encode_setting kv) = [kv]"
proof -
  have "CHR ''='' \<notin> set (QueryEscape (fst kv))" "CHR '';'' \<notin> set (encode_setting kv)"
    using QueryEscape_free by (auto simp: encode_setting_def)
  then have "cut CHR ''='' (encode_setting kv) = (QueryEscape (fst kv), QueryEscape (snd kv))"
    by (simp add: cut_def encode_setting_def takeWhile_append dropWhile_append)
  with \<open>CHR '';'' \<notin> set (encode_setting kv)\<close> show ?thesis
    by (simp add: parse_setting_def unescape_escape) (simp add: encode_setting_def)
qed

text \<open>Parsing what was encoded gives the settings back, ordered by their keys.\<close>

lemma parse_encode: "ParseQuery (Values_Encode vs) = sort_key fst vs"
proof (cases "vs = []")
  case True
  then show ?thesis by (simp add: Values_Encode_def ParseQuery_def parse_setting_def)
next
  case False
  then have "map encode_setting (sort_key fst vs) \<noteq> []" by (metis map_is_Nil_conv set_empty set_sort)
  moreover have "\<forall>s \<in> set (map encode_setting (sort_key fst vs)). CHR ''&'' \<notin> set s"
    using QueryEscape_free by (auto simp: encode_setting_def)
  ultimately have "split_on CHR ''&'' (Values_Encode vs) = map encode_setting (sort_key fst vs)"
    unfolding Values_Encode_def by (rule split_join)
  then show ?thesis
    by (simp add: ParseQuery_def parse_encode_setting comp_def)
qed

lemma map_of_sort_key: "distinct (map fst vs) \<Longrightarrow> map_of (sort_key fst vs) = map_of vs"
  by (subst map_of_inject_set) (auto simp: distinct_map)

end
