(* ===== verification/Store_Query.thy ===== *)
theory Store_Query
  imports Fetch_Worker
begin

text \<open>
  Listing and garbage collection of \<open>service/store/store.go\<close>: \<open>ListBids\<close> with its pages, and \<open>GC\<close>
  with the removal of stale bids and of data files. The walk of the data directory is an argument,
  the list of what it visits.
\<close>

section \<open>Listing\<close>

definition defaultListLimit :: int where "defaultListLimit = 10"
definition maxListLimit :: int where "maxListLimit = 1000"

datatype list_order = OrderDescending | OrderAscending

record bids_query =
  BidOffset :: string
  BidOrder :: list_order
  BidLimit :: int

definition zeroQuery :: bids_query where
  "zeroQuery = \<lparr>BidOffset = '''', BidOrder = OrderDescending, BidLimit = 0\<rparr>"

definition setDefaults :: "bids_query \<Rightarrow> bids_query" where
  "setDefaults q =
     (if BidLimit q = -1 then q\<lparr>BidLimit := maxListLimit\<rparr>
      else if BidLimit q \<le> 0 then q\<lparr>BidLimit := defaultListLimit\<rparr>
      else if BidLimit q > maxListLimit then q\<lparr>BidLimit := maxListLimit\<rparr>
      else q)"

text \<open>
  \<open>maxID\<close> is the lower case text of the largest ULID without entropy. Without an offset, an ascending
  query has no seek key.
\<close>

definition list_query :: "string \<Rightarrow> bids_query \<Rightarrow> Query" where
  "list_query maxID q =
     (let limit = (if BidOffset q \<noteq> '''' then BidLimit q + 1 else BidLimit q);
          seek = (if BidOffset q \<noteq> '''' then Some (ChildString dsPrefix (BidOffset q))
                  else if BidOrder q = OrderDescending then Some (ChildString dsPrefix maxID) else None)
      in \<lparr>Prefix = dsPrefix, Filters = [],
          Orders = [case BidOrder q of OrderDescending \<Rightarrow> OrderByKeyDescending | OrderAscending \<Rightarrow> OrderByKey],
          Limit = nat limit, Offset = 0, KeysOnly = False, SeekPrefix = seek\<rparr>)"

fun decodeAll ::
  "('d, 't, 'v) backend \<Rightarrow> Bid list \<Rightarrow> (go_error + key \<times> 'v) list \<Rightarrow> go_error + Bid list" where
  "decodeAll B acc [] = Inr acc"
| "decodeAll B acc (Inl e # rs) = Inl (Wrapv ''getting next result'' e)"
| "decodeAll B acc (Inr (k, v) # rs) =
     (case Decode B v of
        Inl e \<Rightarrow> Inl (Wrapv ''decoding value'' e)
      | Inr b \<Rightarrow> decodeAll B (acc @ [b]) rs)"

definition ListBids ::
  "('d, 't, 'v) backend \<Rightarrow> string \<Rightarrow> bids_query \<Rightarrow> 'd Store \<Rightarrow> go_error + Bid list" where
  "ListBids B maxID query s =
     (let q = setDefaults query in
      case QueryExtended B (db s) (list_query maxID q) of
        Inl e \<Rightarrow> Inl (Wrapv ''querying requests'' e)
      | Inr results \<Rightarrow>
          (case decodeAll B [] results of
             Inl e \<Rightarrow> Inl e
           | Inr l \<Rightarrow> Inr (if BidOffset q \<noteq> '''' \<and> l \<noteq> [] then tl l else l)))"

section \<open>Garbage collection\<close>

text \<open>
  One visit of the walk: the path, whether it failed, the mode of the file and when it was modified;
  \<open>os_Remove\<close> is what removing it answers.
\<close>

record visit =
  path :: string
  walkErr :: bool
  isSymlink :: bool
  isDir :: bool
  ModTime :: go_time

text \<open>
  The loop over the listed bids: the number of bids removed, the files to keep and to remove, and the
  database. \<open>now\<close> stands for the readings of the clock during the run.
\<close>

fun gcBids ::
  "('d, 't, 'v) backend \<Rightarrow> 'z libs_scheme \<Rightarrow> go_time \<Rightarrow> duration \<Rightarrow> 'd Store \<Rightarrow> Bid list \<Rightarrow>
     nat \<times> string set \<times> string set \<times> 'd \<Rightarrow> nat \<times> string set \<times> string set \<times> 'd" where
  "gcBids B L now discard s [] acc = acc"
| "gcBids B L now discard s (b # bs) (n, keep, remove, d) =
     gcBids B L now discard s bs
       (if discard > 0 \<and> Status b = AwaitingProposal \<and> time_Sub now (UpdatedAt b) > discard then
          (case StoreDelete B d (ChildString dsPrefix (ID b)) of
             (Some e, d1) \<Rightarrow> (n, keep, remove, d1)
           | (None, d1) \<Rightarrow> (Suc n, keep, remove, d1))
        else if Status b = Finalized then
          (n, keep, insert (dealDataFilePathFor s (ID b) (cid_String L (PayloadCid b))) remove, d)
        else (n, insert (dealDataFilePathFor s (ID b) (cid_String L (PayloadCid b))) keep, remove, d))"

definition shouldRemove :: "go_time \<Rightarrow> duration \<Rightarrow> string set \<Rightarrow> string set \<Rightarrow> visit \<Rightarrow> bool" where
  "shouldRemove now discard keep remove v \<longleftrightarrow>
     (if path v \<in> remove then True
      else if path v \<notin> keep then discard > 0 \<and> time_Sub now (ModTime v) > discard
      else False)"

text \<open>The walk: the files removed, in order, and how many files were evaluated.\<close>

fun walkFiles ::
  "(string \<Rightarrow> go_error option) \<Rightarrow> go_time \<Rightarrow> duration \<Rightarrow> string set \<Rightarrow> string set \<Rightarrow> visit list \<Rightarrow>
     string list \<times> nat" where
  "walkFiles os_Remove now discard keep remove [] = ([], 0)"
| "walkFiles os_Remove now discard keep remove (v # vs) =
     (case walkFiles os_Remove now discard keep remove vs of (removed, n) \<Rightarrow>
        if walkErr v then (removed, n)
        else if isSymlink v then (removed, n)
        else if isDir v then (removed, n)
        else if shouldRemove now discard keep remove v \<and> os_Remove (path v) = None
          then (path v # removed, Suc n)
        else (removed, Suc n))"

text \<open>The bids and files removed and the files evaluated, with the new database.\<close>

definition GC ::
  "('d, 't, 'v) backend \<Rightarrow> 'z libs_scheme \<Rightarrow> string \<Rightarrow> (string \<Rightarrow> go_error option) \<Rightarrow> go_time \<Rightarrow> duration \<Rightarrow>
     visit list \<Rightarrow> 'd Store \<Rightarrow> (nat \<times> string list \<times> nat) \<times> 'd Store" where
  "GC B L maxID os_Remove now discard visits s =
     (case ListBids B maxID zeroQuery s of
        Inl e \<Rightarrow> ((0, [], 0), s)
      | Inr bids \<Rightarrow>
          (case gcBids B L now discard s bids (0, {}, {}, db s) of (n, keep, remove, d) \<Rightarrow>
             (case walkFiles os_Remove now discard keep remove visits of (removed, evaluated) \<Rightarrow>
                ((n, removed, evaluated), s\<lparr>db := d\<rparr>))))"

text \<open>One tick of \<open>periodicalGC\<close>: nothing once the store is closed.\<close>

definition periodicalGC ::
  "('d, 't, 'v) backend \<Rightarrow> 'z libs_scheme \<Rightarrow> string \<Rightarrow> (string \<Rightarrow> go_error option) \<Rightarrow> go_time \<Rightarrow> duration \<Rightarrow>
     visit list \<Rightarrow> 'd Store \<Rightarrow> 'd Store" where
  "periodicalGC B L maxID os_Remove now discard visits s =
     (if ctxDone s then s else snd (GC B L maxID os_Remove now discard visits s))"

section \<open>Pages\<close>

text \<open>The ids in the order of a query, and those that come after an offset.\<close>

definition ordered_ids :: "list_order \<Rightarrow> string set \<Rightarrow> string list" where
  "ordered_ids ord ids =
     (case ord of OrderAscending \<Rightarrow> sorted_list_of_set ids | OrderDescending \<Rightarrow> rev (sorted_list_of_set ids))"

fun later_than :: "list_order \<Rightarrow> string \<Rightarrow> string \<Rightarrow> bool" where
  "later_than OrderAscending off i = (off < i)"
| "later_than OrderDescending off i = (i < off)"

definition page :: "list_order \<Rightarrow> string \<Rightarrow> nat \<Rightarrow> string set \<Rightarrow> string list" where
  "page ord off n ids =
     take n (filter (\<lambda>i. off = '''' \<or> later_than ord off i) (ordered_ids ord ids))"

definition le_in :: "list_order \<Rightarrow> string \<Rightarrow> string \<Rightarrow> bool" where
  "le_in ord a b = (case ord of OrderAscending \<Rightarrow> a \<le> b | OrderDescending \<Rightarrow> b \<le> a)"

lemma le_in_simps [simp]: "le_in OrderAscending = (\<le>)" "le_in OrderDescending = (\<ge>)"
  by (simp_all add: le_in_def fun_eq_iff)

lemma ordered_ids_facts:
  assumes "finite ids"
  shows "set (ordered_ids ord ids) = ids" "distinct (ordered_ids ord ids)"
    "sorted_wrt (le_in ord) (ordered_ids ord ids)"
  using assms by (cases ord; simp add: ordered_ids_def sorted_wrt_rev)+

lemma ordered_ids_unique:
  assumes "finite ids" "set xs = ids" "distinct xs" "sorted_wrt (le_in ord) xs"
  shows "xs = ordered_ids ord ids"
proof (cases ord)
  case OrderAscending
  with assms show ?thesis
    by (auto simp add: ordered_ids_def sorted_list_of_set.idem_if_sorted_distinct)
next
  case OrderDescending
  with assms have "sorted (rev xs)" "distinct (rev xs)" "set (rev xs) = ids"
    by (simp_all add: sorted_wrt_rev)
  with OrderDescending assms(1) show ?thesis
    by (metis (no_types, lifting) list_order.simps(3) ordered_ids_def rev_rev_ident
        sorted_list_of_set.idem_if_sorted_distinct)
qed

lemma ordered_filter:
  assumes "finite ids"
  shows "filter P (ordered_ids ord ids) = ordered_ids ord {i \<in> ids. P i}"
proof (rule ordered_ids_unique)
  show "finite {i \<in> ids. P i}" using assms by simp
  show "set (filter P (ordered_ids ord ids)) = {i \<in> ids. P i}"
    using ordered_ids_facts(1) [OF assms] by auto
  show "distinct (filter P (ordered_ids ord ids))"
    using ordered_ids_facts(2) [OF assms] by simp
  show "sorted_wrt (le_in ord) (filter P (ordered_ids ord ids))"
    using ordered_ids_facts(3) [OF assms] by (rule sorted_wrt_filter)
qed

lemma ordered_from:
  assumes "finite ids" "off \<in> ids"
  shows "ordered_ids ord {i \<in> ids. le_in ord off i} = off # filter (later_than ord off) (ordered_ids ord ids)"
proof (rule ordered_ids_unique [symmetric])
  show "finite {i \<in> ids. le_in ord off i}" using assms by simp
  show "set (off # filter (later_than ord off) (ordered_ids ord ids)) = {i \<in> ids. le_in ord off i}"
    using ordered_ids_facts(1) [OF assms(1), of ord] assms(2) by (cases ord) (auto simp: le_in_def)
  show "distinct (off # filter (later_than ord off) (ordered_ids ord ids))"
    using ordered_ids_facts(2) [OF assms(1)] by (cases ord) auto
  show "sorted_wrt (le_in ord) (off # filter (later_than ord off) (ordered_ids ord ids))"
    using sorted_wrt_filter [OF ordered_ids_facts(3) [OF assms(1)], of ord "later_than ord off"]
    by (cases ord) (auto simp: le_in_def)
qed

lemma setDefaults_limit: "1 \<le> BidLimit (setDefaults q) \<and> BidLimit (setDefaults q) \<le> maxListLimit"
  by (simp add: setDefaults_def maxListLimit_def defaultListLimit_def)

lemma setDefaults_rest [simp]:
  "BidOffset (setDefaults q) = BidOffset q" "BidOrder (setDefaults q) = BidOrder q"
  by (simp_all add: setDefaults_def)

lemma list_query_simps [simp]:
  "plain_query (list_query maxID q)" "Prefix (list_query maxID q) = dsPrefix"
  by (auto simp: list_query_def plain_query_def Let_def split: list_order.split)

lemma list_order_le: "key_order (Orders (list_query maxID q)) (key_string (ChildString p a)) (key_string (ChildString p b))
    \<longleftrightarrow> le_in (BidOrder q) a b"
  by (simp add: list_query_def Let_def key_order_def le_in_def key_string_ChildString append_le_same
      split: list_order.split)

definition passes :: "string \<Rightarrow> bids_query \<Rightarrow> string \<Rightarrow> bool" where
  "passes maxID q i \<longleftrightarrow>
     (if BidOffset q \<noteq> '''' then le_in (BidOrder q) (BidOffset q) i
      else BidOrder q = OrderDescending \<longrightarrow> i \<le> maxID)"

lemma seek_passes:
  "seek_ok (key_order (Orders (list_query maxID q))) (SeekPrefix (list_query maxID q)) (ChildString dsPrefix i)
     \<longleftrightarrow> passes maxID q i"
proof -
  have "SeekPrefix (list_query maxID q) =
      (if BidOffset q \<noteq> '''' then Some (ChildString dsPrefix (BidOffset q))
       else if BidOrder q = OrderDescending then Some (ChildString dsPrefix maxID) else None)"
    by (simp add: list_query_def Let_def)
  then show ?thesis
    by (auto simp: seek_ok_def passes_def list_order_le le_in_def)
qed

text \<open>The entries of the bids, in the order of the query.\<close>

lemma list_entries:
  assumes "stores dec view m" "answers view (list_query maxID q) es"
  shows "\<exists>vs. es = map (\<lambda>i. (ChildString dsPrefix i, vs i))
      (take_limit (Limit (list_query maxID q)) (ordered_ids (BidOrder q) {i \<in> dom m. passes maxID q i})) \<and>
    (\<forall>i \<in> dom m. view (ChildString dsPrefix i) = Some (vs i))"
proof -
  let ?q = "list_query maxID q" and ?vs = "\<lambda>i. the (view (ChildString dsPrefix i))"
  obtain full where full: "es = take_limit (Limit ?q) full" "distinct (map fst full)"
    "set full = {(k, v). view k = Some v \<and> below dsPrefix k \<and>
       seek_ok (key_order (Orders ?q)) (SeekPrefix ?q) k}"
    "sorted_wrt (key_order (Orders ?q)) (map (key_string \<circ> fst) full)"
    using assms(2) by (auto simp: answers_def)
  let ?ids = "map (key_Base \<circ> fst) full"
  have flat: "flat dsPrefix view" using assms(1) by (simp add: stores_def)
  have dom: "i \<in> dom m \<longleftrightarrow> view (ChildString dsPrefix i) \<noteq> None" for i
  proof -
    have "stored_at dec view m i" using assms(1) by (simp add: stores_def)
    then show ?thesis by (cases "m i") (auto simp: stored_at_def)
  qed
  have child: "e = (ChildString dsPrefix (key_Base (fst e)), ?vs (key_Base (fst e)))" if mem: "e \<in> set full" for e
  proof -
    obtain k v where e: "e = (k, v)" by fastforce
    have kv: "view k = Some v" "below dsPrefix k" using mem full(3) by (simp_all add: e)
    then have "view k \<noteq> None" by simp
    with kv(2) flat obtain i where "k = ChildString dsPrefix i" unfolding flat_def by blast
    with kv(1) show ?thesis by (simp add: e)
  qed
  then have "map (\<lambda>e. (ChildString dsPrefix (key_Base (fst e)), ?vs (key_Base (fst e)))) full = full"
    by (intro map_idI) simp
  then have entries: "full = map (\<lambda>i. (ChildString dsPrefix i, ?vs i)) ?ids"
    by (simp add: comp_def)
  have keys: "map fst full = map (ChildString dsPrefix) ?ids"
    using arg_cong [OF entries, of "map fst"] by (simp add: comp_def)
  have "distinct ?ids" using full(2) keys by (metis distinct_map)
  moreover have "set ?ids = {i \<in> dom m. passes maxID q i}"
  proof -
    have "i \<in> set ?ids \<longleftrightarrow> ChildString dsPrefix i \<in> set (map fst full)" for i
      unfolding keys set_map by (simp add: image_iff)
    also have "ChildString dsPrefix i \<in> set (map fst full) \<longleftrightarrow> i \<in> dom m \<and> passes maxID q i" for i
    proof -
      have "ChildString dsPrefix i \<in> set (map fst full) \<longleftrightarrow> (\<exists>v. (ChildString dsPrefix i, v) \<in> set full)"
        by force
      also have "\<dots> \<longleftrightarrow> i \<in> dom m \<and> passes maxID q i"
        unfolding full(3) by (auto simp: dom seek_passes)
      finally show ?thesis .
    qed
    finally show ?thesis by blast
  qed
  moreover have "sorted_wrt (le_in (BidOrder q)) ?ids"
  proof -
    have "map (key_string \<circ> fst) full = map (\<lambda>i. key_string (ChildString dsPrefix i)) ?ids"
      using arg_cong [OF entries, of "map (key_string \<circ> fst)"] by (simp add: comp_def)
    with full(4) show ?thesis
      by (simp add: sorted_wrt_map list_order_le del: map_map)
  qed
  ultimately have "?ids = ordered_ids (BidOrder q) {i \<in> dom m. passes maxID q i}"
    by (metis List.finite_set ordered_ids_unique)
  then have "es = map (\<lambda>i. (ChildString dsPrefix i, ?vs i))
      (take_limit (Limit ?q) (ordered_ids (BidOrder q) {i \<in> dom m. passes maxID q i}))"
    unfolding full(1) using arg_cong [OF entries, of "take_limit (Limit ?q)"] by (simp only: take_limit_map)
  moreover have "\<forall>i \<in> dom m. view (ChildString dsPrefix i) = Some (?vs i)"
    using dom by auto
  ultimately have "es = map (\<lambda>i. (ChildString dsPrefix i, ?vs i))
      (take_limit (Limit ?q) (ordered_ids (BidOrder q) {i \<in> dom m. passes maxID q i})) \<and>
    (\<forall>i \<in> dom m. view (ChildString dsPrefix i) = Some (?vs i))" by (rule conjI)
  then show ?thesis by (rule exI [of _ ?vs])
qed

lemma decodeAll_map:
  assumes "\<forall>i \<in> set ids. Decode B (vs i) = Inr (bs i)"
  shows "decodeAll B acc (map Inr (map (\<lambda>i. (ChildString p i, vs i)) ids)) = Inr (acc @ map bs ids)"
  using assms by (induction ids arbitrary: acc) auto

context reliable_backend
begin

lemma finite_bids: "represents (Decode B) (vd d) m \<Longrightarrow> finite (dom m)"
proof -
  assume rep: "represents (Decode B) (vd d) m"
  let ?q = "list_query '''' \<lparr>BidOffset = '''', BidOrder = OrderAscending, BidLimit = 0\<rparr>"
  obtain es where es: "QueryExtended B d ?q = Inr (map Inr es)" using query_ext_reliable by blast
  have "answers (vd d) ?q es" by (rule query_ext_law [OF _ es]) simp_all
  then obtain full where "set full = {(k, v). vd d k = Some v \<and> below dsPrefix k \<and>
      seek_ok (key_order (Orders ?q)) (SeekPrefix ?q) k}" by (auto simp: answers_def)
  then have "dom m \<subseteq> (key_Base \<circ> fst) ` set full"
  proof -
    assume full: "set full = {(k, v). vd d k = Some v \<and> below dsPrefix k \<and>
      seek_ok (key_order (Orders ?q)) (SeekPrefix ?q) k}"
    show ?thesis
    proof
      fix i assume "i \<in> dom m"
      then obtain v where "vd d (ChildString dsPrefix i) = Some v"
        using represents_get [OF rep] by blast
      then have "(ChildString dsPrefix i, v) \<in> set full"
        using full by (simp add: seek_passes passes_def)
      then show "i \<in> (key_Base \<circ> fst) ` set full" by force
    qed
  qed
  then show "finite (dom m)" by (rule finite_subset) simp
qed

lemma ListBids_all:
  assumes "represents (Decode B) (vd (db s)) m"
  shows "ListBids B maxID q s = Inr (map (\<lambda>i. the (m i))
    (let ids = take (nat (BidLimit (setDefaults q)) + (if BidOffset q = '''' then 0 else 1))
           (ordered_ids (BidOrder q) {i \<in> dom m. passes maxID (setDefaults q) i})
     in if BidOffset q \<noteq> '''' then tl ids else ids))"
proof -
  let ?q = "setDefaults q"
  obtain es where es: "QueryExtended B (db s) (list_query maxID ?q) = Inr (map Inr es)"
    using query_ext_reliable by blast
  have ans: "answers (vd (db s)) (list_query maxID ?q) es"
    by (rule query_ext_law [OF _ es]) simp_all
  have st: "stores (Decode B) (vd (db s)) m" using assms by (simp add: represents_def)
  let ?ids = "take_limit (Limit (list_query maxID ?q)) (ordered_ids (BidOrder q) {i \<in> dom m. passes maxID ?q i})"
  obtain vs where vs: "es = map (\<lambda>i. (ChildString dsPrefix i, vs i)) ?ids"
    "\<forall>i \<in> dom m. vd (db s) (ChildString dsPrefix i) = Some (vs i)"
    using list_entries [OF st ans] by auto
  have fin: "finite {i \<in> dom m. passes maxID ?q i}" using finite_bids [OF assms] by simp
  have "Decode B (vs i) = Inr (the (m i))" if i: "i \<in> dom m" for i
  proof -
    from i obtain b where b: "m i = Some b" by blast
    with represents_get [OF assms b] vs(2) i show ?thesis by auto
  qed
  then have "\<forall>i \<in> set ?ids. Decode B (vs i) = Inr (the (m i))"
    using ordered_ids_facts(1) [OF fin] by (auto simp: take_limit_def dest!: in_set_takeD)
  from decodeAll_map [OF this, of "[]" dsPrefix]
  have "decodeAll B [] (map Inr es) = Inr (map (\<lambda>i. the (m i)) ?ids)" unfolding vs(1) by simp
  moreover have "Limit (list_query maxID ?q) =
      nat (BidLimit ?q) + (if BidOffset q = '''' then 0 else 1)" "Limit (list_query maxID ?q) \<noteq> 0"
    using setDefaults_limit [of q] by (auto simp: list_query_def Let_def)
  ultimately show ?thesis
    using es by (auto simp: ListBids_def Let_def take_limit_def map_tl)
qed

lemma ListBids_page:
  assumes "represents (Decode B) (vd (db s)) m"
    and "BidOffset q = '''' \<or> BidOffset q \<in> dom m"
    and "\<forall>i \<in> dom m. i \<le> maxID"
  shows "ListBids B maxID q s =
    Inr (map (\<lambda>i. the (m i)) (page (BidOrder q) (BidOffset q) (nat (BidLimit (setDefaults q))) (dom m)))"
proof -
  note fin = finite_bids [OF assms(1)]
  show ?thesis
  proof (cases "BidOffset q = ''''")
    case True
    then have "{i \<in> dom m. passes maxID (setDefaults q) i} = dom m"
      using assms(3) by (auto simp: passes_def)
    with True show ?thesis by (simp add: ListBids_all [OF assms(1)] page_def)
  next
    case False
    then have "{i \<in> dom m. passes maxID (setDefaults q) i} = {i \<in> dom m. le_in (BidOrder q) (BidOffset q) i}"
      by (auto simp: passes_def)
    with False assms(2) ordered_from [OF fin] show ?thesis
      by (simp add: ListBids_all [OF assms(1)] page_def)
  qed
qed

end

lemma filter_later:
  assumes "finite ids" "k < length (ordered_ids ord ids)"
  shows "filter (later_than ord (ordered_ids ord ids ! k)) (ordered_ids ord ids) = drop (Suc k) (ordered_ids ord ids)"
proof -
  let ?xs = "ordered_ids ord ids"
  have split: "?xs = take k ?xs @ ?xs ! k # drop (Suc k) ?xs" by (rule id_take_nth_drop [OF assms(2)])
  have wrt: "sorted_wrt (le_in ord) (take k ?xs @ ?xs ! k # drop (Suc k) ?xs)"
    using ordered_ids_facts(3) [OF assms(1)] split by metis
  have dist: "distinct (take k ?xs @ ?xs ! k # drop (Suc k) ?xs)"
    using ordered_ids_facts(2) [OF assms(1)] split by metis
  have before: "\<not> later_than ord (?xs ! k) i" if "i \<in> set (take k ?xs)" for i
    using that wrt by (cases ord) (auto simp: sorted_wrt_append)
  have after: "later_than ord (?xs ! k) i" if "i \<in> set (drop (Suc k) ?xs)" for i
    using that wrt dist by (cases ord) (auto simp: sorted_wrt_append order.strict_iff_order)
  have "\<not> later_than ord (?xs ! k) (?xs ! k)" by (cases ord) auto
  then have "filter (later_than ord (?xs ! k)) (take k ?xs @ ?xs ! k # drop (Suc k) ?xs) = drop (Suc k) ?xs"
    using before after by (simp add: filter_id_conv filter_empty_conv)
  with split show ?thesis by metis
qed

lemma page_after:
  assumes "finite ids" "'''' \<notin> ids" "0 < n" "n \<le> card ids"
  shows "page ord (last (page ord '''' n ids)) k ids = take k (drop n (ordered_ids ord ids))"
proof -
  let ?xs = "ordered_ids ord ids"
  have len: "length ?xs = card ids"
    using ordered_ids_facts(1,2) [OF assms(1)] by (metis distinct_card)
  then have last: "last (page ord '''' n ids) = ?xs ! (n - 1)"
    using assms(3,4) by (subst last_conv_nth) (auto simp: page_def)
  have "?xs ! (n - 1) \<in> ids"
    using ordered_ids_facts(1) [OF assms(1), of ord] len assms(3,4) nth_mem [of "n - 1" ?xs] by simp
  then have "?xs ! (n - 1) \<noteq> ''''" using assms(2) by metis
  then show ?thesis
    unfolding last using filter_later [OF assms(1), of "n - 1" ord] len assms(3,4) by (simp add: page_def)
qed

text \<open>
  C28: listing by pages enumerates the bids: the page asked for with the last id of a full first page
  as its offset holds exactly the bids that follow in the order of the query, so that the two pages
  together are the beginning of the whole list, without a gap or a repetition.
\<close>

theorem pages_enumerate:
  assumes "reliable_backend B vd vt" and "represents (Decode B) (vd (db s)) m"
    and "\<forall>i \<in> dom m. i \<noteq> '''' \<and> i \<le> maxID"
    and "BidLimit q = int n" and "0 < n" and "n \<le> card (dom m)" and "n \<le> 1000"
    and "ListBids B maxID (q\<lparr>BidOffset := ''''\<rparr>) s = Inr first"
    and "ListBids B maxID (q\<lparr>BidOffset := ID (last first)\<rparr>) s = Inr second"
  shows "first @ second = map (\<lambda>i. the (m i)) (take (2 * n) (ordered_ids (BidOrder q) (dom m)))"
proof -
  let ?xs = "ordered_ids (BidOrder q) (dom m)" and ?bid = "\<lambda>i. the (m i)"
  note fin = reliable_backend.finite_bids [OF assms(1,2)]
  have ne: "'''' \<notin> dom m" and le: "\<forall>i \<in> dom m. i \<le> maxID" using assms(3) by auto
  have limit: "nat (BidLimit (setDefaults (q\<lparr>BidOffset := off\<rparr>))) = n" for off
    using assms(4,5,7) by (simp add: setDefaults_def maxListLimit_def)
  have set: "set ?xs = dom m" "length ?xs = card (dom m)"
    using ordered_ids_facts(1,2) [OF fin] by (metis, metis distinct_card)
  have first: "first = map ?bid (page (BidOrder q) '''' n (dom m))"
    using reliable_backend.ListBids_page [OF assms(1,2), of "q\<lparr>BidOffset := ''''\<rparr>" maxID] assms(8) le limit
    by simp
  let ?off = "last (page (BidOrder q) '''' n (dom m))"
  have nonempty: "page (BidOrder q) '''' n (dom m) \<noteq> []"
    using set(2) assms(5,6) by (auto simp: page_def)
  have "set (page (BidOrder q) '''' n (dom m)) \<subseteq> dom m"
    using set(1) by (auto simp: page_def dest: in_set_takeD)
  with last_in_set [OF nonempty] have off: "?off \<in> dom m" by blast
  then obtain b where "m ?off = Some b" by blast
  with represents_get [OF assms(2) this] have "ID (?bid ?off) = ?off" by simp
  then have "ID (last first) = ?off"
    unfolding first by (simp add: last_map nonempty)
  then have "second = map ?bid (page (BidOrder q) ?off n (dom m))"
    using reliable_backend.ListBids_page [OF assms(1,2), of "q\<lparr>BidOffset := ?off\<rparr>" maxID] assms(9) le limit off
    by simp
  then have "first @ second = map ?bid (take n ?xs @ take n (drop n ?xs))"
    unfolding first page_after [OF fin ne assms(5,6)] by (simp add: page_def)
  also have "take n ?xs @ take n (drop n ?xs) = take (2 * n) ?xs"
    by (simp add: take_add [symmetric] mult_2)
  finally show ?thesis .
qed

text \<open>
  A page whose offset is the id of a bid that is gone, as garbage collection leaves it between two
  pages, skips a bid: the first one after the offset is dropped in place of the offset itself.
\<close>

theorem page_after_removed_bid_skips_one:
  assumes "reliable_backend B vd vt" and "represents (Decode B) (vd (db s)) m"
    and "BidOffset q \<noteq> ''''" and "BidOffset q \<notin> dom m"
    and "ListBids B maxID q s = Inr bids"
  shows "bids = map (\<lambda>i. the (m i)) (tl (page (BidOrder q) (BidOffset q)
    (Suc (nat (BidLimit (setDefaults q)))) (dom m)))"
proof -
  note fin = reliable_backend.finite_bids [OF assms(1,2)]
  have "{i \<in> dom m. passes maxID (setDefaults q) i} = {i \<in> dom m. later_than (BidOrder q) (BidOffset q) i}"
    using assms(3,4) by (cases "BidOrder q") (auto simp: passes_def order.strict_iff_order)
  with assms(3,5) reliable_backend.ListBids_all [OF assms(1,2), of maxID q] show ?thesis
    by (simp add: page_def ordered_filter [OF fin])
qed

section \<open>What garbage collection removes\<close>

definition file_of :: "'z libs_scheme \<Rightarrow> 'd Store \<Rightarrow> Bid \<Rightarrow> string" where
  "file_of L s b = dealDataFilePathFor s (ID b) (cid_String L (PayloadCid b))"

definition stale :: "go_time \<Rightarrow> duration \<Rightarrow> Bid \<Rightarrow> bool" where
  "stale now discard b \<longleftrightarrow> discard > 0 \<and> Status b = AwaitingProposal \<and> time_Sub now (UpdatedAt b) > discard"

lemma gcBids_step:
  "gcBids B L now discard s (b # bs) (n, keep, remove, d) = gcBids B L now discard s bs
     (if stale now discard b then
        (case StoreDelete B d (ChildString dsPrefix (ID b)) of
           (e, d1) \<Rightarrow> (if e = None then Suc n else n, keep, remove, d1))
      else if Status b = Finalized then (n, keep, insert (file_of L s b) remove, d)
      else (n, insert (file_of L s b) keep, remove, d))"
  by (auto simp: stale_def file_of_def split: prod.split option.split)

lemma gcBids_files:
  "gcBids B L now discard s bs (n, keep, remove, d) = (n', keep', remove', d') \<Longrightarrow>
     keep' \<subseteq> keep \<union> file_of L s ` set bs \<and>
     remove' \<subseteq> remove \<union> file_of L s ` {b \<in> set bs. Status b = Finalized}"
proof (induction bs arbitrary: n keep remove d)
  case (Cons b bs)
  let ?acc = "if stale now discard b then
        (case StoreDelete B d (ChildString dsPrefix (ID b)) of
           (e, d1) \<Rightarrow> (if e = None then Suc n else n, keep, remove, d1))
      else if Status b = Finalized then (n, keep, insert (file_of L s b) remove, d)
      else (n, insert (file_of L s b) keep, remove, d)"
  obtain n1 k1 r1 d1 where acc: "?acc = (n1, k1, r1, d1)" by (metis prod_cases4)
  then have "k1 \<subseteq> insert (file_of L s b) keep"
    "r1 \<subseteq> (if Status b = Finalized then insert (file_of L s b) remove else remove)"
    by (auto split: prod.split_asm if_split_asm)
  moreover have "gcBids B L now discard s bs (n1, k1, r1, d1) = (n', keep', remove', d')"
    using Cons.prems unfolding gcBids_step acc .
  note Cons.IH [OF this]
  moreover have "set (b # bs) = insert b (set bs)" by simp
  moreover have "{b' \<in> set (b # bs). Status b' = Finalized} =
      (if Status b = Finalized then insert b {b \<in> set bs. Status b = Finalized} else {b \<in> set bs. Status b = Finalized})"
    by auto
  ultimately show ?case
    by (simp only: image_insert split: if_splits) blast+
qed simp

lemma represents_delete:
  assumes "represents dec view m" "case m i of None \<Rightarrow> True | Some b \<Rightarrow> Status b \<noteq> QueuedData \<and> Status b \<noteq> FetchingData"
  shows "represents dec (view(ChildString dsPrefix i := None)) (m(i := None))"
proof -
  let ?view = "view(ChildString dsPrefix i := None)" and ?m = "m(i := None)"
  have "stored_at dec ?view ?m j" for j
  proof (cases "j = i")
    case True
    then show ?thesis by (simp add: stored_at_def)
  next
    case False
    then have "stored_at dec ?view ?m j = stored_at dec view m j"
      by (intro stored_at_cong) simp_all
    with represents_at(1) [OF assms(1)] show ?thesis by simp
  qed
  then have "stores dec ?view ?m"
    using represents_at(4) [OF assms(1)] by (simp add: stores_def flat_child)
  moreover have "indexed ?view ?m p st"
    if "indexed view m p st" "\<not> below p (ChildString dsPrefix i)" "st = QueuedData \<or> st = FetchingData" for p st
    using that assms(2)
    by (auto simp: indexed_frame) (auto simp: indexed_def index_at_def split: option.splits)
  ultimately show ?thesis using assms(1) by (simp add: represents_def)
qed

context bid_backend
begin

lemma decodeAll_Inr: "decodeAll B acc rs = Inr l \<Longrightarrow> \<exists>es. rs = map Inr es"
proof (induction rs arbitrary: acc)
  case (Cons r rs)
  then obtain k v where "r = Inr (k, v)" by (cases r) auto
  with Cons obtain es where "rs = map Inr es" by (auto split: sum.split_asm)
  with \<open>r = Inr (k, v)\<close> show ?case by (intro exI [of _ "(k, v) # es"]) simp
qed simp

lemma decodeAll_set: "decodeAll B acc (map Inr es) = Inr l \<Longrightarrow>
    set l \<subseteq> set acc \<union> {b. \<exists>(k, v) \<in> set es. Decode B v = Inr b}"
proof (induction es arbitrary: acc)
  case (Cons e es)
  obtain k v where e: "e = (k, v)" by fastforce
  with Cons.prems obtain b where b: "Decode B v = Inr b" by (auto split: sum.split_asm)
  with Cons.prems e have "decodeAll B (acc @ [b]) (map Inr es) = Inr l" by simp
  from Cons.IH [OF this] b e show ?case by auto
qed simp

lemma ListBids_stored:
  assumes "represents (Decode B) (vd (db s)) m" "ListBids B maxID q s = Inr bids" "b \<in> set bids"
  shows "m (ID b) = Some b"
proof -
  obtain rs l where rs: "QueryExtended B (db s) (list_query maxID (setDefaults q)) = Inr rs"
    and l: "decodeAll B [] rs = Inr l" and bids: "set bids \<subseteq> set l"
    using assms(2) by (auto simp: ListBids_def Let_def dest: list.set_sel(2) split: sum.split_asm if_split_asm)
  obtain es where es: "rs = map Inr es" using decodeAll_Inr [OF l] by blast
  have ans: "answers (vd (db s)) (list_query maxID (setDefaults q)) es"
    by (rule query_ext_law [OF _ rs es]) simp
  have st: "stores (Decode B) (vd (db s)) m" using assms(1) by (simp add: represents_def)
  from list_entries [OF st ans] obtain vs ids where vs: "es = map (\<lambda>i. (ChildString dsPrefix i, vs i)) (take_limit
      (Limit (list_query maxID (setDefaults q))) ids)"
    "ids = ordered_ids (BidOrder (setDefaults q)) {i \<in> dom m. passes maxID (setDefaults q) i}"
    "\<forall>i \<in> dom m. vd (db s) (ChildString dsPrefix i) = Some (vs i)" by blast
  from decodeAll_set [OF l [unfolded es]] bids assms(3)
  obtain k v where kv: "(k, v) \<in> set es" "Decode B v = Inr b" by auto
  then obtain i where i: "i \<in> set ids" "v = vs i"
    unfolding vs(1) by (auto simp: take_limit_def dest: in_set_takeD split: if_split_asm)
  have "i \<in> dom m"
  proof (cases "finite {i \<in> dom m. passes maxID (setDefaults q) i}")
    case True
    with i(1) ordered_ids_facts(1) [OF True] show ?thesis unfolding vs(2) by blast
  next
    case False
    with i(1) show ?thesis unfolding vs(2) by (cases "BidOrder (setDefaults q)") (simp_all add: ordered_ids_def)
  qed
  then obtain b' where b': "m i = Some b'" by blast
  with represents_get [OF assms(1) b'] obtain va where va: "ID b' = i"
    "vd (db s) (ChildString dsPrefix i) = Some va" "Decode B va = Inr b'" by blast
  moreover from vs(3) \<open>i \<in> dom m\<close> va(2) have "va = vs i" by simp
  ultimately show ?thesis using kv(2) i(2) b' by auto
qed

lemma gcBids_represents:
  assumes "represents (Decode B) (vd d) (m |` (- gone))" "\<forall>b \<in> set bs. m (ID b) = Some b"
    and "gcBids B L now discard s bs (n, keep, remove, d) = (n', keep', remove', d')"
  shows "\<exists>gone'. represents (Decode B) (vd d') (m |` (- (gone \<union> gone'))) \<and>
    gone' \<subseteq> ID ` {b \<in> set bs. stale now discard b}"
  using assms
proof (induction bs arbitrary: n keep remove d gone)
  case Nil
  then show ?case by (intro exI [of _ "{}"]) simp
next
  case (Cons b bs)
  show ?case
  proof (cases "stale now discard b")
    case False
    then obtain k1 r1 where "gcBids B L now discard s bs (n, k1, r1, d) = (n', keep', remove', d')"
      using Cons.prems(3) unfolding gcBids_step by (auto split: if_split_asm)
    from Cons.IH [OF Cons.prems(1) _ this] Cons.prems(2) obtain gone' where
      "represents (Decode B) (vd d') (m |` (- (gone \<union> gone')))" "gone' \<subseteq> ID ` {b \<in> set bs. stale now discard b}"
      by auto
    then show ?thesis by (intro exI [of _ gone'] conjI) auto
  next
    case True
    obtain e d1 where del: "StoreDelete B d (ChildString dsPrefix (ID b)) = (e, d1)" by fastforce
    let ?gone = "if e = None then insert (ID b) gone else gone"
    have rep: "represents (Decode B) (vd d1) (m |` (- ?gone))"
    proof (cases e)
      case None
      have "(m |` (- gone))(ID b := None) = m |` (- insert (ID b) gone)"
        by (auto simp: restrict_map_def fun_eq_iff)
      moreover have "case (m |` (- gone)) (ID b) of None \<Rightarrow> True
          | Some b \<Rightarrow> Status b \<noteq> QueuedData \<and> Status b \<noteq> FetchingData"
        using Cons.prems(2) True by (simp add: restrict_map_def stale_def)
      ultimately show ?thesis
        using represents_delete [OF Cons.prems(1), of "ID b"] store_delete_ok [OF del [unfolded None]] None by simp
    next
      case (Some e')
      with Cons.prems(1) store_delete_fail [of d "ChildString dsPrefix (ID b)" e' d1] del show ?thesis by simp
    qed
    have rest: "gcBids B L now discard s bs (if e = None then Suc n else n, keep, remove, d1) = (n', keep', remove', d')"
      using Cons.prems(3) True del unfolding gcBids_step by simp
    have "\<forall>b \<in> set bs. m (ID b) = Some b" using Cons.prems(2) by simp
    from Cons.IH [OF rep this rest] obtain gone' where gone': "represents (Decode B) (vd d') (m |` (- (?gone \<union> gone')))"
      "gone' \<subseteq> ID ` {b \<in> set bs. stale now discard b}" by blast
    have eq: "?gone \<union> gone' = gone \<union> (if e = None then insert (ID b) gone' else gone')" by (cases e) auto
    have sub: "(if e = None then insert (ID b) gone' else gone') \<subseteq> ID ` {ba \<in> set (b # bs). stale now discard ba}"
      using gone'(2) True by auto
    show ?thesis
      by (rule exI [of _ "if e = None then insert (ID b) gone' else gone'"], rule conjI [OF gone'(1) [unfolded eq] sub])
  qed
qed

end

lemma walkFiles_removed:
  "walkFiles os_Remove now discard keep remove vs = (removed, n) \<Longrightarrow>
     set removed = path ` {v \<in> set vs. \<not> walkErr v \<and> \<not> isSymlink v \<and> \<not> isDir v \<and>
       shouldRemove now discard keep remove v \<and> os_Remove (path v) = None} \<and> length removed \<le> n"
  by (induction vs arbitrary: removed n) (auto split: prod.split_asm if_split_asm)

text \<open>
  C29: garbage collection removes no bid but those that have waited for a proposal longer than the
  configured time, whatever deletion fails, and no file but those of finalized bids and those not
  modified for that time; without a configured time only files of finalized bids go.
\<close>

theorem gc_removes_only_garbage:
  assumes "bid_backend B vd vt" and "represents (Decode B) (vd (db s)) m"
    and "GC B L maxID os_Remove now discard visits s = ((n, removed, evaluated), s')"
  shows "\<exists>gone. represents (Decode B) (vd (db s')) (m |` (- gone)) \<and>
    gone \<subseteq> {i. \<exists>b. m i = Some b \<and> stale now discard b} \<and>
    set removed \<subseteq> path ` set visits \<and>
    set removed \<subseteq> file_of L s ` {b \<in> ran m. Status b = Finalized} \<union>
      path ` {v \<in> set visits. discard > 0 \<and> time_Sub now (ModTime v) > discard}"
proof (cases "ListBids B maxID zeroQuery s")
  case (Inl e)
  with assms(2,3) show ?thesis by (intro exI [of _ "{}"]) (auto simp: GC_def restrict_map_def)
next
  case (Inr bids)
  obtain n1 keep remove d where gc: "gcBids B L now discard s bids (0, {}, {}, db s) = (n1, keep, remove, d)"
    by (metis prod_cases4)
  obtain rm ev where walk: "walkFiles os_Remove now discard keep remove visits = (rm, ev)" by fastforce
  have res: "removed = rm" "s' = s\<lparr>db := d\<rparr>"
    using assms(3) Inr gc walk by (simp_all add: GC_def)
  have stored: "\<forall>b \<in> set bids. m (ID b) = Some b"
    using bid_backend.ListBids_stored [OF assms(1,2) Inr] by blast
  have "represents (Decode B) (vd (db s)) (m |` (- {}))" using assms(2) by (simp add: restrict_map_def)
  from bid_backend.gcBids_represents [OF assms(1) this stored gc]
  obtain gone where "represents (Decode B) (vd d) (m |` (- gone))"
    "gone \<subseteq> ID ` {b \<in> set bids. stale now discard b}" by auto
  moreover have "remove \<subseteq> file_of L s ` {b \<in> ran m. Status b = Finalized}"
  proof -
    have "{b \<in> set bids. Status b = Finalized} \<subseteq> {b \<in> ran m. Status b = Finalized}"
      using stored by (auto simp: ran_def)
    with gcBids_files [OF gc] show ?thesis by blast
  qed
  moreover have "set rm \<subseteq> remove \<union> path ` {v \<in> set visits. discard > 0 \<and> time_Sub now (ModTime v) > discard}"
    "set rm \<subseteq> path ` set visits"
    using walkFiles_removed [OF walk] by (auto simp: shouldRemove_def split: if_split_asm)
  ultimately show ?thesis using stored res by (intro exI [of _ gone]) auto
qed

lemma ordered_beyond:
  assumes "finite ids" "i \<in> ids" "n \<le> card {j \<in> ids. later_than ord j i}"
  shows "i \<notin> set (take n (ordered_ids ord ids))"
proof
  let ?xs = "ordered_ids ord ids"
  assume "i \<in> set (take n ?xs)"
  then obtain k where k: "k < n" "k < length ?xs" "?xs ! k = i" by (auto simp: in_set_conv_nth)
  have "{j \<in> ids. later_than ord j i} \<subseteq> set (take k ?xs)"
  proof
    fix j assume j: "j \<in> {j \<in> ids. later_than ord j i}"
    then have "j \<in> set ?xs" using ordered_ids_facts(1) [OF assms(1)] by simp
    then obtain l where l: "l < length ?xs" "?xs ! l = j" by (auto simp: in_set_conv_nth)
    have "\<not> k \<le> l"
    proof
      assume "k \<le> l"
      with ordered_ids_facts(3) [OF assms(1), of ord] l(1) k(2) have "k = l \<or> le_in ord (?xs ! k) (?xs ! l)"
        by (metis nless_le sorted_wrt_iff_nth_less)
      with j l(2) k(3) show False by (cases ord) auto
    qed
    with l show "j \<in> set (take k ?xs)" by (auto simp: in_set_conv_nth)
  qed
  then have "card {j \<in> ids. later_than ord j i} \<le> card (set (take k ?xs))" by (rule card_mono [rotated]) simp
  also have "\<dots> \<le> k" using card_length [of "take k ?xs"] by simp
  finally show False using k(1) assms(3) by simp
qed

text \<open>
  The garbage collector looks at the newest ten bids only, as it lists with the zero query. A bid with
  ten newer ones is never discarded, and its file counts as an orphan: once it has not been modified
  for the configured time it is removed, though the bid may still be waiting to be fetched.
\<close>

theorem gc_ignores_older_bids:
  assumes "reliable_backend B vd vt" and "represents (Decode B) (vd (db s)) m"
    and "\<forall>j \<in> dom m. j \<le> maxID" and "m i = Some b" and "10 \<le> card {j \<in> dom m. i < j}"
    and "\<forall>b' \<in> ran m. file_of L s b' = file_of L s b \<longrightarrow> b' = b"
    and "v \<in> set visits" and "path v = file_of L s b" and "\<not> walkErr v" and "\<not> isSymlink v" and "\<not> isDir v"
    and "os_Remove (path v) = None" and "discard > 0" and "time_Sub now (ModTime v) > discard"
    and "GC B L maxID os_Remove now discard visits s = ((n, removed, evaluated), s')"
  shows "file_of L s b \<in> set removed \<and>
    (\<exists>m'. represents (Decode B) (vd (db s')) m' \<and> m' i = Some b)"
proof -
  note fin = reliable_backend.finite_bids [OF assms(1,2)]
  have bb: "bid_backend B vd vt" using assms(1) by (simp add: reliable_backend_def)
  let ?ids = "take 10 (ordered_ids OrderDescending (dom m))"
  have "ListBids B maxID zeroQuery s = Inr (map (\<lambda>i. the (m i)) ?ids)"
    using reliable_backend.ListBids_page [OF assms(1,2), of zeroQuery maxID] assms(3)
    by (simp add: zeroQuery_def setDefaults_def defaultListLimit_def page_def)
  then obtain bids where bids: "ListBids B maxID zeroQuery s = Inr bids" "bids = map (\<lambda>i. the (m i)) ?ids"
    by blast
  have "i \<notin> set ?ids" using ordered_beyond [OF fin, of i 10 OrderDescending] assms(4,5) by auto
  have stored: "\<forall>b' \<in> set bids. m (ID b') = Some b'"
    using bid_backend.ListBids_stored [OF bb assms(2) bids(1)] by blast
  have "ID b = i" using represents_get [OF assms(2,4)] by blast
  have listed: "i \<notin> ID ` set bids"
  proof
    assume "i \<in> ID ` set bids"
    then obtain j where "j \<in> set ?ids" "ID (the (m j)) = i" unfolding bids(2) by auto
    moreover from this(1) have "j \<in> dom m"
      using ordered_ids_facts(1) [OF fin, of OrderDescending] by (auto dest: in_set_takeD)
    then obtain b' where "m j = Some b'" by blast
    with represents_get [OF assms(2) this] have "ID (the (m j)) = j" by simp
    ultimately show False using \<open>i \<notin> set ?ids\<close> by simp
  qed
  obtain n1 keep remove d where gc: "gcBids B L now discard s bids (0, {}, {}, db s) = (n1, keep, remove, d)"
    by (metis prod_cases4)
  obtain rm ev where walk: "walkFiles os_Remove now discard keep remove visits = (rm, ev)" by fastforce
  have res: "removed = rm" "s' = s\<lparr>db := d\<rparr>"
    using assms(15) bids(1) gc walk by (simp_all add: GC_def)
  have "path v \<notin> keep"
  proof
    assume "path v \<in> keep"
    with gcBids_files [OF gc] assms(8) obtain b' where "b' \<in> set bids" "file_of L s b' = file_of L s b" by auto
    with stored assms(6) have "b \<in> set bids" by (metis ranI)
    with listed \<open>ID b = i\<close> show False by blast
  qed
  then have "shouldRemove now discard keep remove v" using assms(13,14) by (simp add: shouldRemove_def)
  with walkFiles_removed [OF walk] assms(7-12) have "file_of L s b \<in> set removed" unfolding res by force
  moreover have "represents (Decode B) (vd (db s)) (m |` (- {}))" using assms(2) by (simp add: restrict_map_def)
  from bid_backend.gcBids_represents [OF bb this stored gc]
  obtain gone where "represents (Decode B) (vd d) (m |` (- gone))"
    "gone \<subseteq> ID ` {b \<in> set bids. stale now discard b}" by auto
  with listed assms(4) have "\<exists>m'. represents (Decode B) (vd (db s')) m' \<and> m' i = Some b"
    unfolding res by (intro exI [of _ "m |` (- gone)"]) (auto simp: restrict_map_def)
  ultimately show ?thesis ..
qed

section \<open>Sample stores\<close>

lemma represents_put:
  assumes "represents dec view m" "m (ID b) = None" "Status b \<noteq> QueuedData" "Status b \<noteq> FetchingData" "dec v = Inr b"
  shows "represents dec (view(ChildString dsPrefix (ID b) \<mapsto> v)) (m(ID b \<mapsto> b))"
proof -
  have st: "stores dec view m" using assms(1) by (simp add: represents_def)
  have "indexed (view(ChildString dsPrefix (ID b) \<mapsto> v)) (m(ID b \<mapsto> b)) p st"
    if "indexed view m p st" "\<not> below p (ChildString dsPrefix (ID b))" "st = QueuedData \<or> st = FetchingData" for p st
    using that assms(2-4) by (auto simp: indexed_frame) (auto simp: indexed_def index_at_def)
  with stores_put [OF st assms(5)] assms(1) show ?thesis by (simp add: represents_def)
qed

definition sample_bids :: "string list \<Rightarrow> BidStatus \<Rightarrow> string \<rightharpoonup> Bid" where
  "sample_bids ids st = map_of (map (\<lambda>i. (i, sample_bid i st)) ids)"

definition sample_db :: "string list \<Rightarrow> BidStatus \<Rightarrow> (key \<times> Bid option) list" where
  "sample_db ids st = map (\<lambda>i. (ChildString dsPrefix i, Some (sample_bid i st))) ids"

lemma sample_bids_dom [simp]: "dom (sample_bids ids st) = set ids"
  by (simp add: sample_bids_def dom_map_of_conv_image_fst image_image)

lemma sample_bids_at: "sample_bids ids st i = (if i \<in> set ids then Some (sample_bid i st) else None)"
  by (induction ids) (auto simp: sample_bids_def)

lemma sample_represents:
  assumes "distinct ids" "st \<noteq> QueuedData" "st \<noteq> FetchingData"
  shows "represents (Decode mem_backend) (map_of (sample_db ids st)) (sample_bids ids st)"
  using assms
proof (induction ids)
  case Nil
  then show ?case by (simp add: sample_db_def sample_bids_def)
next
  case (Cons i ids)
  then have "sample_bids ids st i = None" by (simp add: sample_bids_at)
  moreover have "sample_bids (i # ids) st = (sample_bids ids st)(i \<mapsto> sample_bid i st)"
    "map_of (sample_db (i # ids) st) = (map_of (sample_db ids st))(ChildString dsPrefix i \<mapsto> Some (sample_bid i st))"
    by (simp_all add: sample_bids_def sample_db_def)
  ultimately show ?case
    using Cons represents_put [of "Decode mem_backend" "map_of (sample_db ids st)" "sample_bids ids st"
      "sample_bid i st" "Some (sample_bid i st)"] by (simp del: fun_upd_apply)
qed

definition eleven :: "string list" where
  "eleven = [''a'', ''b'', ''c'', ''d'', ''e'', ''f'', ''g'', ''h'', ''i'', ''j'', ''k'']"

definition old_file :: "string \<Rightarrow> visit" where
  "old_file p = \<lparr>path = p, walkErr = False, isSymlink = False, isDir = False, ModTime = 0\<rparr>"

theorem gc_ignores_older_bids_witness:
  "\<exists>r s'. GC mem_backend sample_libs ''z'' (\<lambda>_. None) 1000 500 [old_file ''/data/bafy_a'']
      (sample_store (sample_db eleven AwaitingProposal)) = (r, s') \<and> ''/data/bafy_a'' \<in> set (fst (snd r))"
proof -
  let ?s = "sample_store (sample_db eleven AwaitingProposal)" and ?m = "sample_bids eleven AwaitingProposal"
  let ?b = "sample_bid ''a'' AwaitingProposal" and ?v = "old_file ''/data/bafy_a''"
  obtain n rm ev s' where eq: "GC mem_backend sample_libs ''z'' (\<lambda>_. None) 1000 500 [?v] ?s = ((n, rm, ev), s')"
    by (metis surj_pair)
  have rep: "represents (Decode mem_backend) (map_of (db ?s)) ?m"
    using sample_represents [of eleven AwaitingProposal] by (simp add: eleven_def)
  have "{j \<in> dom ?m. ''a'' < j} = set (tl eleven)" by (auto simp: eleven_def)
  then have newer: "10 \<le> card {j \<in> dom ?m. ''a'' < j}" by (simp add: eleven_def)
  have at: "\<forall>i \<in> set eleven. file_of sample_libs ?s (sample_bid i AwaitingProposal) = ''/data/bafy_'' @ i"
    by (simp add: eleven_def file_of_def dealDataFilePathFor_def sample_defs path_Join_def path_Clean_def Let_def)
  have ran: "b \<in> ran ?m \<Longrightarrow> \<exists>i \<in> set eleven. b = sample_bid i AwaitingProposal" for b
    by (auto simp: ran_def sample_bids_at split: if_splits)
  have a: "''a'' \<in> set eleven" by (simp add: eleven_def)
  have same: "\<forall>b' \<in> ran ?m. file_of sample_libs ?s b' = file_of sample_libs ?s ?b \<longrightarrow> b' = ?b"
    using at a by (auto dest!: ran)
  have "''/data/bafy_a'' = file_of sample_libs ?s ?b" "?m ''a'' = Some ?b" "\<forall>j \<in> dom ?m. j \<le> ''z''"
    using at a by (simp_all add: sample_bids_at) (simp add: eleven_def)
  with gc_ignores_older_bids [OF memb.reliable_backend_axioms rep _ _ newer same _ _ _ _ _ _ _ _ eq, of ?v]
  have "''/data/bafy_a'' \<in> set rm" by (simp add: old_file_def time_Sub_def minDuration_def maxDuration_def)
  with eq show ?thesis by (intro exI [of _ "(n, rm, ev)"] exI [of _ s']) simp
qed

theorem pages_enumerate_witness:
  "\<exists>first second. ListBids mem_backend ''z'' \<lparr>BidOffset = '''', BidOrder = OrderAscending, BidLimit = 4\<rparr>
      (sample_store (sample_db eleven Submitted)) = Inr first \<and>
    ListBids mem_backend ''z'' \<lparr>BidOffset = ID (last first), BidOrder = OrderAscending, BidLimit = 4\<rparr>
      (sample_store (sample_db eleven Submitted)) = Inr second \<and>
    first @ second = map (\<lambda>i. sample_bid i Submitted) (take 8 eleven)"
proof -
  let ?s = "sample_store (sample_db eleven Submitted)" and ?m = "sample_bids eleven Submitted"
  let ?q = "\<lparr>BidOffset = '''', BidOrder = OrderAscending, BidLimit = 4\<rparr>"
  have rep: "represents (Decode mem_backend) (map_of (db ?s)) ?m"
    using sample_represents [of eleven Submitted] by (simp add: eleven_def)
  obtain first where first: "ListBids mem_backend ''z'' (?q\<lparr>BidOffset := ''''\<rparr>) ?s = Inr first"
    using memb.ListBids_all [OF rep] by blast
  obtain second where second: "ListBids mem_backend ''z'' (?q\<lparr>BidOffset := ID (last first)\<rparr>) ?s = Inr second"
    using memb.ListBids_all [OF rep] by blast
  have "sorted_list_of_set (set eleven) = eleven"
    by (rule sorted_list_of_set.idem_if_sorted_distinct) (simp_all add: eleven_def)
  then have "ordered_ids OrderAscending (dom ?m) = eleven" by (simp add: ordered_ids_def)
  moreover have "card (dom ?m) = 11" by (simp add: eleven_def)
  moreover have "\<forall>i \<in> dom ?m. i \<noteq> '''' \<and> i \<le> ''z''" by (simp add: eleven_def)
  ultimately have "first @ second = map (\<lambda>i. the (?m i)) (take 8 eleven)"
    using pages_enumerate [OF memb.reliable_backend_axioms rep _ _ _ _ _ first second, of 4] by simp
  also have "\<dots> = map (\<lambda>i. sample_bid i Submitted) (take 8 eleven)"
    by (simp add: eleven_def sample_bids_at)
  finally show ?thesis using first second by auto
qed

theorem gc_removes_only_garbage_witness:
  "\<exists>r s'. GC mem_backend sample_libs ''z'' (\<lambda>_. None) 1000 500 [old_file ''/data/x'']
      (sample_store (sample_db [''a''] Submitted)) = (r, s') \<and>
    represents (Decode mem_backend) (map_of (db s')) (sample_bids [''a''] Submitted)"
proof -
  let ?s = "sample_store (sample_db [''a''] Submitted)" and ?m = "sample_bids [''a''] Submitted"
  have rep: "represents (Decode mem_backend) (map_of (db ?s)) ?m"
    using sample_represents [of "[''a'']" Submitted] by simp
  obtain n rm ev s' where eq: "GC mem_backend sample_libs ''z'' (\<lambda>_. None) 1000 500 [old_file ''/data/x''] ?s =
      ((n, rm, ev), s')" by (metis surj_pair)
  from gc_removes_only_garbage [OF memb.bid_backend_axioms rep eq] obtain gone where
    gone: "represents (Decode mem_backend) (map_of (db s')) (?m |` (- gone))"
      "gone \<subseteq> {i. \<exists>b. ?m i = Some b \<and> stale 1000 500 b}" by blast
  have "gone = {}" using gone(2) by (auto simp: sample_bids_at stale_def split: if_splits)
  with gone(1) eq show ?thesis by (simp add: restrict_map_def)
qed

context reliable_backend
begin

text \<open>An index entry without its bid makes \<open>getNext\<close> fail once it is the first of the queue.\<close>

lemma getNext_stuck:
  assumes "represents (Decode B) view m" "least_queued m i"
    and "vd (db s) = view(ChildString dsPrefix i := None)"
  shows "getNext B now now' s = s"
proof -
  obtain t where t: "NewTransaction B (db s) = Inr t" "vt t = vd (db s)" by (rule txn_total)
  have "indexed view m dsQueuedPrefix QueuedData" using assms(1) by (simp add: represents_def)
  then have idx: "indexed (vt t) m dsQueuedPrefix QueuedData"
    using t(2) assms(3) by (simp add: indexed_frame)
  obtain es where es: "TxnQuery B t (index_query dsQueuedPrefix 1) = Inr (map Inr es)" using query_reliable by blast
  have "answers (vt t) (index_query dsQueuedPrefix 1) es" by (rule query_law [OF _ _ es]) simp_all
  from index_ids [OF idx this] obtain ids where ids: "map fst es = map (ChildString dsQueuedPrefix) (take_limit 1 ids)"
    "sorted ids" "set ids = with_status m QueuedData" by (metis with_status_def)
  with assms(2) obtain j rest where "ids = j # rest" by (cases ids) (auto simp: least_queued_def)
  moreover from this have "j \<in> with_status m QueuedData" "j \<le> i"
    using ids(2) assms(2) sorted_least [of j rest i] by (auto simp: least_queued_def ids(3) [symmetric])
  then have "j = i" using assms(2) by (auto simp: least_queued_def intro: order.antisym)
  ultimately obtain v where "es = [(ChildString dsQueuedPrefix i, v)]"
    using ids(1) by (auto simp: take_limit_def)
  moreover have "vt t (ChildString dsPrefix i) = None" using t(2) assms(3) by simp
  then have "getBid B (TxnGet B t) i = Inl ErrBidNotFound"
    using get_reliable_missing by (simp add: getBid_def ErrNotFound_def)
  ultimately have "getQueued B t = Inl (Wrapv ''getting bid'' ErrBidNotFound)"
    using es by (simp add: getQueued_def)
  with t(1) show ?thesis by (simp add: getNext_def)
qed

lemma gcBids_one:
  assumes "stale now discard b" "gcBids B L now discard s [b] (0, {}, {}, db s) = (n, keep, remove, d)"
  shows "n = 1 \<and> vd d = (vd (db s))(ChildString dsPrefix (ID b) := None)"
proof -
  obtain d' where del: "StoreDelete B (db s) (ChildString dsPrefix (ID b)) = (None, d')"
    using store_delete_reliable by blast
  with assms have "n = 1" "d = d'" by (simp_all add: gcBids_step del: gcBids.simps(2))
  with store_delete_ok [OF del] show ?thesis by simp
qed

end

text \<open>
  C40: the collector lists the bids first and deletes them later, outside a transaction and without their
  index entries. When the proposal of a listed bid arrives in between and the bid is queued, the
  deletion leaves its index entry behind; as soon as that entry is the first of the queue, taking the
  next bid fails on it at every tick, so that no bid behind it is fetched any more.
\<close>

theorem gc_race_blocks_the_queue:
  assumes "reliable_backend B vd vt" and "represents (Decode B) (vd (db s)) m" and "least_queued m (ID listed)"
    and "stale now discard listed"
    and "gcBids B L now discard s [listed] (0, {}, {}, db s) = (n, keep, remove, d)"
  shows "n = 1 \<and> getNext B t t' (s\<lparr>db := d\<rparr>) = s\<lparr>db := d\<rparr>"
proof -
  have gone: "n = 1 \<and> vd d = (vd (db s))(ChildString dsPrefix (ID listed) := None)"
    by (rule reliable_backend.gcBids_one [OF assms(1,4,5)])
  then have "vd (db (s\<lparr>db := d\<rparr>)) = (vd (db s))(ChildString dsPrefix (ID listed) := None)" by simp
  from reliable_backend.getNext_stuck [OF assms(1,2,3) this] gone show ?thesis by simp
qed

theorem gc_race_blocks_the_queue_witness:
  "\<exists>d. getNext mem_backend 7 8 (sample_store d) = sample_store d \<and>
     fst (gcBids mem_backend sample_libs 1000 500 (sample_store one_queued)
       [sample_bid ''a'' AwaitingProposal] (0, {}, {}, one_queued)) = 1"
proof -
  let ?s = "sample_store one_queued" and ?b = "sample_bid ''a'' AwaitingProposal"
  obtain n keep remove d where gc: "gcBids mem_backend sample_libs 1000 500 ?s [?b] (0, {}, {}, db ?s) =
      (n, keep, remove, d)" by (metis prod_cases4)
  have rep: "represents (Decode mem_backend) (map_of (db ?s)) [''a'' \<mapsto> sample_bid ''a'' QueuedData]"
    using one_queued_represents by simp
  have least: "least_queued [''a'' \<mapsto> sample_bid ''a'' QueuedData] (ID ?b)"
    by (simp add: least_queued_def with_status_def)
  have stale: "stale 1000 500 ?b"
    by (simp add: stale_def time_Sub_def minDuration_def maxDuration_def sample_bid_def)
  from gc_race_blocks_the_queue [OF memb.reliable_backend_axioms rep least stale gc, of 7 8] gc
  show ?thesis by (intro exI [of _ d]) (simp add: sample_store_def)
qed

end
