(* ===== verification/Http_Api.thy ===== *)
theory Http_Api
  imports Url_Query Service Store_Query
begin

text \<open>
  The HTTP API of \<open>httpapi/httpapi.go\<close>: the multiplexer with its routes, the guards on the method,
  and the handlers, over the interface \<open>Service\<close> of the package. The marshalling of JSON is an
  argument. The body that the standard library adds to a redirect is left out.
\<close>

section \<open>Requests and answers\<close>

record request =
  Method :: string
  URLPath :: string
  RawQuery :: string

text \<open>
  A response writer: the header is sent once, with the first write. \<open>gone\<close>: the client has closed the
  connection, so every write fails.
\<close>

record writer =
  sentStatus :: "nat option"
  contentType :: "string option"
  location :: "string option"
  sent :: string
  gone :: bool

definition newWriter :: writer where
  "newWriter = \<lparr>sentStatus = None, contentType = None, location = None, sent = '''', gone = False\<rparr>"

definition WriteHeader :: "nat \<Rightarrow> writer \<Rightarrow> writer" where
  "WriteHeader n w = (if sentStatus w = None then w\<lparr>sentStatus := Some n\<rparr> else w)"

definition SetContentType :: "string \<Rightarrow> writer \<Rightarrow> writer" where
  "SetContentType t w = (if sentStatus w = None then w\<lparr>contentType := Some t\<rparr> else w)"

definition w_Write :: "string \<Rightarrow> writer \<Rightarrow> go_error option \<times> writer" where
  "w_Write data w =
     (let w1 = WriteHeader 200 w in
      if gone w then (Some (New ''write: broken pipe''), w1) else (None, w1\<lparr>sent := sent w @ data\<rparr>))"

definition plainText :: string where "plainText = ''text/plain; charset=utf-8''"

definition httpError :: "writer \<Rightarrow> string \<Rightarrow> nat \<Rightarrow> writer" where
  "httpError w err status =
     snd (w_Write (err @ [CHR 0x0A]) (WriteHeader status (SetContentType plainText w)))"

section \<open>The interface\<close>

text \<open>
  The bot as the API sees it; \<open>'i\<close> is the information on the peer, \<open>'s\<close> the state of the bot with the files
  that it keeps.
\<close>

record ('i, 's) service_api =
  api_PeerInfo :: "'s \<Rightarrow> go_error + 'i"
  api_ListBids :: "bids_query \<Rightarrow> 's \<Rightarrow> go_error + Bid list"
  api_GetBid :: "string \<Rightarrow> 's \<Rightarrow> go_error + Bid"
  api_WriteDataURI :: "string \<Rightarrow> string \<Rightarrow> 's \<Rightarrow> (go_error + string) \<times> 's"
  api_SetPaused :: "bool \<Rightarrow> 's \<Rightarrow> 's"

record 'i http_libs =
  json_info :: "'i \<Rightarrow> go_error + string"
  json_bids :: "Bid list \<Rightarrow> go_error + string"
  Summary :: string

type_synonym 's http_handler = "request \<Rightarrow> writer \<times> 's \<Rightarrow> writer \<times> 's"

section \<open>Handlers\<close>

definition methodOnly :: "string \<Rightarrow> 's http_handler \<Rightarrow> 's http_handler" where
  "methodOnly m f r ws =
     (if Method r \<noteq> m
      then (httpError (fst ws) (''only '' @ m @ '' method is allowed'') 400, snd ws)
      else f r ws)"

definition getOnly :: "'s http_handler \<Rightarrow> 's http_handler" where "getOnly = methodOnly ''GET''"
definition putOnly :: "'s http_handler \<Rightarrow> 's http_handler" where "putOnly = methodOnly ''PUT''"

definition healthHandler :: "'s http_handler" where
  "healthHandler r ws = apfst (WriteHeader 200) ws"

definition idHandler :: "('i, 's) service_api \<Rightarrow> 'i http_libs \<Rightarrow> 's http_handler" where
  "idHandler A H r ws =
     (case ws of (w, s) \<Rightarrow>
        (case api_PeerInfo A s of
           Inl e \<Rightarrow> httpError w (Error e) 500
         | Inr info \<Rightarrow>
             (case json_info H info of
                Inl e \<Rightarrow> httpError w (''marshaling id: '' @ Error e) 500
              | Inr data \<Rightarrow> snd (w_Write data w)), s))"

definition pauseHandler :: "('i, 's) service_api \<Rightarrow> 's http_handler" where
  "pauseHandler A r ws = (WriteHeader 200 (fst ws), api_SetPaused A True (snd ws))"

definition resumeHandler :: "('i, 's) service_api \<Rightarrow> 's http_handler" where
  "resumeHandler A r ws = (WriteHeader 200 (fst ws), api_SetPaused A False (snd ws))"

definition versionHandler :: "'i http_libs \<Rightarrow> 's http_handler" where
  "versionHandler H r ws = apfst (\<lambda>w. snd (w_Write (Summary H) w)) ws"

text \<open>\<open>strings.TrimSpace\<close> on ASCII text, and \<open>strings.SplitN\<close> for a positive count.\<close>

definition is_space :: "char \<Rightarrow> bool" where
  "is_space c \<longleftrightarrow> c = CHR '' '' \<or> 9 \<le> (of_char c :: nat) \<and> (of_char c :: nat) \<le> 13"

definition TrimSpace :: "string \<Rightarrow> string" where
  "TrimSpace s = rev (dropWhile is_space (rev (dropWhile is_space s)))"

fun SplitN :: "nat \<Rightarrow> char \<Rightarrow> string \<Rightarrow> string list" where
  "SplitN (Suc (Suc n)) c s =
     (if c \<in> set s then fst (cut c s) # SplitN (Suc n) c (snd (cut c s)) else [s])"
| "SplitN n c s = [s]"

text \<open>The filters, or the answer to a text that is no status.\<close>

fun parseFilters :: "string list \<Rightarrow> string + BidStatus list" where
  "parseFilters [] = Inr []"
| "parseFilters (x # xs) =
     (let s = TrimSpace x in
      if s = '''' then parseFilters xs
      else case BidStatusByString s of
        Inl e \<Rightarrow> Inl (s @ '': '' @ Error e)
      | Inr st \<Rightarrow> map_sum (\<lambda>e. e) (Cons st) (parseFilters xs))"

definition listBids ::
  "('i, 's) service_api \<Rightarrow> string list \<Rightarrow> writer \<Rightarrow> 's \<Rightarrow> writer + Bid list" where
  "listBids A statusFilters w s =
     (case parseFilters statusFilters of
        Inl e \<Rightarrow> Inl (httpError w e 400)
      | Inr filters \<Rightarrow>
          (case api_ListBids A \<lparr>BidOffset = '''', BidOrder = OrderDescending, BidLimit = -1\<rparr> s of
             Inl e \<Rightarrow> Inl (httpError w (''listing bids: '' @ Error e) 500)
           | Inr fullList \<Rightarrow>
               if filters = [] then Inr fullList
               else Inr (filter (\<lambda>b. Status b \<in> set filters) fullList)))"

definition writeBids :: "'i http_libs \<Rightarrow> Bid list \<Rightarrow> writer \<Rightarrow> writer" where
  "writeBids H bids w =
     (case json_bids H bids of
        Inl e \<Rightarrow> httpError w (''json encoding: '' @ Error e) 500
      | Inr data \<Rightarrow> snd (w_Write data w))"

definition dealsHandler :: "('i, 's) service_api \<Rightarrow> 'i http_libs \<Rightarrow> 's http_handler" where
  "dealsHandler A H r ws =
     (case ws of (w, s) \<Rightarrow>
        let urlParts = SplitN 3 CHR ''/'' (URLPath r) in
        (if length urlParts < 3 \<or> urlParts ! 2 = '''' then
           (case listBids A (split_on CHR '','' (Values_Get (ParseQuery (RawQuery r)) ''status'')) w s of
              Inl w1 \<Rightarrow> w1
            | Inr bids \<Rightarrow> writeBids H bids w)
         else
           (case api_GetBid A (urlParts ! 2) s of
              Inr bid \<Rightarrow> writeBids H [bid] w
            | Inl e \<Rightarrow> if e \<noteq> ErrBidNotFound then httpError w (''get bid: '' @ Error e) 500
                      else writeBids H [] w), s))"

text \<open>The parameter, unescaped once more, or the text of what is wrong with it.\<close>

definition getQueryParam :: "request \<Rightarrow> string \<Rightarrow> string + string" where
  "getQueryParam r k =
     (let query = Values_Get (ParseQuery (RawQuery r)) k in
      if query = '''' then Inl (''missing '' @ quoted k @ '' query param'')
      else case QueryUnescape query of
        Inl e \<Rightarrow> Inl (''parsing '' @ quoted k @ '': '' @ Error e)
      | Inr raw \<Rightarrow> Inr raw)"

definition uriFault :: "go_error \<Rightarrow> bool" where
  "uriFault e \<longleftrightarrow> errors_Is e ErrSchemeNotSupported \<or> errors_Is e ErrCarFileUnavailable \<or>
     errors_Is e ErrInvalidCarFile"

definition writeDest :: "string \<Rightarrow> writer \<Rightarrow> writer" where
  "writeDest dest w =
     (case w_Write (''wrote to '' @ dest) (SetContentType plainText w) of
        (Some e, w1) \<Rightarrow> httpError w1 (''writing response: '' @ Error e) 500
      | (None, w1) \<Rightarrow> w1)"

definition dataURIRequestHandler :: "('i, 's) service_api \<Rightarrow> 's http_handler" where
  "dataURIRequestHandler A r ws =
     (case ws of (w, s) \<Rightarrow>
        (case getQueryParam r ''uri'' of
           Inl errstring \<Rightarrow> (httpError w errstring 400, s)
         | Inr u \<Rightarrow>
        (case getQueryParam r ''cid'' of
           Inl errstring \<Rightarrow> (httpError w errstring 400, s)
         | Inr payloadCid \<Rightarrow>
        (case api_WriteDataURI A payloadCid u s of
           (Inl e, s1) \<Rightarrow> (httpError w (''writing data uri: '' @ Error e) (if uriFault e then 400 else 500), s1)
         | (Inr dest, s1) \<Rightarrow> (writeDest dest w, s1)))))"

section \<open>The multiplexer\<close>

definition createMux :: "('i, 's) service_api \<Rightarrow> 'i http_libs \<Rightarrow> (string \<times> 's http_handler) list" where
  "createMux A H =
     [(''/health'', getOnly healthHandler),
      (''/id'', getOnly (idHandler A H)),
      (''/pause'', putOnly (pauseHandler A)),
      (''/resume'', putOnly (resumeHandler A)),
      (''/version'', getOnly (versionHandler H)),
      (''/deals'', getOnly (dealsHandler A H)),
      (''/deals/'', getOnly (dealsHandler A H)),
      (''/datauri'', getOnly (dataURIRequestHandler A)),
      (''/datauri/'', getOnly (dataURIRequestHandler A))]"

text \<open>
  \<open>http.ServeMux\<close>: a path that is not clean is redirected; then the pattern that is the path, or
  the one ending in a slash that the path starts with. No pattern here starts with another one of
  these, so the first is the longest.
\<close>

definition cleanPath :: "string \<Rightarrow> string" where
  "cleanPath p =
     (if p = '''' then ''/''
      else let p1 = (if hd p \<noteq> CHR ''/'' then CHR ''/'' # p else p); np = path_Clean p1 in
        if last p1 = CHR ''/'' \<and> np \<noteq> ''/'' then np @ ''/'' else np)"

definition starts_with :: "string \<Rightarrow> string \<Rightarrow> bool" where
  "starts_with p s \<longleftrightarrow> take (length p) s = p"

definition mux_handler :: "(string \<times> 's http_handler) list \<Rightarrow> string \<Rightarrow> 's http_handler option" where
  "mux_handler mux p =
     (case map_of mux p of
        Some h \<Rightarrow> Some h
      | None \<Rightarrow> map_option snd (find (\<lambda>(pat, h). last pat = CHR ''/'' \<and> starts_with pat p) mux))"

definition with_query :: "string \<Rightarrow> string \<Rightarrow> string" where
  "with_query p q = (if q = '''' then p else p @ ''?'' @ q)"

definition ServeHTTP :: "(string \<times> 's http_handler) list \<Rightarrow> request \<Rightarrow> 's \<Rightarrow> writer \<times> 's" where
  "ServeHTTP mux r s =
     (let p = cleanPath (URLPath r) in
      if p \<noteq> URLPath r
        then (WriteHeader 301 (newWriter\<lparr>location := Some (with_query p (RawQuery r))\<rparr>), s)
      else case mux_handler mux p of
        None \<Rightarrow> (httpError newWriter ''404 page not found'' 404, s)
      | Some h \<Rightarrow> apfst (WriteHeader 200) (h r (newWriter, s)))"

definition serveRequest :: "('i, 's) service_api \<Rightarrow> 'i http_libs \<Rightarrow> request \<Rightarrow> 's \<Rightarrow> writer \<times> 's" where
  "serveRequest A H = ServeHTTP (createMux A H)"

section \<open>What requests do\<close>

text \<open>The pause or resume that a request is.\<close>

definition pause_request :: "request \<Rightarrow> bool option" where
  "pause_request r =
     (if Method r = ''PUT'' \<and> URLPath r = ''/pause'' then Some True
      else if Method r = ''PUT'' \<and> URLPath r = ''/resume'' then Some False else None)"

text \<open>The download that a request is: a GET of the path, or of one below it, with both parameters.\<close>

definition data_request :: "request \<Rightarrow> (string \<times> string) option" where
  "data_request r =
     (if Method r = ''GET'' \<and> cleanPath (URLPath r) = URLPath r \<and>
         (URLPath r = ''/datauri'' \<or> starts_with ''/datauri/'' (URLPath r))
      then (case (getQueryParam r ''cid'', getQueryParam r ''uri'') of
          (Inr c, Inr u) \<Rightarrow> Some (c, u)
        | x \<Rightarrow> None)
      else None)"

definition serveAll :: "('i, 's) service_api \<Rightarrow> 'i http_libs \<Rightarrow> request list \<Rightarrow> 's \<Rightarrow> 's" where
  "serveAll A H rs s = fold (\<lambda>r s. snd (serveRequest A H r s)) rs s"

definition last_pause :: "request list \<Rightarrow> bool option" where
  "last_pause rs = fold (\<lambda>r p. case pause_request r of None \<Rightarrow> p | Some q \<Rightarrow> Some q) rs None"

definition data_requests :: "request list \<Rightarrow> (string \<times> string) list" where
  "data_requests rs = concat (map (\<lambda>r. case data_request r of None \<Rightarrow> [] | Some cu \<Rightarrow> [cu]) rs)"

lemma quiet_handlers [simp]:
  "snd (healthHandler r ws) = snd ws" "snd (idHandler A H r ws) = snd ws"
  "snd (versionHandler H r ws) = snd ws" "snd (dealsHandler A H r ws) = snd ws"
  by (simp_all add: healthHandler_def idHandler_def versionHandler_def dealsHandler_def
      Let_def split: prod.split)

lemma data_handler:
  "snd (dataURIRequestHandler A r (w, s)) =
     (case (getQueryParam r ''cid'', getQueryParam r ''uri'') of
        (Inr c, Inr u) \<Rightarrow> snd (api_WriteDataURI A c u s)
      | x \<Rightarrow> s)"
  by (simp add: dataURIRequestHandler_def split: prod.split sum.split)

lemma method_snd:
  "snd (getOnly f r ws) = (if Method r = ''GET'' then snd (f r ws) else snd ws)"
  "snd (putOnly f r ws) = (if Method r = ''PUT'' then snd (f r ws) else snd ws)"
  by (simp_all add: getOnly_def putOnly_def methodOnly_def)

lemma find_Some: "find P xs = Some x \<Longrightarrow> x \<in> set xs \<and> P x"
  by (auto simp: find_Some_iff)

text \<open>The handlers of the paths that change something, and the others, which are quiet.\<close>

definition data_path :: "string \<Rightarrow> bool" where
  "data_path p \<longleftrightarrow> p = ''/datauri'' \<or> starts_with ''/datauri/'' p"

definition route_ok :: "('i, 's) service_api \<Rightarrow> string \<Rightarrow> 's http_handler \<Rightarrow> bool" where
  "route_ok A p h \<longleftrightarrow> p = ''/pause'' \<and> h = putOnly (pauseHandler A) \<or> p = ''/resume'' \<and> h = putOnly (resumeHandler A) \<or>
    data_path p \<and> h = getOnly (dataURIRequestHandler A) \<or>
    p \<noteq> ''/pause'' \<and> p \<noteq> ''/resume'' \<and> \<not> data_path p \<and> (\<forall>r ws. snd (h r ws) = snd ws)"

lemma starts_with_iff: "starts_with p s \<longleftrightarrow> (\<exists>t. s = p @ t)"
  unfolding starts_with_def by (metis append_eq_conv_conj append_take_drop_id)

lemma data_paths: "data_path ''/datauri''" "data_path ''/datauri/''" "\<not> data_path ''/health''" "\<not> data_path ''/id''"
  "\<not> data_path ''/version''" "\<not> data_path ''/deals''" "\<not> data_path ''/deals/''"
  by (simp_all add: data_path_def starts_with_iff)

lemma routes_ok: "\<forall>(p, h) \<in> set (createMux A H). route_ok A p h"
proof -
  have quiet: "route_ok A p (getOnly f)" if "\<not> data_path p" "p \<noteq> ''/pause''" "p \<noteq> ''/resume''" "\<And>r ws. snd (f r ws) = snd ws" for p f
    using that by (simp add: route_ok_def method_snd)
  have "route_ok A ''/pause'' (putOnly (pauseHandler A))" "route_ok A ''/resume'' (putOnly (resumeHandler A))"
    "route_ok A ''/datauri'' (getOnly (dataURIRequestHandler A))" "route_ok A ''/datauri/'' (getOnly (dataURIRequestHandler A))"
    by (simp_all add: route_ok_def data_paths)
  then show ?thesis by (simp add: createMux_def quiet data_paths)
qed

lemma slash_routes:
  "\<forall>(p, h) \<in> set (createMux A H). last p = CHR ''/'' \<longrightarrow>
     p = ''/deals/'' \<and> h = getOnly (dealsHandler A H) \<or> p = ''/datauri/'' \<and> h = getOnly (dataURIRequestHandler A)"
  by (simp add: createMux_def)

lemma changing_routed: "map_of (createMux A H) ''/pause'' \<noteq> None" "map_of (createMux A H) ''/resume'' \<noteq> None"
  "map_of (createMux A H) ''/datauri'' \<noteq> None"
  by (simp_all add: createMux_def)

lemma mux_handler_cases:
  assumes "mux_handler (createMux A H) p = Some h"
  shows "route_ok A p h"
proof (cases "map_of (createMux A H) p")
  case (Some g)
  with assms have "(p, h) \<in> set (createMux A H)" by (auto simp: mux_handler_def dest: map_of_SomeD)
  with routes_ok [of A H] show ?thesis by blast
next
  case None
  then have other: "p \<noteq> ''/pause''" "p \<noteq> ''/resume''" "p \<noteq> ''/datauri''" using changing_routed [of A H] by metis+
  from None assms obtain pat where
    "find (\<lambda>(pat, h). last pat = CHR ''/'' \<and> starts_with pat p) (createMux A H) = Some (pat, h)"
    by (auto simp: mux_handler_def)
  then have pat: "(pat, h) \<in> set (createMux A H)" "last pat = CHR ''/''" "starts_with pat p" by (auto dest: find_Some)
  have "\<not> (starts_with ''/deals/'' p \<and> starts_with ''/datauri/'' p)" by (auto simp: starts_with_iff)
  moreover have "pat = ''/deals/'' \<and> h = getOnly (dealsHandler A H) \<or> pat = ''/datauri/'' \<and> h = getOnly (dataURIRequestHandler A)"
    using slash_routes [of A H] pat(1,2) by blast
  ultimately show ?thesis using pat(3) other by (elim disjE conjE; simp add: route_ok_def data_path_def method_snd)
qed

lemma data_handler_routed:
  assumes "data_path p"
  shows "mux_handler (createMux A H) p = Some (getOnly (dataURIRequestHandler A))"
proof -
  consider "p = ''/datauri''" | "p = ''/datauri/''" | t where "p = ''/datauri/'' @ t" "t \<noteq> ''''"
    using assms unfolding data_path_def starts_with_iff by (metis append_Nil2)
  then show ?thesis
  proof cases
    case (3 t)
    then show ?thesis by (simp add: mux_handler_def createMux_def starts_with_iff)
  qed (simp_all add: mux_handler_def createMux_def)
qed

lemma pause_paths:
  "cleanPath ''/pause'' = ''/pause''" "cleanPath ''/resume'' = ''/resume''"
  "mux_handler (createMux A H) ''/pause'' = Some (putOnly (pauseHandler A))"
  "mux_handler (createMux A H) ''/resume'' = Some (putOnly (resumeHandler A))"
  by (simp_all add: cleanPath_def path_Clean_def mux_handler_def createMux_def Let_def)

text \<open>What one request does to the bot.\<close>

definition effect :: "('i, 's) service_api \<Rightarrow> request \<Rightarrow> 's \<Rightarrow> 's" where
  "effect A r s = (case pause_request r of
       Some p \<Rightarrow> api_SetPaused A p s
     | None \<Rightarrow> (case data_request r of None \<Rightarrow> s | Some (c, u) \<Rightarrow> snd (api_WriteDataURI A c u s)))"

lemma serveRequest_state: "snd (serveRequest A H r s) = effect A r s"
proof (cases "pause_request r")
  case (Some p)
  then show ?thesis
    by (auto simp: pause_request_def effect_def serveRequest_def ServeHTTP_def pause_paths method_snd pauseHandler_def
        resumeHandler_def split: if_split_asm)
next
  case None
  show ?thesis
  proof (cases "cleanPath (URLPath r) = URLPath r")
    case clean: True
    show ?thesis
    proof (cases "mux_handler (createMux A H) (URLPath r)")
      case h: (Some h)
      have eq: "snd (serveRequest A H r s) = snd (h r (newWriter, s))"
        using clean h by (simp add: serveRequest_def ServeHTTP_def)
      from mux_handler_cases [OF h] consider "URLPath r = ''/pause''" "h = putOnly (pauseHandler A)"
        | "URLPath r = ''/resume''" "h = putOnly (resumeHandler A)"
        | "data_path (URLPath r)" "h = getOnly (dataURIRequestHandler A)"
        | "\<not> data_path (URLPath r)" "\<forall>r ws. snd (h r ws) = snd ws"
        unfolding route_ok_def by blast
      then show ?thesis
        using None clean
        by cases (auto simp: eq method_snd effect_def data_handler data_request_def data_path_def pause_request_def
            starts_with_def split: if_split_asm sum.split)
    next
      case h: None
      with data_handler_routed [of "URLPath r" A H] have "data_request r = None"
        by (auto simp: data_request_def data_path_def)
      with h None clean show ?thesis by (simp add: serveRequest_def ServeHTTP_def effect_def)
    qed
  next
    case False
    then have "data_request r = None" by (simp add: data_request_def)
    with False None show ?thesis by (simp add: serveRequest_def ServeHTTP_def effect_def Let_def)
  qed
qed

lemma serveAll_effects: "serveAll A H rs s = fold (effect A) rs s"
  by (simp add: serveAll_def serveRequest_state)

text \<open>
  What the API relies on: pausing sets the flag; neither pausing nor a download changes the answers on
  bids, and a download leaves the flag and is not stopped by it.
\<close>

locale bot_service =
  fixes A :: "('i, 's) service_api" and bidding_paused :: "'s \<Rightarrow> bool"
  assumes paused_set: "bidding_paused (api_SetPaused A p s) = p"
    and paused_data: "bidding_paused (snd (api_WriteDataURI A c u s)) = bidding_paused s"
    and bids_paused: "api_ListBids A bq (api_SetPaused A p s) = api_ListBids A bq s"
    and bids_data: "api_ListBids A bq (snd (api_WriteDataURI A c u s)) = api_ListBids A bq s"
    and bid_paused: "api_GetBid A i (api_SetPaused A p s) = api_GetBid A i s"
    and bid_data: "api_GetBid A i (snd (api_WriteDataURI A c u s)) = api_GetBid A i s"
    and data_paused: "fst (api_WriteDataURI A c u (api_SetPaused A p s)) = fst (api_WriteDataURI A c u s)"
begin

lemma effect_bids:
  "api_ListBids A q (effect A r s) = api_ListBids A q s" "api_GetBid A i (effect A r s) = api_GetBid A i s"
  by (simp_all add: effect_def bids_paused bids_data bid_paused bid_data split: option.split prod.split)

lemma serveAll_bids:
  "api_ListBids A q (serveAll A H rs s) = api_ListBids A q s"
  "api_GetBid A i (serveAll A H rs s) = api_GetBid A i s"
  unfolding serveAll_effects by (induction rs arbitrary: s) (simp_all add: effect_bids)

lemma serveAll_paused:
  "bidding_paused (serveAll A H rs s) = (case last_pause rs of None \<Rightarrow> bidding_paused s | Some p \<Rightarrow> p)"
  unfolding serveAll_effects last_pause_def
  by (induction rs rule: rev_induct) (simp_all add: effect_def paused_set paused_data split: option.split prod.split)

end

section \<open>The bot behind the API\<close>

text \<open>
  The state behind the API is the service and the files that its downloads opened for writing, in this
  order. \<open>WriteDataURI\<close> of the service is that of the bid store, without a bid id and with the size 0;
  whether it ends well or not, the file at its path is the one that it creates or overwrites.
\<close>

definition bot_api ::
  "('d, 't, 'v) env \<Rightarrow> string \<Rightarrow> (go_error + 'i) \<Rightarrow> ('i, 'd Service \<times> string list) service_api" where
  "bot_api E maxID info =
     \<lparr>api_PeerInfo = (\<lambda>_. info),
      api_ListBids = (\<lambda>q (s, opened). ListBids (backend_of E) maxID q (store s)),
      api_GetBid = (\<lambda>i (s, opened). GetBid (backend_of E) i (store s)),
      api_WriteDataURI = (\<lambda>payloadCid u (s, opened).
        (WriteDataURI (io_of E) (store s) '''' payloadCid u 0,
         (s, opened @ [dealDataFilePathFor (store s) '''' payloadCid]))),
      api_SetPaused = (\<lambda>p (s, opened). (SetPaused p s, opened))\<rparr>"

interpretation bot: bot_service "bot_api E maxID info" "\<lambda>(s, opened). isPaused s"
  by unfold_locales (simp_all add: bot_api_def SetPaused_def isPaused_def split: prod.split)

lemma SetPaused_frame: "store (SetPaused p s) = store s" "SetPaused q (SetPaused p s) = SetPaused q s"
  by (simp_all add: SetPaused_def)

lemma bot_serveAll:
  "serveAll (bot_api E maxID info) H rs (s, opened) =
     (case last_pause rs of None \<Rightarrow> s | Some p \<Rightarrow> SetPaused p s,
      opened @ map (\<lambda>(c, u). dealDataFilePathFor (store s) '''' c) (data_requests rs))"
proof -
  have no_both: "pause_request r = Some p \<Longrightarrow> data_request r = None" for r p
    by (auto simp: pause_request_def data_request_def split: if_split_asm)
  show ?thesis
    unfolding serveAll_effects last_pause_def data_requests_def
    by (induction rs rule: rev_induct)
      (auto simp: effect_def bot_api_def SetPaused_frame no_both dealDataFilePathFor_def split: option.split)
qed

text \<open>
  C32: whatever requests the API serves, in any order, they change nothing of the bot but whether it is
  paused, and that is decided by the last PUT to the path of pausing or of resuming. While it is paused
  no announced auction is taken up, that is no goroutine is started to bid in it; one that was started
  before still bids. Beside the bot they open for writing the files of the downloads that GET requests
  ask for, one for each, and no others.
\<close>

theorem requests_only_pause:
  assumes "serveAll (bot_api E maxID info) H rs (s, opened) = (s', opened')"
  shows "s' = (case last_pause rs of None \<Rightarrow> s | Some p \<Rightarrow> SetPaused p s) \<and>
   opened' = opened @ map (\<lambda>(c, u). dealDataFilePathFor (store s) '''' c) (data_requests rs) \<and>
   AuctionsHandler E a s' =
     (if last_pause rs = Some True \<or> last_pause rs = None \<and> isPaused s then (None, None)
      else case json_Auction E a of None \<Rightarrow> (None, Some a) | Some e \<Rightarrow> (Some (Wrapv ''marshaling json'' e), None))"
  using assms unfolding bot_serveAll
  by (auto simp: AuctionsHandler_def SetPaused_def isPaused_def split: option.splits if_splits)

text \<open>A download, and a pause by GET, which is refused, between a pause and a resume by PUT.\<close>

abbreviation sample_requests :: "request list" where
  "sample_requests \<equiv> [\<lparr>Method = ''PUT'', URLPath = ''/pause'', RawQuery = ''''\<rparr>,
     \<lparr>Method = ''GET'', URLPath = ''/datauri'', RawQuery = ''cid=root&uri=u''\<rparr>,
     \<lparr>Method = ''PUT'', URLPath = ''/resume'', RawQuery = ''''\<rparr>,
     \<lparr>Method = ''GET'', URLPath = ''/pause'', RawQuery = ''''\<rparr>]"

theorem requests_only_pause_witness:
  "\<forall>H. \<exists>s'. serveAll (bot_api sample_env ''z'' (Inr ())) H sample_requests (sample_service [], []) =
       (s', [''/data/root_'']) \<and> AuctionsHandler sample_env (sample_auction ''root'') s' = (None, Some (sample_auction ''root''))"
proof
  fix H :: "unit http_libs"
  obtain s' opened' where eq: "serveAll (bot_api sample_env ''z'' (Inr ())) H sample_requests (sample_service [], []) = (s', opened')"
    by fastforce
  have json: "json_Auction sample_env (sample_auction ''root'') = None" by (simp add: sample_env_def)
  have "last_pause sample_requests = Some False" by (simp add: last_pause_def pause_request_def)
  moreover have "data_requests sample_requests = [(''root'', ''u'')]" by code_simp
  moreover have "dealDataFilePathFor (store (sample_service ([] :: (key \<times> Bid option) list))) '''' ''root'' = ''/data/root_''"
    by (simp add: dealDataFilePathFor_def sample_service_def sample_store_def path_Join_def path_Clean_def Let_def)
  ultimately have "opened' = [''/data/root_''] \<and>
      AuctionsHandler sample_env (sample_auction ''root'') s' = (None, Some (sample_auction ''root''))"
    using requests_only_pause [OF eq, of "sample_auction ''root''", THEN conjunct2] json by simp
  with eq show "\<exists>s'. serveAll (bot_api sample_env ''z'' (Inr ())) H sample_requests (sample_service [], []) =
       (s', [''/data/root_'']) \<and> AuctionsHandler sample_env (sample_auction ''root'') s' = (None, Some (sample_auction ''root''))"
    by blast
qed

text \<open>
  The cid of a download is put into the path as it comes, before anything checks it: one with \<open>..\<close>
  leads out of the directory of the deal data.
\<close>

theorem download_leaves_directory:
  "data_request \<lparr>Method = ''GET'', URLPath = ''/datauri'', RawQuery = ''cid=../etc/cron.d/job&uri=u''\<rparr> =
     Some (''../etc/cron.d/job'', ''u'') \<and>
   dealDataFilePathFor (store (sample_service [])) '''' ''../etc/cron.d/job'' = ''/etc/cron.d/job_''"
proof
  show "data_request \<lparr>Method = ''GET'', URLPath = ''/datauri'', RawQuery = ''cid=../etc/cron.d/job&uri=u''\<rparr> =
     Some (''../etc/cron.d/job'', ''u'')" by code_simp
  show "dealDataFilePathFor (store (sample_service [])) '''' ''../etc/cron.d/job'' = ''/etc/cron.d/job_''"
    by (simp add: dealDataFilePathFor_def sample_service_def sample_store_def path_Join_def path_Clean_def Let_def)
qed

section \<open>Listing deals\<close>

lemma deals_paths:
  "cleanPath ''/deals'' = ''/deals''" "cleanPath ''/deals/'' = ''/deals/''"
  "mux_handler (createMux A H) ''/deals'' = Some (getOnly (dealsHandler A H))"
  "mux_handler (createMux A H) ''/deals/'' = Some (getOnly (dealsHandler A H))"
  by (simp_all add: cleanPath_def path_Clean_def mux_handler_def createMux_def Let_def)

lemma deals_parts: "SplitN 3 CHR ''/'' ''/deals'' = ['''', ''deals'']"
  "SplitN 3 CHR ''/'' ''/deals/'' = ['''', ''deals'', '''']"
  by (simp_all add: numeral_3_eq_3 cut_def)

lemma httpError_sent: "WriteHeader n (httpError w e k) = httpError w e k"
  by (simp add: httpError_def w_Write_def WriteHeader_def SetContentType_def Let_def)

lemma writeBids_sent: "WriteHeader 200 (writeBids H bids w) = writeBids H bids w"
  by (auto simp: writeBids_def httpError_sent split: sum.split) (simp add: w_Write_def WriteHeader_def Let_def)

text \<open>The newest bids, at most 1000, and of these the ones with a status that was asked for.\<close>

definition newest_with :: "(string \<rightharpoonup> Bid) \<Rightarrow> BidStatus list \<Rightarrow> Bid list" where
  "newest_with m sts = filter (\<lambda>b. sts = [] \<or> Status b \<in> set sts)
     (map (\<lambda>i. the (m i)) (take 1000 (ordered_ids OrderDescending (dom m))))"

text \<open>
  A GET of the deals answers with the newest thousand bids, newest first, that have one of the
  statuses asked for, and with all of the thousand when none is asked for; a text that is no status
  is answered with a bad request that names it.
\<close>

theorem deals_answer:
  assumes "reliable_backend (backend_of E) vd vt" and "represents (Decode (backend_of E)) (vd (db (store s))) m"
    and "\<forall>i \<in> dom m. i \<le> maxID" and "Method r = ''GET''" and "URLPath r = ''/deals'' \<or> URLPath r = ''/deals/''"
  shows "serveRequest (bot_api E maxID info) H r (s, opened) =
    (case parseFilters (split_on CHR '','' (Values_Get (ParseQuery (RawQuery r)) ''status'')) of
       Inl e \<Rightarrow> httpError newWriter e 400
     | Inr sts \<Rightarrow> writeBids H (newest_with m sts) newWriter, (s, opened))"
proof -
  let ?A = "bot_api E maxID info" and ?q = "\<lparr>BidOffset = '''', BidOrder = OrderDescending, BidLimit = -1\<rparr>"
  have "ListBids (backend_of E) maxID ?q (store s) = Inr (newest_with m [])"
    using reliable_backend.ListBids_page [OF assms(1,2) _ assms(3), of ?q]
    by (simp add: page_def newest_with_def setDefaults_def maxListLimit_def)
  then have list: "api_ListBids ?A ?q (s, opened) = Inr (newest_with m [])" by (simp add: bot_api_def)
  have filt: "filter (\<lambda>b. Status b \<in> set sts) (newest_with m []) = newest_with m sts" if "sts \<noteq> []" for sts
    using that by (simp add: newest_with_def)
  have "dealsHandler ?A H r (newWriter, (s, opened)) =
    (case parseFilters (split_on CHR '','' (Values_Get (ParseQuery (RawQuery r)) ''status'')) of
       Inl e \<Rightarrow> httpError newWriter e 400
     | Inr sts \<Rightarrow> writeBids H (newest_with m sts) newWriter, (s, opened))"
    using assms(5) by (auto simp: dealsHandler_def deals_parts listBids_def list filt split: sum.split)
  moreover have "serveRequest ?A H r (s, opened) = apfst (WriteHeader 200) (dealsHandler ?A H r (newWriter, (s, opened)))"
    using assms(4,5) by (auto simp: serveRequest_def ServeHTTP_def Let_def deals_paths getOnly_def methodOnly_def)
  ultimately show ?thesis by (simp add: httpError_sent writeBids_sent split: sum.split)
qed

text \<open>A marshaller that answers with the ids.\<close>

definition sample_http :: "unit http_libs" where
  "sample_http = \<lparr>json_info = (\<lambda>_. Inr ''{}''), json_bids = (\<lambda>bs. Inr (concat (map ID bs))), Summary = ''v1''\<rparr>"

theorem deals_answer_witness:
  "sent (fst (serveRequest (bot_api sample_env ''z'' (Inr ())) sample_http
      \<lparr>Method = ''GET'', URLPath = ''/deals'', RawQuery = ''status=submitted%2Cerrored''\<rparr>
      (sample_service (sample_db [''a'', ''c'', ''b''] Submitted), []))) = ''cba''"
proof -
  let ?s = "sample_service (sample_db [''a'', ''c'', ''b''] Submitted)" and ?m = "sample_bids [''a'', ''c'', ''b''] Submitted"
  let ?r = "\<lparr>Method = ''GET'', URLPath = ''/deals'', RawQuery = ''status=submitted%2Cerrored''\<rparr>"
  have rel: "reliable_backend (backend_of sample_env) map_of map_of"
    using memb.reliable_backend_axioms by simp
  have rep: "represents (Decode (backend_of sample_env)) (map_of (db (store ?s))) ?m"
    using sample_represents [of "[''a'', ''c'', ''b'']" Submitted] by simp
  have "sorted_list_of_set (set [''a'', ''b'', ''c'']) = [''a'', ''b'', ''c'']"
    by (rule sorted_list_of_set.idem_if_sorted_distinct) simp_all
  moreover have "set [''a'', ''b'', ''c''] = dom ?m" by auto
  ultimately have "ordered_ids OrderDescending (dom ?m) = [''c'', ''b'', ''a'']" by (simp add: ordered_ids_def)
  then have new: "newest_with ?m [Submitted, Errored] = map (\<lambda>i. sample_bid i Submitted) [''c'', ''b'', ''a'']"
    by (simp add: newest_with_def sample_bids_at)
  have status: "Values_Get (ParseQuery ''status=submitted%2Cerrored'') ''status'' = ''submitted,errored''"
    by code_simp
  have trim: "TrimSpace ''submitted'' = ''submitted''" "TrimSpace ''errored'' = ''errored''"
    by (simp_all add: TrimSpace_def is_space_def)
  have "parseFilters [''submitted'', ''errored''] = Inr [Submitted, Errored]"
    by (simp add: trim BidStatusByString_def bidStatusByString_def bidStatusStrings_def)
  with deals_answer [OF rel rep, of "''z''" ?r "Inr ()" sample_http] new status show ?thesis
    by (simp add: writeBids_def sample_http_def w_Write_def newWriter_def Let_def)
qed

end
