(* ===== verification/Clients.thy ===== *)
theory Clients
  imports Auction
begin

text \<open>
  The two clients of Lotus: \<open>lib/filclient/filclient.go\<close>, which verifies the bidder and reads the
  chain height, and \<open>service/lotusclient/lotusclient.go\<close>, which connects to the storage miner,
  counts its sealing sectors and imports deal data. The RPC calls, the parsers of signatures and
  addresses, multiaddresses and their DNS resolution are arguments.
\<close>

section \<open>The chain\<close>

record full_node =
  sig_UnmarshalBinary :: "string \<Rightarrow> go_error + string"
  address_NewFromString :: "string \<Rightarrow> go_error + string"
  StateMinerInfo :: "string \<Rightarrow> go_error + string \<times> string" \<comment> \<open>owner and worker\<close>
  StateAccountKey :: "string \<Rightarrow> go_error + string"
  WalletVerify :: "string \<Rightarrow> string \<Rightarrow> string \<Rightarrow> go_error + bool"
  ChainHead :: "go_error + i64"
  rpc_NewClient :: "string \<Rightarrow> go_error option"

record LotusFilClient =
  fc_fakeMode :: bool

definition fc_New :: "full_node \<Rightarrow> string \<Rightarrow> bool \<Rightarrow> go_error + LotusFilClient" where
  "fc_New fn lotusGatewayURL fakeMode =
     (case rpc_NewClient fn lotusGatewayURL of
        Some e \<Rightarrow> Inl (Wrapv ''creating fullnode json rpc client'' e)
      | None \<Rightarrow> Inr \<lparr>fc_fakeMode = fakeMode\<rparr>)"

definition verifySignature :: "full_node \<Rightarrow> string \<Rightarrow> string \<Rightarrow> string \<Rightarrow> go_error + bool" where
  "verifySignature fn target sig bidderID =
     (case StateAccountKey fn target of
        Inl e \<Rightarrow> Inl (Wrapv ''calling full node state account key'' e)
      | Inr targetWalletAddr \<Rightarrow>
          (case WalletVerify fn targetWalletAddr bidderID sig of
             Inl e \<Rightarrow> Inl (Wrapv ''calling full node wallet verify'' e)
           | Inr ok \<Rightarrow> Inr ok))"

definition bothFailed :: "go_error \<Rightarrow> go_error \<Rightarrow> go_error" where
  "bothFailed eo ew = New (''verifying signature from owner (err: '' @ Error eo @ '') or worker (err: '' @
     Error ew @ '') failed'')"

definition VerifyBidder ::
  "full_node \<Rightarrow> LotusFilClient \<Rightarrow> string \<Rightarrow> string \<Rightarrow> string \<Rightarrow> go_error + bool" where
  "VerifyBidder fn fc bidderSig bidderID storageProviderIDStr =
     (if fc_fakeMode fc then Inr True
      else case sig_UnmarshalBinary fn bidderSig of
        Inl e \<Rightarrow> Inl (Wrapv ''unmarshaling signature'' e)
      | Inr sig \<Rightarrow>
     (case address_NewFromString fn storageProviderIDStr of
        Inl e \<Rightarrow> Inl (Wrapv ''parsing StorageProvider ID'' e)
      | Inr storageProviderID \<Rightarrow>
     (case StateMinerInfo fn storageProviderID of
        Inl e \<Rightarrow> Inl (Wrapv ''calling full node state miner info'' e)
      | Inr (owner, worker) \<Rightarrow>
          if verifySignature fn owner sig bidderID = Inr True then Inr True
          else if verifySignature fn worker sig bidderID = Inr True then Inr True
          else (case (verifySignature fn owner sig bidderID, verifySignature fn worker sig bidderID) of
                  (Inl eo, Inl ew) \<Rightarrow> Inl (bothFailed eo ew)
                | _ \<Rightarrow> Inr False))))"

text \<open>The height is an \<open>int64\<close>, converted.\<close>

definition GetChainHeight :: "full_node \<Rightarrow> go_error + u64" where
  "GetChainHeight fn =
     (case ChainHead fn of
        Inl e \<Rightarrow> Inl (Wrapv ''calling full node chain head'' e)
      | Inr h \<Rightarrow> Inr h)"

text \<open>
  C36: outside fake mode a bidder is accepted exactly when its signature parses and the key of the
  storage provider's owner or of its worker verifies it; a failure of one of the two checks does
  not keep the other from accepting, and the failure of both is an error, never an acceptance.
\<close>

theorem bidder_verified_iff:
  assumes "\<not> fc_fakeMode fc"
  shows "VerifyBidder fn fc s i sp = Inr True \<longleftrightarrow>
    (\<exists>sig addr owner worker key. sig_UnmarshalBinary fn s = Inr sig \<and> address_NewFromString fn sp = Inr addr \<and>
      StateMinerInfo fn addr = Inr (owner, worker) \<and>
      (StateAccountKey fn owner = Inr key \<or> StateAccountKey fn worker = Inr key) \<and>
      WalletVerify fn key i sig = Inr True)"
  using assms
  by (auto simp: VerifyBidder_def verifySignature_def split: sum.splits)

section \<open>The storage miner\<close>

datatype protocol = P_DNS4 | P_IP4 | P_IP6 | P_TCP

text \<open>
  \<open>'a\<close> is a connection to the API. \<open>Connect\<close> is told which attempt it is, and \<open>ctxErr\<close> says whether
  the context was cancelled before it. A multiaddress is known by its text.
\<close>

record 'a lotus =
  lotus_NewMultiaddr :: "string \<Rightarrow> go_error + string"
  ValueForProtocol :: "string \<Rightarrow> protocol \<Rightarrow> go_error + string"
  dns_Resolve :: "string \<Rightarrow> go_error + string list"
  Connect :: "nat \<Rightarrow> string \<Rightarrow> string \<Rightarrow> go_error + 'a"
  ctxErr :: "nat \<Rightarrow> bool"
  unconnected :: 'a
  MarketGetAsk :: "'a \<Rightarrow> go_error option"
  SectorsSummary :: "'a \<Rightarrow> go_error + (string \<times> i64) list"
  MarketImportDealData :: "'a \<Rightarrow> cid \<Rightarrow> string \<Rightarrow> go_error option"

definition getIPFromMaddr :: "'a lotus \<Rightarrow> string \<Rightarrow> go_error + string" where
  "getIPFromMaddr L m =
     (case ValueForProtocol L m P_IP4 of
        Inr ip \<Rightarrow> Inr ip
      | Inl _ \<Rightarrow>
          (case ValueForProtocol L m P_IP6 of
             Inr ip \<Rightarrow> Inr (''['' @ ip @ '']'')
           | Inl _ \<Rightarrow> Inl (New ''no ip in multiaddr'')))"

text \<open>The loop over the resolved addresses leaves \<open>ip\<close> empty when none of them has one.\<close>

fun firstIP :: "'a lotus \<Rightarrow> string list \<Rightarrow> string" where
  "firstIP L [] = ''''"
| "firstIP L (m # ms) = (case getIPFromMaddr L m of Inr ip \<Rightarrow> ip | Inl _ \<Rightarrow> firstIP L ms)"

definition withPort :: "'a lotus \<Rightarrow> string \<Rightarrow> string \<Rightarrow> go_error + string" where
  "withPort L m ip =
     (case ValueForProtocol L m P_TCP of
        Inl e \<Rightarrow> Inl (Wrapv ''getting port from maddr'' e)
      | Inr tcp \<Rightarrow> Inr (ip @ '':'' @ tcp))"

definition tcpAddrFromMultiAddr :: "'a lotus \<Rightarrow> string \<Rightarrow> go_error + string" where
  "tcpAddrFromMultiAddr L m =
     (case ValueForProtocol L m P_DNS4 of
        Inr _ \<Rightarrow>
          (case dns_Resolve L m of
             Inl e \<Rightarrow> Inl (Wrapv ''resolving dns'' e)
           | Inr ms \<Rightarrow> withPort L m (firstIP L ms))
      | Inl _ \<Rightarrow>
          (case getIPFromMaddr L m of
             Inl e \<Rightarrow> Inl (Wrapv ''getting ip from maddr'' e)
           | Inr ip \<Rightarrow> withPort L m ip))"

text \<open>The attempts from the \<open>i\<close>-th on, \<open>n\<close> of them left, after the error of the last one.\<close>

fun connectLoop :: "'a lotus \<Rightarrow> string \<Rightarrow> string \<Rightarrow> nat \<Rightarrow> nat \<Rightarrow> go_error option \<Rightarrow> go_error + 'a" where
  "connectLoop L url token i 0 err =
     (case err of
        Some e \<Rightarrow> Inl (Wrapv ''couldn't connect to Lotus API'' e)
      | None \<Rightarrow> Inr (unconnected L))"
| "connectLoop L url token i (Suc n) err =
     (if ctxErr L i then Inl (New ''canceled by context'')
      else case Connect L i url token of
        Inr api \<Rightarrow> Inr api
      | Inl e \<Rightarrow> connectLoop L url token (Suc i) n (Some e))"

definition newBuilder :: "'a lotus \<Rightarrow> string \<Rightarrow> string \<Rightarrow> int \<Rightarrow> go_error + (go_error + 'a)" where
  "newBuilder L maddrs authToken connRetries =
     (case lotus_NewMultiaddr L maddrs of
        Inl e \<Rightarrow> Inl (Wrapw ''parsing multiaddress'' e)
      | Inr maddr \<Rightarrow>
     (case tcpAddrFromMultiAddr L maddr of
        Inl e \<Rightarrow> Inl (Wrapw ''getting tcp address from multiaddress'' e)
      | Inr addr \<Rightarrow> Inr (connectLoop L (''ws://'' @ addr @ ''/rpc/v0'') (''Bearer '' @ authToken) 0
          (nat connRetries) None)))"

record 'a Client =
  cmin :: 'a
  cmkt :: 'a
  fakeMode :: bool
  finalizeEarly :: bool

definition HealthCheck :: "'a lotus \<Rightarrow> 'a Client \<Rightarrow> go_error option" where
  "HealthCheck L c = (if fakeMode c then None else MarketGetAsk L (cmkt c))"

definition connectMarket :: "'a lotus \<Rightarrow> string \<Rightarrow> string \<Rightarrow> int \<Rightarrow> 'a \<Rightarrow> go_error + 'a" where
  "connectMarket L marketMaddr marketAuthToken connRetries miner =
     (if marketMaddr \<noteq> '''' then
        (case newBuilder L marketMaddr marketAuthToken connRetries of
           Inl e \<Rightarrow> Inl (Wrapw ''building lotus market client'' e)
         | Inr (Inl e) \<Rightarrow> Inl (Wrapw ''starting lotus market client'' e)
         | Inr (Inr market) \<Rightarrow> Inr market)
      else Inr miner)"

definition New ::
  "'a lotus \<Rightarrow> string \<Rightarrow> string \<Rightarrow> string \<Rightarrow> string \<Rightarrow> int \<Rightarrow> bool \<Rightarrow> bool \<Rightarrow> go_error + 'a Client" where
  "New L maddr authToken marketMaddr marketAuthToken connRetries fake early =
     (if fake then
        Inr \<lparr>cmin = unconnected L, cmkt = unconnected L, fakeMode = fake, finalizeEarly = early\<rparr>
      else case newBuilder L maddr authToken connRetries of
        Inl e \<Rightarrow> Inl (Wrapw ''building lotus client'' e)
      | Inr (Inl e) \<Rightarrow> Inl (Wrapw ''starting lotus client'' e)
      | Inr (Inr miner) \<Rightarrow>
     (case connectMarket L marketMaddr marketAuthToken connRetries miner of
        Inl e \<Rightarrow> Inl e
      | Inr market \<Rightarrow>
          let client = \<lparr>cmin = miner, cmkt = market, fakeMode = fake, finalizeEarly = False\<rparr> in
          (case HealthCheck L client of
             Some e \<Rightarrow> Inl (Wrapw ''lotus client fails health check'' e)
           | None \<Rightarrow> Inr client)))"

definition notSealingStates :: "bool \<Rightarrow> string list" where
  "notSealingStates early = [''Proving'', ''Removed'', ''Removing'', ''Terminating'', ''TerminateWait'',
     ''TerminateFinality'', ''TerminateFailed'', ''Available''] @
     (if early then [''SubmitCommit'', ''CommitWait'', ''SubmitCommitAggregate'', ''CommitAggregateWait'',
       ''SubmitReplicaUpdate'', ''ReplicaUpdateWait''] else [])"

text \<open>A missing key of the Go map reads as 0.\<close>

definition sectors_in :: "(string \<times> i64) list \<Rightarrow> string \<Rightarrow> i64" where
  "sectors_in m st = (case map_of m st of None \<Rightarrow> 0 | Some n \<Rightarrow> n)"

text \<open>In fake mode the client of the miner is a nil interface, and the call ends the process.\<close>

definition CurrentSealingSectors :: "'a lotus \<Rightarrow> 'a Client \<Rightarrow> (go_error + i64) go_out" where
  "CurrentSealingSectors L c =
     (if fakeMode c then Panic ''runtime error: invalid memory address or nil pointer dereference''
      else case SectorsSummary L (cmin c) of
        Inl e \<Rightarrow> Ret (Inl (Wrapv ''getting lotus sectors summary'' e))
      | Inr sectorsByState \<Rightarrow>
          Ret (Inr (sum_list (map snd sectorsByState) -
               sum_list (map (sectors_in sectorsByState) (notSealingStates (finalizeEarly c))))))"

definition ImportData :: "'a lotus \<Rightarrow> 'a Client \<Rightarrow> cid \<Rightarrow> string \<Rightarrow> go_error option" where
  "ImportData L c pcid path =
     (if fakeMode c then None
      else map_option (Wrapw ''calling storage miner deals import data'') (MarketImportDealData L (cmkt c) pcid path))"

section \<open>Counting sectors\<close>

lemma distinct_notSealing: "distinct (notSealingStates e)"
  by (simp add: notSealingStates_def)

lemma sectors_not_in: "st \<notin> fst ` set m \<Longrightarrow> sectors_in m st = 0"
  by (simp add: sectors_in_def map_of_eq_None_iff [THEN iffD2])

lemma sum_sectors_in:
  assumes "distinct (map fst m)" and "distinct sts"
  shows "sum_list (map (sectors_in m) sts) = (\<Sum>(st, n) \<leftarrow> m. if st \<in> set sts then n else 0)"
  using assms
proof (induction m)
  case Nil
  then show ?case by (simp add: sectors_in_def)
next
  case (Cons x m)
  obtain st n where x: "x = (st, n)" by fastforce
  have "sectors_in (x # m) = (\<lambda>s. (if s = st then n else 0) + sectors_in m s)"
    using Cons.prems x sectors_not_in [of st m] by (auto simp: sectors_in_def)
  then have "sum_list (map (sectors_in (x # m)) sts) =
      (\<Sum>s \<leftarrow> sts. if s = st then n else 0) + sum_list (map (sectors_in m) sts)"
    by (simp add: sum_list_addf)
  also have "(\<Sum>s \<leftarrow> sts. if s = st then n else 0) = (if st \<in> set sts then n else 0)"
    using Cons.prems(2) by (induction sts) auto
  finally show ?case using Cons x by simp
qed

text \<open>
  C37: the count of sealing sectors takes every sector into account but those of the states that the
  Lotus state machine maps to proving: eight of them, and six more with the option to finalize early.
  Sectors in any other state, also one this version of the program does not know, count.
\<close>

theorem sealing_sectors_equiv:
  assumes "\<not> fakeMode c" and "SectorsSummary L (cmin c) = Inr m" and "distinct (map fst m)"
  shows "CurrentSealingSectors L c = Ret (Inr (\<Sum>(st, n) \<leftarrow> m.
    if st \<in> {''Proving'', ''Removed'', ''Removing'', ''Terminating'', ''TerminateWait'', ''TerminateFinality'',
        ''TerminateFailed'', ''Available''} \<or>
      finalizeEarly c \<and> st \<in> {''SubmitCommit'', ''CommitWait'', ''SubmitCommitAggregate'', ''CommitAggregateWait'',
        ''SubmitReplicaUpdate'', ''ReplicaUpdateWait''}
    then 0 else n))"
proof -
  have states: "st \<in> set (notSealingStates (finalizeEarly c)) \<longleftrightarrow>
      st \<in> {''Proving'', ''Removed'', ''Removing'', ''Terminating'', ''TerminateWait'', ''TerminateFinality'',
        ''TerminateFailed'', ''Available''} \<or>
      finalizeEarly c \<and> st \<in> {''SubmitCommit'', ''CommitWait'', ''SubmitCommitAggregate'', ''CommitAggregateWait'',
        ''SubmitReplicaUpdate'', ''ReplicaUpdateWait''}" for st
    by (auto simp: notSealingStates_def)
  have "(\<Sum>(st, n) \<leftarrow> m. if st \<in> S then n else 0) + (\<Sum>(st, n) \<leftarrow> m. if st \<in> S then 0 else n) = sum_list (map snd m)" for S
    by (induction m) (auto simp: algebra_simps)
  from this [of "set (notSealingStates (finalizeEarly c))"] assms show ?thesis
    unfolding states [symmetric]
    by (simp add: CurrentSealingSectors_def sum_sectors_in distinct_notSealing algebra_simps)
qed

text \<open>
  A client that talks to Lotus never counts sectors with the additional states of the
  \<open>FinalizeEarly\<close> option, whatever it was created with: the option is dropped on the way.
\<close>

theorem finalize_early_is_dropped:
  assumes "New L maddr authToken marketMaddr marketAuthToken connRetries False early = Inr c"
    and "SectorsSummary L (cmin c) = Inr [(''CommitWait'', n)]"
  shows "CurrentSealingSectors L c = Ret (Inr n)"
proof -
  have "finalizeEarly c = False" "fakeMode c = False"
    using assms(1) by (auto simp: New_def Let_def split: sum.splits option.splits)
  with assms(2) show ?thesis
    by (simp add: CurrentSealingSectors_def notSealingStates_def sectors_in_def)
qed

text \<open>A client in fake mode has no connection to ask: counting its sectors panics.\<close>

theorem fake_mode_cannot_count:
  assumes "New L maddr authToken marketMaddr marketAuthToken connRetries True early = Inr c"
  shows "\<exists>msg. CurrentSealingSectors L c = Panic msg"
  using assms by (auto simp: New_def CurrentSealingSectors_def)

section \<open>Connecting\<close>

text \<open>
  A name that resolves to no usable address is not an error: the address of the API is then a bare
  port.
\<close>

lemma unresolved_name_gives_bare_port:
  assumes "ValueForProtocol L m P_DNS4 = Inr name" and "dns_Resolve L m = Inr ms"
    and "\<forall>a \<in> set ms. \<exists>e e'. ValueForProtocol L a P_IP4 = Inl e \<and> ValueForProtocol L a P_IP6 = Inl e'"
    and "ValueForProtocol L m P_TCP = Inr port"
  shows "tcpAddrFromMultiAddr L m = Inr ('':'' @ port)"
proof -
  have "firstIP L ms = ''''"
    using assms(3) by (induction ms) (auto simp: getIPFromMaddr_def)
  with assms show ?thesis by (simp add: tcpAddrFromMultiAddr_def withPort_def)
qed

lemma connectLoop_first:
  assumes "k < n" and "Connect L (i + k) url token = Inr api"
    and "\<forall>j \<le> k. \<not> ctxErr L (i + j)" and "\<forall>j < k. \<exists>e. Connect L (i + j) url token = Inl e"
  shows "connectLoop L url token i n err = Inr api"
  using assms
proof (induction k arbitrary: i n err)
  case 0
  then show ?case by (cases n) auto
next
  case (Suc k)
  from Suc.prems(1) obtain n' where n: "n = Suc n'" by (cases n) auto
  from Suc.prems(4) obtain e where "Connect L (i + 0) url token = Inl e" by blast
  moreover have "\<not> ctxErr L (i + 0)" using Suc.prems(3) by blast
  moreover have "connectLoop L url token (Suc i) n' (Some e) = Inr api"
  proof (rule Suc.IH)
    show "\<forall>j \<le> k. \<not> ctxErr L (Suc i + j)"
      using Suc.prems(3) by (metis Suc_le_mono add_Suc_shift)
    show "\<forall>j < k. \<exists>e. Connect L (Suc i + j) url token = Inl e"
      using Suc.prems(4) by (metis Suc_less_eq add_Suc_shift)
  qed (use Suc.prems n in auto)
  ultimately show ?case using n by simp
qed

text \<open>
  The client connects at the first attempt that succeeds within the configured number, however
  many failed before it; without any attempt allowed it hands out a connection that was never made.
\<close>

theorem connects_at_first_success:
  assumes "lotus_NewMultiaddr L maddrs = Inr m" and "tcpAddrFromMultiAddr L m = Inr addr"
    and "\<forall>j. \<not> ctxErr L j"
    and "\<forall>j < k. \<exists>e. Connect L j (''ws://'' @ addr @ ''/rpc/v0'') (''Bearer '' @ token) = Inl e"
    and "Connect L k (''ws://'' @ addr @ ''/rpc/v0'') (''Bearer '' @ token) = Inr api"
  shows "newBuilder L maddrs token retries = Inr
    (if retries \<le> 0 then Inr (unconnected L)
     else if int k < retries then Inr api
     else connectLoop L (''ws://'' @ addr @ ''/rpc/v0'') (''Bearer '' @ token) 0 (nat retries) None)"
  using assms connectLoop_first [of k "nat retries" L 0 "''ws://'' @ addr @ ''/rpc/v0''" "''Bearer '' @ token" api None]
  by (auto simp: newBuilder_def)

section \<open>The hypotheses hold\<close>

definition sample_node :: full_node where
  "sample_node = \<lparr>sig_UnmarshalBinary = Inr, address_NewFromString = Inr,
     StateMinerInfo = (\<lambda>_. Inr (''owner'', ''worker'')),
     StateAccountKey = (\<lambda>a. if a = ''owner'' then Inl (go_error.New ''offline'') else Inr ''key''),
     WalletVerify = (\<lambda>k i s. Inr (s = ''signed'')), ChainHead = Inr 7, rpc_NewClient = (\<lambda>_. None)\<rparr>"

definition sample_lotus :: "nat lotus" where
  "sample_lotus = \<lparr>lotus_NewMultiaddr = Inr,
     ValueForProtocol = (\<lambda>m p. case p of P_IP4 \<Rightarrow> Inr ''10.0.0.1'' | P_TCP \<Rightarrow> Inr ''2345'' | _ \<Rightarrow> Inl (go_error.New ''no'')),
     dns_Resolve = (\<lambda>m. Inr []), Connect = (\<lambda>i url token. if i < 2 then Inl (go_error.New ''refused'') else Inr i),
     ctxErr = (\<lambda>_. False), unconnected = 0, MarketGetAsk = (\<lambda>_. None),
     SectorsSummary = (\<lambda>a. Inr (if a = 2 then [(''CommitWait'', 4)] else [(''CommitWait'', 4), (''Proving'', 9), (''Packing'', 3)])), MarketImportDealData = (\<lambda>_ _ _. None)\<rparr>"

lemmas sample_clients = sample_node_def sample_lotus_def New_def newBuilder_def tcpAddrFromMultiAddr_def
  getIPFromMaddr_def withPort_def connectMarket_def HealthCheck_def

theorem bidder_verified_iff_witness:
  "VerifyBidder sample_node \<lparr>fc_fakeMode = False\<rparr> ''signed'' ''peer'' ''f01'' = Inr True \<and>
   VerifyBidder sample_node \<lparr>fc_fakeMode = False\<rparr> ''forged'' ''peer'' ''f01'' \<noteq> Inr True"
  by (subst (1 2) bidder_verified_iff) (auto simp: sample_node_def)

theorem sealing_sectors_equiv_witness:
  "CurrentSealingSectors sample_lotus \<lparr>cmin = 1, cmkt = 1, fakeMode = False, finalizeEarly = True\<rparr> = Ret (Inr 3) \<and>
   CurrentSealingSectors sample_lotus \<lparr>cmin = 1, cmkt = 1, fakeMode = False, finalizeEarly = False\<rparr> = Ret (Inr 7)"
  by (subst (1 2) sealing_sectors_equiv [where m = "[(''CommitWait'', 4), (''Proving'', 9), (''Packing'', 3)]"])
    (simp_all add: sample_lotus_def)

theorem finalize_early_is_dropped_witness:
  "CurrentSealingSectors sample_lotus \<lparr>cmin = 2, cmkt = 2, fakeMode = False, finalizeEarly = False\<rparr> = Ret (Inr 4)"
  by (rule finalize_early_is_dropped [where maddr = "''m''" and authToken = "''t''" and marketMaddr = "''''" and
      marketAuthToken = "''''" and connRetries = 5 and early = True])
    (simp_all add: sample_clients numeral_eq_Suc)

theorem fake_mode_cannot_count_witness:
  "\<exists>msg. CurrentSealingSectors sample_lotus \<lparr>cmin = 0, cmkt = 0, fakeMode = True, finalizeEarly = False\<rparr> = Panic msg"
  by (rule fake_mode_cannot_count [where maddr = "''m''" and authToken = "''t''" and marketMaddr = "''''" and
      marketAuthToken = "''''" and connRetries = 5 and early = False])
    (simp add: sample_lotus_def New_def)

theorem connects_at_first_success_witness:
  "newBuilder sample_lotus ''m'' ''t'' 5 = Inr (Inr 2)"
  by (subst connects_at_first_success [where m = "''m''" and addr = "''10.0.0.1:2345''" and k = 2 and api = 2])
    (auto simp: sample_clients)

lemma unresolved_name_gives_bare_port_witness:
  "tcpAddrFromMultiAddr (sample_lotus\<lparr>ValueForProtocol :=
      (\<lambda>m p. case p of P_DNS4 \<Rightarrow> Inr ''lotus'' | P_TCP \<Rightarrow> Inr ''2345'' | _ \<Rightarrow> Inl (go_error.New ''no''))\<rparr>) ''m'' =
    Inr '':2345''"
  by (subst unresolved_name_gives_bare_port [where name = "''lotus''" and port = "''2345''" and ms = "[]"])
    (simp_all add: sample_lotus_def)

end
