(* ===== verification/Cli.thy ===== *)
theory Cli
  imports Http_Api Clients
begin

text \<open>
  The command line, \<open>main.go\<close> and \<open>lib/peerflags/peerflags.go\<close>: the flags with their defaults, the
  commands that call the HTTP API of a running daemon, and the daemon, which builds the clients,
  the limiter and the service from the flags. Viper, the codecs of keys and the parsers of sizes
  and durations are arguments.
\<close>

section \<open>Flags\<close>

text \<open>The values of the flags of the daemon, in the order of \<open>main.go\<close>, then those of \<open>peerflags\<close>.\<close>

record settings =
  http_port :: string
  miner_addr :: string
  storage_provider_id :: string
  wallet_addr_sig :: string
  ask_price :: i64
  verified_ask_price :: i64
  fast_retrieval :: bool
  deal_start_window :: u64
  deal_duration_min :: u64
  deal_duration_max :: u64
  deal_size_min :: u64
  deal_size_max :: u64
  discard_orphan_deals_after :: duration
  running_bytes_limit :: string
  concurrent_imports_limit :: int
  concurrent_data_download_limit :: int
  boost_download :: bool
  sealing_sectors_limit :: int
  finalize_early :: bool
  deal_data_fetch_attempts :: u32
  deal_data_fetch_timeout :: duration
  cid_gravity_key :: string
  cid_gravity_strict :: bool
  lotus_miner_api_maddr :: string
  lotus_miner_api_token :: string
  lotus_market_api_maddr :: string
  lotus_market_api_token :: string
  lotus_api_conn_retries :: int
  lotus_gateway_url :: string
  fake_mode :: bool
  private_key :: string
  listen_multiaddr :: "string list"
  bootstrap_multiaddr :: "string list"
  announce_multiaddr :: "string list"
  conn_low :: int
  conn_high :: int
  conn_grace :: duration
  enable_quic :: bool
  enable_nat :: bool
  enable_mdns :: bool

definition hour :: duration where "hour = 60 * minute"

definition MaxDataURIFetchConcurrency :: int where "MaxDataURIFetchConcurrency = 3"

definition peerDefaults :: "settings \<Rightarrow> settings" where
  "peerDefaults v = v\<lparr>fake_mode := False, private_key := '''',
     listen_multiaddr := [''/ip4/0.0.0.0/tcp/4001'', ''/ip4/0.0.0.0/udp/4001/quic''],
     bootstrap_multiaddr := [
       ''/ip4/34.83.3.108/tcp/4001/p2p/12D3KooWGDBaVz45c5d9VEtF4eM7Pgj71DSzB3HHAfpjc8fb5EGe'',
       ''/ip4/34.83.3.108/udp/4001/quic/p2p/12D3KooWGDBaVz45c5d9VEtF4eM7Pgj71DSzB3HHAfpjc8fb5EGe'',
       ''/ip4/34.105.101.67/tcp/4001/p2p/12D3KooW9wsxrkCx6CnsWb1gBxZWAjzVK5Hif9FLXKoQZYLewXoD'',
       ''/ip4/34.105.101.67/udp/4001/quic/p2p/12D3KooW9wsxrkCx6CnsWb1gBxZWAjzVK5Hif9FLXKoQZYLewXoD'',
       ''/ip4/34.83.36.118/tcp/4001/p2p/12D3KooWQSf4SMyWPSqLN23KxhcLWYhshWb34pYv65cr85jGpNrR'',
       ''/ip4/34.82.221.249/tcp/4001/p2p/12D3KooWBGyJbDmjjvEzfsgb3nE9JsfcYRqPxpnQagxbb1PyxBrb'',
       ''/ip4/34.83.88.62/tcp/4001/p2p/12D3KooWHpxr8BTd3R6kAqvtfn77PKW7WRqJ4cbnrT59K2rU44WM''],
     announce_multiaddr := [], conn_low := 256, conn_high := 512, conn_grace := second * 120,
     enable_quic := False, enable_nat := False, enable_mdns := False\<rparr>"

definition defaults :: "settings \<Rightarrow> settings" where
  "defaults v = peerDefaults (v\<lparr>http_port := ''9999'', miner_addr := '''', storage_provider_id := '''',
     wallet_addr_sig := '''', ask_price := 0, verified_ask_price := 0, fast_retrieval := True,
     deal_start_window := 0, deal_duration_min := MinDealDuration, deal_duration_max := MaxDealDuration,
     deal_size_min := 56 * 1024, deal_size_max := 32 * 1024 * 1024 * 1024,
     discard_orphan_deals_after := 24 * hour, running_bytes_limit := '''', concurrent_imports_limit := 0,
     concurrent_data_download_limit := MaxDataURIFetchConcurrency, boost_download := False,
     sealing_sectors_limit := 0, finalize_early := False, deal_data_fetch_attempts := 3,
     deal_data_fetch_timeout := 3 * hour, cid_gravity_key := '''', cid_gravity_strict := False,
     lotus_miner_api_maddr := ''/ip4/127.0.0.1/tcp/2345/http'', lotus_miner_api_token := '''',
     lotus_market_api_maddr := '''', lotus_market_api_token := '''', lotus_api_conn_retries := 2,
     lotus_gateway_url := ''https://api.node.glif.io''\<rparr>)"

section \<open>Peer configuration\<close>

record peer_config =
  RepoPath :: string
  PrivKey :: string
  ListenMultiaddrs :: "string list"
  AnnounceMultiaddrs :: "string list"
  BootstrapAddrs :: "string list"
  ConnManager :: string
  EnableQUIC :: bool
  EnableNATPortMap :: bool
  EnableMDNS :: bool
  EnablePubSubPeerExchange :: bool
  EnablePubSubFloodPublish :: bool

text \<open>What the commands call; \<open>Stat\<close> says whether a file exists, \<open>'d\<close> is the database.\<close>

record 'd host =
  Getenv :: "string \<Rightarrow> string"
  mbase_Decode :: "string \<Rightarrow> go_error + string"
  UnmarshalPrivateKey :: "string \<Rightarrow> go_error + string"
  NewConnManager :: "int \<Rightarrow> int \<Rightarrow> duration \<Rightarrow> go_error + string"
  ParseStringSlice :: "string list \<Rightarrow> string list"
  GenerateKey :: "go_error + string"
  MarshalKey :: "string \<Rightarrow> go_error + string"
  mbase_Encode :: "string \<Rightarrow> go_error + string"
  host_MkdirAll :: "string \<Rightarrow> go_error option"
  Stat :: "string \<Rightarrow> bool"
  WriteConfigAs :: "string \<Rightarrow> settings \<Rightarrow> go_error option"
  ReadInConfig :: "string \<Rightarrow> go_error option"
  MarshalConfig :: "settings \<Rightarrow> go_error option"
  OpenBadger :: "string \<Rightarrow> go_error + 'd"
  hex_DecodeString :: "string \<Rightarrow> go_error + string"
  ParseBytes :: "string \<Rightarrow> go_error + u64"
  ParseDuration :: "string \<Rightarrow> go_error + duration"

definition repo_path :: "'d host \<Rightarrow> string \<Rightarrow> string \<Rightarrow> string" where
  "repo_path X repoPathEnv defaultRepoPath =
     (if Getenv X repoPathEnv = '''' then defaultRepoPath else Getenv X repoPathEnv)"

definition GetConfig ::
  "'d host \<Rightarrow> settings \<Rightarrow> string \<Rightarrow> string \<Rightarrow> bool \<Rightarrow> go_error + peer_config" where
  "GetConfig X v repoPathEnv defaultRepoPath isAuctioneer =
     (if private_key v = '''' then
        Inl (go_error.New (''--private-key is required. Run '' @ quoted ''init'' @ '' to generate a new keypair''))
      else case mbase_Decode X (private_key v) of
        Inl e \<Rightarrow> Inl (Wrapv ''decoding private key'' e)
      | Inr k \<Rightarrow>
     (case UnmarshalPrivateKey X k of
        Inl e \<Rightarrow> Inl (Wrapv ''unmarshaling private key'' e)
      | Inr priv \<Rightarrow>
     (case NewConnManager X (conn_low v) (conn_high v) (conn_grace v) of
        Inl e \<Rightarrow> Inl (Wrapv ''creating conn manager'' e)
      | Inr connMan \<Rightarrow>
          Inr \<lparr>RepoPath = repo_path X repoPathEnv defaultRepoPath, PrivKey = priv,
            ListenMultiaddrs = ParseStringSlice X (listen_multiaddr v),
            AnnounceMultiaddrs = ParseStringSlice X (announce_multiaddr v),
            BootstrapAddrs = ParseStringSlice X (bootstrap_multiaddr v), ConnManager = connMan,
            EnableQUIC = enable_quic v, EnableNATPortMap = enable_nat v, EnableMDNS = enable_mdns v,
            EnablePubSubPeerExchange = isAuctioneer, EnablePubSubFloodPublish = True\<rparr>)))"

text \<open>The key of the settings, or a new one.\<close>

definition configKey :: "'d host \<Rightarrow> settings \<Rightarrow> go_error + string" where
  "configKey X v =
     (if private_key v \<noteq> '''' then Inr (private_key v)
      else case GenerateKey X of
        Inl e \<Rightarrow> Inl (Wrapv ''generating private key'' e)
      | Inr priv \<Rightarrow>
     (case MarshalKey X priv of
        Inl e \<Rightarrow> Inl (Wrapv ''marshaling private key'' e)
      | Inr k \<Rightarrow>
     (case mbase_Encode X k of
        Inl e \<Rightarrow> Inl (Wrapv ''encoding private key'' e)
      | Inr keystr \<Rightarrow> Inr keystr)))"

text \<open>The result, and what was written to which file, if anything.\<close>

definition path_Dir :: "string \<Rightarrow> string" where
  "path_Dir p = path_Clean (rev (dropWhile (\<lambda>c. c \<noteq> CHR ''/'') (rev p)))"

definition WriteConfig ::
  "'d host \<Rightarrow> settings \<Rightarrow> string \<Rightarrow> string \<Rightarrow> (go_error + string) \<times> (string \<times> settings) option" where
  "WriteConfig X v repoPathEnv defaultRepoPath =
     (let repoPath = repo_path X repoPathEnv defaultRepoPath; cf = path_Join [repoPath, ''config''] in
      case host_MkdirAll X (path_Dir cf) of
        Some e \<Rightarrow> (Inl (Wrapv ''making config directory'' e), None)
      | None \<Rightarrow>
          if Stat X cf then (Inl (go_error.New (cf @ '' already exists'')), None)
          else case configKey X v of
            Inl e \<Rightarrow> (Inl e, None)
          | Inr k \<Rightarrow>
              let v1 = v\<lparr>private_key := k, listen_multiaddr := ParseStringSlice X (listen_multiaddr v),
                    bootstrap_multiaddr := ParseStringSlice X (bootstrap_multiaddr v),
                    announce_multiaddr := ParseStringSlice X (announce_multiaddr v)\<rparr> in
              (case WriteConfigAs X cf v1 of
                 Some e \<Rightarrow> (Inl (Wrapv ''error writing config'' e), None)
               | None \<Rightarrow>
                   (case ReadInConfig X cf of
                      Some e \<Rightarrow> (Inl (Wrapv ''reading configuration'' e), Some (cf, v1))
                    | None \<Rightarrow> (Inr cf, Some (cf, v1)))))"

section \<open>Calling the API\<close>

definition urlFor :: "string \<Rightarrow> string list \<Rightarrow> string" where
  "urlFor port parts =
     ''http://127.0.0.1:'' @ port @ (if parts \<noteq> [] then ''/'' @ path_Join parts else '''')"

definition dealsListURL :: "string \<Rightarrow> string \<Rightarrow> string" where
  "dealsListURL port status =
     urlFor port [''deals''] @ (if status \<noteq> '''' then ''?status='' @ QueryEscape status else '''')"

definition downloadURL :: "string \<Rightarrow> string \<Rightarrow> string \<Rightarrow> string" where
  "downloadURL port payloadCid u =
     urlFor port [''datauri''] @ ''?'' @ Values_Encode [(''cid'', payloadCid), (''uri'', u)]"

text \<open>The request for such a url: the path from the slash behind the host on, and the query.\<close>

definition request_to :: "string \<Rightarrow> string \<Rightarrow> request" where
  "request_to m url =
     (case cut CHR ''?'' (dropWhile (\<lambda>c. c \<noteq> CHR ''/'') (drop (length ''http://'') url)) of
        (p, q) \<Rightarrow> \<lparr>Method = m, URLPath = p, RawQuery = q\<rparr>)"

definition dealsListCmd :: "string \<Rightarrow> string \<Rightarrow> request" where
  "dealsListCmd port status = request_to ''GET'' (dealsListURL port status)"

definition downloadCmd :: "string \<Rightarrow> string \<Rightarrow> string \<Rightarrow> request" where
  "downloadCmd port payloadCid u = request_to ''GET'' (downloadURL port payloadCid u)"

definition pauseCmd :: "string \<Rightarrow> request" where
  "pauseCmd port = request_to ''PUT'' (urlFor port [''pause''])"

definition resumeCmd :: "string \<Rightarrow> request" where
  "resumeCmd port = request_to ''PUT'' (urlFor port [''resume''])"

section \<open>The daemon\<close>

definition validStorageProviderID :: "string \<Rightarrow> bool" where
  "validStorageProviderID s =
     (case s of
        a # b # ds \<Rightarrow> 97 \<le> (of_char a :: nat) \<and> (of_char a :: nat) \<le> 122 \<and> b = CHR ''0'' \<and> ds \<noteq> [] \<and> list_all is_digit ds
      | _ \<Rightarrow> False)"

definition cidGravityURL :: string where
  "cidGravityURL = ''https://api.cidgravity.com/api/integrations/bidbot''"

definition parseRunningBytesLimit :: "'d host \<Rightarrow> string \<Rightarrow> go_error + Limiter" where
  "parseRunningBytesLimit X s =
     (case split_on CHR ''/'' s of
        [bytesPart, timePart] \<Rightarrow>
          (case ParseBytes X (TrimSpace bytesPart) of
             Inl e \<Rightarrow> Inl e
           | Inr nBytes \<Rightarrow>
               (case ParseDuration X (TrimSpace timePart) of
                  Inl e \<Rightarrow> Inl e
                | Inr d \<Rightarrow> Inr (Running (NewRunningTotalLimiter nBytes d))))
      | _ \<Rightarrow> Inl (go_error.New ''should be separated by forward slash (/)''))"

definition limiterFor :: "'d host \<Rightarrow> settings \<Rightarrow> go_error + Limiter" where
  "limiterFor X v =
     (if running_bytes_limit v = '''' then Inr NopeLimiter
      else case parseRunningBytesLimit X (running_bytes_limit v) of
        Inl e \<Rightarrow> Inl (Wrapw (''parsing '' @ quoted (running_bytes_limit v)) e)
      | Inr l \<Rightarrow> Inr l)"

text \<open>The deal data directory defaults to one below the default path, whatever the repository's path.\<close>

definition serviceConfig :: "'d host \<Rightarrow> settings \<Rightarrow> string \<Rightarrow> string \<Rightarrow> string \<Rightarrow> Limiter \<Rightarrow> Config" where
  "serviceConfig X v defaultConfigPath providerID walletAddrSig l =
     \<lparr>ConfBidParams = \<lparr>StorageProviderID = providerID, WalletAddrSig = walletAddrSig,
        AskPrice = ask_price v, VerifiedAskPrice = verified_ask_price v, FastRetrieval = fast_retrieval v,
        DealStartWindow = deal_start_window v,
        DealDataDirectory = (if Getenv X ''BIDBOT_DEAL_DATA_DIRECTORY'' = ''''
          then path_Join [defaultConfigPath, ''deal_data''] else Getenv X ''BIDBOT_DEAL_DATA_DIRECTORY''),
        DealDataFetchAttempts = deal_data_fetch_attempts v, DealDataFetchTimeout = deal_data_fetch_timeout v,
        DiscardOrphanDealsAfter = discard_orphan_deals_after v\<rparr>,
      ConfAuctionFilters = \<lparr>AuctionFilters.DealDuration = \<lparr>Min = deal_duration_min v, Max = deal_duration_max v\<rparr>,
        DealSize = \<lparr>Min = deal_size_min v, Max = deal_size_max v\<rparr>\<rparr>,
      ConfBytesLimiter = l, ConcurrentImports = concurrent_imports_limit v,
      ChunkedDownload = boost_download v, SealingSectorsLimit = sealing_sectors_limit v,
      ConfPricingRules = Some (if cid_gravity_key v \<noteq> '''' then
          CIDGravity (NewCIDGravityRules cidGravityURL (cid_gravity_key v)) else EmptyRules),
      ConfPricingRulesStrict = cid_gravity_strict v,
      ConcurrentDownloads = nat (concurrent_data_download_limit v)\<rparr>"

text \<open>
  The calls of the bid store and of the service that go to the two clients of Lotus. Where counting sectors
  would end the process, which it does in fake mode when a limit is set, an error stands in its place.
\<close>

definition wired :: "('d, 't, 'v) env \<Rightarrow> 'a lotus \<Rightarrow> full_node \<Rightarrow> 'a Client \<Rightarrow> ('d, 't, 'v) env" where
  "wired E L fn lc = E\<lparr>io_of := (io_of E)\<lparr>io.GetChainHeight := Clients.GetChainHeight fn,
       io.ImportData := Clients.ImportData L lc, lc_HealthCheck := Clients.HealthCheck L lc\<rparr>,
     env.CurrentSealingSectors := (case Clients.CurrentSealingSectors L lc of
         Ret r \<Rightarrow> map_sum (\<lambda>e. e) sint r
       | Panic msg \<Rightarrow> Inl (go_error.New msg))\<rparr>"

text \<open>The constructor of the service comes to that of the bid store, whose channels cannot have a negative size.\<close>

definition reachesStore :: "os_calls \<Rightarrow> startup \<Rightarrow> string \<Rightarrow> Config \<Rightarrow> bool" where
  "reachesStore os up fresh conf \<longleftrightarrow> BidParams_Validate os fresh (ConfBidParams conf) = None \<and>
     AuctionFilters_Validate (ConfAuctionFilters conf) = None \<and>
     (case NewLibp2pPubsub up of Inl e \<Rightarrow> False | Inr peer \<Rightarrow> True)"

text \<open>
  The daemon up to its subscription: it exits with an error, or runs a service. \<open>up\<close> gives the other calls of the service's
  constructor, \<open>sub\<close> the error of the subscription.
\<close>

definition daemonCmd ::
  "'d host \<Rightarrow> ('d, 't, 'v) env \<Rightarrow> 'a lotus \<Rightarrow> full_node \<Rightarrow> os_calls \<Rightarrow> startup \<Rightarrow> go_error option \<Rightarrow> string \<Rightarrow>
     (nat \<Rightarrow> Bid) \<Rightarrow> string \<Rightarrow> settings \<Rightarrow> (go_error + 'd Service) go_out" where
  "daemonCmd X E L fn os up sub fresh h defaultConfigPath v =
     (let providerID = (if storage_provider_id v = '''' then miner_addr v else storage_provider_id v) in
      if providerID = '''' then Ret (Inl (go_error.New (''--storage-provider-id is required. See '' @
        quoted ''bidbot help init'' @ '' for instructions'')))
      else if \<not> validStorageProviderID providerID
        then Ret (Inl (go_error.New ''--storage-provider-id should be in the form of f0xxxx''))
      else if wallet_addr_sig v = '''' then Ret (Inl (go_error.New (''--wallet-addr-sig is required. See '' @
        quoted ''bidbot help init'' @ '' for instructions'')))
      else case GetConfig X v ''BIDBOT_PATH'' defaultConfigPath False of
        Inl e \<Rightarrow> Ret (Inl (Wrapv ''getting peer config'' e))
      | Inr pconfig \<Rightarrow>
     (case MarshalConfig X v of
        Some e \<Rightarrow> Ret (Inl (Wrapv ''marshaling config'' e))
      | None \<Rightarrow>
     (case OpenBadger X (path_Join [repo_path X ''BIDBOT_PATH'' defaultConfigPath, ''bidstore'']) of
        Inl e \<Rightarrow> Ret (Inl (Wrapv ''creating datastore'' e))
      | Inr d \<Rightarrow>
     (case hex_DecodeString X (wallet_addr_sig v) of
        Inl e \<Rightarrow> Ret (Inl (Wrapv ''decoding wallet address signature'' e))
      | Inr walletAddrSig \<Rightarrow>
     (case Clients.New L (lotus_miner_api_maddr v) (lotus_miner_api_token v) (lotus_market_api_maddr v)
             (lotus_market_api_token v) (lotus_api_conn_retries v) (fake_mode v) (finalize_early v) of
        Inl e \<Rightarrow> Ret (Inl (Wrapv ''creating lotus client'' e))
      | Inr lc \<Rightarrow>
     (case fc_New fn (lotus_gateway_url v) (fake_mode v) of
        Inl e \<Rightarrow> Ret (Inl (Wrapv ''creating chain client'' e))
      | Inr fc \<Rightarrow>
     (case limiterFor X v of
        Inl e \<Rightarrow> Ret (Inl e)
      | Inr l \<Rightarrow>
          let conf = serviceConfig X v defaultConfigPath providerID walletAddrSig l in
          if concurrent_data_download_limit v < 0 \<and> reachesStore os up fresh conf
            then Panic ''makechan: size out of range''
          else (case NewService (wired E L fn lc) os (up\<lparr>startup.VerifyBidder := Clients.VerifyBidder fn fc\<rparr>) fresh h conf d of
             Inl e \<Rightarrow> Ret (Inl (Wrapv ''starting service'' e))
           | Inr serv \<Rightarrow>
               (case sub of
                  Some e \<Rightarrow> Ret (Inl (Wrapv ''subscribing to deal auction feed'' e))
                | None \<Rightarrow> Ret (Inr serv))))))))))"

section \<open>Commands and answers\<close>

lemma request_to_local:
  assumes "CHR ''/'' \<notin> set port" and "CHR ''?'' \<notin> set p"
  shows "request_to m (''http://127.0.0.1:'' @ port @ ''/'' @ p @ ''?'' @ q) = \<lparr>Method = m, URLPath = ''/'' @ p, RawQuery = q\<rparr>"
    "request_to m (''http://127.0.0.1:'' @ port @ ''/'' @ p) = \<lparr>Method = m, URLPath = ''/'' @ p, RawQuery = ''''\<rparr>"
proof -
  have host: "dropWhile (\<lambda>c. c \<noteq> CHR ''/'') (port @ CHR ''/'' # r) = CHR ''/'' # r" for r
    using assms(1) by (subst dropWhile_append2) auto
  have whole: "takeWhile (\<lambda>c. c \<noteq> CHR ''?'') (p @ r) = p @ takeWhile (\<lambda>c. c \<noteq> CHR ''?'') r"
    "dropWhile (\<lambda>c. c \<noteq> CHR ''?'') (p @ r) = dropWhile (\<lambda>c. c \<noteq> CHR ''?'') r" for r
    using assms(2) by (auto intro: takeWhile_append2 dropWhile_append2)
  have none: "dropWhile (\<lambda>c. c \<noteq> CHR ''?'') p = []" using assms(2) by (auto simp: dropWhile_eq_Nil_conv)
  show "request_to m (''http://127.0.0.1:'' @ port @ ''/'' @ p @ ''?'' @ q) = \<lparr>Method = m, URLPath = ''/'' @ p, RawQuery = q\<rparr>"
    by (simp add: request_to_def host cut_def whole)
  show "request_to m (''http://127.0.0.1:'' @ port @ ''/'' @ p) = \<lparr>Method = m, URLPath = ''/'' @ p, RawQuery = ''''\<rparr>"
    using whole [of "[]"] by (simp add: request_to_def host cut_def none)
qed

lemma join_one: "path_Join [''deals''] = ''deals''" "path_Join [''datauri''] = ''datauri''"
  "path_Join [''pause''] = ''pause''" "path_Join [''resume''] = ''resume''"
  by (simp_all add: path_Join_def path_Clean_def Let_def)

lemma command_requests:
  assumes "CHR ''/'' \<notin> set port"
  shows "downloadCmd port c u = \<lparr>Method = ''GET'', URLPath = ''/datauri'', RawQuery = Values_Encode [(''cid'', c), (''uri'', u)]\<rparr>"
    "dealsListCmd port status = \<lparr>Method = ''GET'', URLPath = ''/deals'',
       RawQuery = (if status = '''' then '''' else Values_Encode [(''status'', status)])\<rparr>"
    "pauseCmd port = \<lparr>Method = ''PUT'', URLPath = ''/pause'', RawQuery = ''''\<rparr>"
    "resumeCmd port = \<lparr>Method = ''PUT'', URLPath = ''/resume'', RawQuery = ''''\<rparr>"
proof -
  have esc: "QueryEscape ''status'' = ''status''" by (simp add: QueryEscape_def escape_char_def unreserved_def)
  note r = request_to_local [OF assms]
  show "downloadCmd port c u = \<lparr>Method = ''GET'', URLPath = ''/datauri'', RawQuery = Values_Encode [(''cid'', c), (''uri'', u)]\<rparr>"
    using r(1) [of "''datauri''"] by (simp add: downloadCmd_def downloadURL_def urlFor_def join_one)
  show "dealsListCmd port status = \<lparr>Method = ''GET'', URLPath = ''/deals'',
       RawQuery = (if status = '''' then '''' else Values_Encode [(''status'', status)])\<rparr>"
    using r(1) [of "''deals''"] r(2) [of "''deals''"]
    by (simp add: dealsListCmd_def dealsListURL_def urlFor_def join_one Values_Encode_def encode_setting_def esc)
  show "pauseCmd port = \<lparr>Method = ''PUT'', URLPath = ''/pause'', RawQuery = ''''\<rparr>"
    using r(2) [of "''pause''"] by (simp add: pauseCmd_def urlFor_def join_one)
  show "resumeCmd port = \<lparr>Method = ''PUT'', URLPath = ''/resume'', RawQuery = ''''\<rparr>"
    using r(2) [of "''resume''"] by (simp add: resumeCmd_def urlFor_def join_one)
qed

lemma commands_pause: "CHR ''/'' \<notin> set port \<Longrightarrow> pause_request (pauseCmd port) = Some True"
  "CHR ''/'' \<notin> set port \<Longrightarrow> pause_request (resumeCmd port) = Some False"
  by (simp_all add: command_requests pause_request_def)

text \<open>The API filters by the statuses that the command was given.\<close>

lemma dealsListCmd_status:
  assumes "CHR ''/'' \<notin> set port"
  shows "Values_Get (ParseQuery (RawQuery (dealsListCmd port status))) ''status'' = status"
  by (simp add: command_requests [OF assms] parse_encode)
    (simp add: ParseQuery_def parse_setting_def Values_Get_def)

lemma datauri_path: "cleanPath ''/datauri'' = ''/datauri''"
  "mux_handler (createMux A H) ''/datauri'' = Some (getOnly (dataURIRequestHandler A))"
  by (simp_all add: cleanPath_def path_Clean_def mux_handler_def createMux_def Let_def)

lemma writeDest_sent: "WriteHeader 200 (writeDest dest w) = writeDest dest w"
  by (simp add: writeDest_def w_Write_def WriteHeader_def Let_def httpError_def split: prod.split)

text \<open>
  The download command escapes its arguments once and the API unescapes them twice. So what is
  downloaded is not the uri of the command but that uri unescaped, with a space for every plus and
  a byte for every percent escape; a uri with a percent sign that is no escape is refused.
\<close>

theorem download_unescapes_twice:
  assumes "CHR ''/'' \<notin> set port" and "c \<noteq> ''''" and "u \<noteq> ''''"
  shows "serveRequest A H (downloadCmd port c u) s =
    (case QueryUnescape u of
       Inl e \<Rightarrow> (httpError newWriter (''parsing '' @ quoted ''uri'' @ '': '' @ Error e) 400, s)
     | Inr u' \<Rightarrow>
    (case QueryUnescape c of
       Inl e \<Rightarrow> (httpError newWriter (''parsing '' @ quoted ''cid'' @ '': '' @ Error e) 400, s)
     | Inr c' \<Rightarrow>
    (case api_WriteDataURI A c' u' s of
       (Inl e, s1) \<Rightarrow> (httpError newWriter (''writing data uri: '' @ Error e) (if uriFault e then 400 else 500), s1)
     | (Inr dest, s1) \<Rightarrow> (writeDest dest newWriter, s1))))"
proof -
  let ?r = "downloadCmd port c u"
  have "ParseQuery (RawQuery ?r) = [(''cid'', c), (''uri'', u)]"
    by (simp add: command_requests [OF assms(1)] parse_encode)
  then have get: "Values_Get (ParseQuery (RawQuery ?r)) ''cid'' = c" "Values_Get (ParseQuery (RawQuery ?r)) ''uri'' = u"
    by (simp_all add: Values_Get_def)
  have "serveRequest A H ?r s = apfst (WriteHeader 200) (dataURIRequestHandler A ?r (newWriter, s))"
    using command_requests(1) [OF assms(1), of c u]
    by (simp add: serveRequest_def ServeHTTP_def Let_def datauri_path getOnly_def methodOnly_def)
  then show ?thesis
    using assms(2,3)
    by (simp add: dataURIRequestHandler_def getQueryParam_def get Let_def httpError_sent writeDest_sent
        split: sum.split prod.split)
qed

theorem download_unescapes_twice_witness:
  "sent (fst (serveRequest (bot_api sample_env ''z'' (Inr ())) sample_http
      (downloadCmd ''9999'' ''root'' ''https://h/100%.car'') (sample_service [], []))) =
    ''parsing 'uri': invalid URL escape '' @ [CHR 0x22] @ ''%.c'' @ [CHR 0x22, CHR 0x0A] \<and>
   serveRequest A H (downloadCmd ''9999'' ''root'' ''https://h/a+b.car'') s =
     (case api_WriteDataURI A ''root'' ''https://h/a b.car'' s of
        (Inl e, s1) \<Rightarrow> (httpError newWriter (''writing data uri: '' @ Error e) (if uriFault e then 400 else 500), s1)
      | (Inr dest, s1) \<Rightarrow> (writeDest dest newWriter, s1))"
proof -
  have port: "CHR ''/'' \<notin> set ''9999''" by simp
  have un: "QueryUnescape ''https://h/100%.car'' = Inl (escapeError ''%.car'')"
    "QueryUnescape ''https://h/a+b.car'' = Inr ''https://h/a b.car''" "QueryUnescape ''root'' = Inr ''root''"
    by (simp_all add: unhex_def)
  show ?thesis
    by (subst (1 2) download_unescapes_twice [OF port])
      (simp_all add: un escapeError_def httpError_def w_Write_def newWriter_def WriteHeader_def SetContentType_def
        Let_def quoted_def del: QueryUnescape.simps)
qed

section \<open>Configurations\<close>

text \<open>
  Initializing never overwrites a configuration; and a key that it generates and writes is the key
  that the daemon reads back from the settings, as far as the codecs invert each other.
\<close>

theorem config_roundtrip:
  assumes "WriteConfig X v e d = (r, w)"
    and "\<And>k t. mbase_Encode X k = Inr t \<Longrightarrow> t \<noteq> '''' \<and> mbase_Decode X t = Inr k"
    and "\<And>p k. MarshalKey X p = Inr k \<Longrightarrow> UnmarshalPrivateKey X k = Inr p"
    and "GenerateKey X = Inr priv" and "private_key v = ''''"
    and "NewConnManager X (conn_low v) (conn_high v) (conn_grace v) = Inr cm"
  shows "case w of
      None \<Rightarrow> (\<exists>err. r = Inl err)
    | Some (f, v1) \<Rightarrow> f = path_Join [repo_path X e d, ''config''] \<and> \<not> Stat X f \<and>
        (\<exists>c. GetConfig X v1 e d False = Inr c \<and> PrivKey c = priv)"
  using assms(1) assms(2) assms(3) [of priv] assms(4-6)
  by (auto simp: WriteConfig_def configKey_def GetConfig_def Let_def split: if_split_asm option.splits sum.split_asm)

section \<open>A daemon that started\<close>

lemma enqueueOrphans_limiter:
  "enqueueOrphans B now now' p bs t s = (e, t', s') \<Longrightarrow> bytesLimiter s' = bytesLimiter s"
proof (induction bs arbitrary: t s)
  case (Cons b bs)
  then show ?case
    by (auto simp: enqueueDataURI_def set_bid_def split: prod.split_asm option.split_asm if_split_asm)
qed simp

lemma getOrphaned_limiter: "getOrphaned B now now' s = (e, s') \<Longrightarrow> bytesLimiter s' = bytesLimiter s"
  by (auto simp: getOrphaned_def alloc_def commitStore_def
      split: sum.split_asm if_split_asm prod.split_asm option.split_asm dest!: enqueueOrphans_limiter)

lemma NewStore_limiter:
  "NewStore B w now now' d dir attempts timeout l imports chunked downloads h = Inr st \<Longrightarrow> bytesLimiter st = l"
  by (auto simp: NewStore_def Let_def split: option.split_asm prod.split_asm dest!: getOrphaned_limiter)

lemma NewService_result:
  assumes "NewService E os up fresh h conf d = Inr serv"
  shows "bidParams serv = ConfBidParams conf \<and> auctionFilters serv = ConfAuctionFilters conf \<and>
    AuctionFilters_Validate (ConfAuctionFilters conf) = None \<and>
    \<not> isPaused serv \<and> bytesLimiter (store serv) = ConfBytesLimiter conf \<and>
    (\<exists>peer. NewLibp2pPubsub up = Inr peer \<and> startup.VerifyBidder up (WalletAddrSig (ConfBidParams conf)) peer
       (StorageProviderID (ConfBidParams conf)) = Inr True)"
  using assms
  by (auto simp: NewService_def Let_def isPaused_def split: option.split_asm sum.split_asm bool.split_asm
      dest!: NewStore_limiter)

text \<open>What a daemon that runs has gone through.\<close>

lemma daemonCmd_result:
  assumes "daemonCmd X E L fn os up sub fresh h p v = Ret (Inr serv)"
  shows "\<exists>providerID sig lc fc l d. validStorageProviderID providerID \<and> limiterFor X v = Inr l \<and>
    fc_New fn (lotus_gateway_url v) (fake_mode v) = Inr fc \<and>
    NewService (wired E L fn lc) os (up\<lparr>startup.VerifyBidder := Clients.VerifyBidder fn fc\<rparr>) fresh h
      (serviceConfig X v p providerID sig l) d = Inr serv"
  using assms
  by (auto simp: daemonCmd_def Let_def split: if_split_asm sum.split_asm option.split_asm)

lemma daemonCmd_prices:
  assumes "daemonCmd X E L fn os up sub fresh h p v = Ret (Inr serv)"
  shows "AskPrice (bidParams serv) = ask_price v" "VerifiedAskPrice (bidParams serv) = verified_ask_price v"
  using daemonCmd_result [OF assms] NewService_result by (fastforce simp: serviceConfig_def)+

text \<open>
  C34: a daemon that runs has a storage provider id of the expected form, whose owner or worker signed
  for this peer outside fake mode; its bids are made with the prices, windows and filters of the
  flags, its limiter is the one the flag describes or none, and it is not paused. Of the filters the
  bounds of the duration are in order; those of the size are taken as they come.
\<close>

theorem daemon_started:
  assumes "daemonCmd X E L fn os up sub fresh h p v = Ret (Inr serv)"
  shows "validStorageProviderID (StorageProviderID (bidParams serv)) \<and>
    (\<exists>peer fc. NewLibp2pPubsub up = Inr peer \<and> fc_fakeMode fc = fake_mode v \<and>
       Clients.VerifyBidder fn fc (WalletAddrSig (bidParams serv)) peer (StorageProviderID (bidParams serv)) = Inr True) \<and>
    AskPrice (bidParams serv) = ask_price v \<and> VerifiedAskPrice (bidParams serv) = verified_ask_price v \<and>
    DealStartWindow (bidParams serv) = deal_start_window v \<and>
    auctionFilters serv = \<lparr>AuctionFilters.DealDuration = \<lparr>Min = deal_duration_min v, Max = deal_duration_max v\<rparr>,
      DealSize = \<lparr>Min = deal_size_min v, Max = deal_size_max v\<rparr>\<rparr> \<and>
    deal_duration_min v \<le> deal_duration_max v \<and>
    limiterFor X v = Inr (bytesLimiter (store serv)) \<and> \<not> isPaused serv"
proof -
  from daemonCmd_result [OF assms] obtain providerID sig lc fc l d where
    r: "validStorageProviderID providerID" "limiterFor X v = Inr l" "fc_New fn (lotus_gateway_url v) (fake_mode v) = Inr fc"
      "NewService (wired E L fn lc) os (up\<lparr>startup.VerifyBidder := Clients.VerifyBidder fn fc\<rparr>) fresh h
        (serviceConfig X v p providerID sig l) d = Inr serv" by blast
  have "fc_fakeMode fc = fake_mode v" using r(3) by (auto simp: fc_New_def split: option.split_asm)
  moreover have "deal_duration_min v \<le> deal_duration_max v"
    using NewService_result [OF r(4)]
    by (auto simp: serviceConfig_def AuctionFilters_Validate_def MinMaxFilter_Validate_def split: if_split_asm)
  ultimately show ?thesis using r NewService_result [OF r(4)] by (auto simp: serviceConfig_def)
qed

text \<open>
  The price flags default to 0, though their descriptions promise 100 nanoFIL. A daemon that is run
  without them and without pricing rules offers its storage for free.
\<close>

theorem default_prices_are_free:
  assumes "daemonCmd X E L fn os up sub fresh h p v = Ret (Inr serv)" and "cid_gravity_key v = ''''"
    and "ask_price v = ask_price (defaults u)" and "verified_ask_price v = verified_ask_price (defaults u)"
    and "(t, b) \<in> set (published (snd (makeBid E' a sender serv)))"
  shows "BidAskPrice b = 0 \<and> BidVerifiedAskPrice b = 0"
proof -
  from daemonCmd_result [OF assms(1)] obtain providerID sig lc fc l d where
    new: "NewService (wired E L fn lc) os (up\<lparr>startup.VerifyBidder := Clients.VerifyBidder fn fc\<rparr>) fresh h
      (serviceConfig X v p providerID sig l) d = Inr serv" by blast
  have init: "published serv = []" "pricingRules serv = EmptyRules"
    using new assms(2)
    by (auto simp: NewService_def serviceConfig_def Let_def
        split: option.split_asm sum.split_asm bool.split_asm)
  have free: "AskPrice (bidParams serv) = 0" "VerifiedAskPrice (bidParams serv) = 0"
    using daemonCmd_prices [OF assms(1)] assms(3,4) by (simp_all add: defaults_def peerDefaults_def)
  have bid: "newBid (bidParams serv) a n (noPrices\<lparr>AllowBidding := x\<rparr>) =
      newBid (bidParams serv) a n noPrices" for n x by simp
  have pub: "b = (newBid (bidParams serv) a n noPrices)\<lparr>BidWalletAddrSig := WalletAddrSig (bidParams serv)\<rparr>" if
    "(t, b) \<in> set (published (snd (submitBid E' a sender (newBid (bidParams serv) a n noPrices) serv)))" for n
    using that submitBid_published [of E' a sender "newBid (bidParams serv) a n noPrices" serv] init(1) by auto
  have same: "serv\<lparr>pricingRules := EmptyRules\<rparr> = serv" using init(2) by (cases serv) simp
  from pub have "\<exists>n. b = (newBid (bidParams serv) a n noPrices)\<lparr>BidWalletAddrSig := WalletAddrSig (bidParams serv)\<rparr>"
    using assms(5) init
    by (auto simp: makeBid_def Let_def bid same split: if_split_asm option.split_asm sum.split_asm)
  with free show ?thesis by (auto simp: newBid_def askedPrices_def noPrices_def)
qed

section \<open>The hypotheses hold\<close>

definition sample_host :: "'d \<Rightarrow> 'd host" where
  "sample_host d = \<lparr>Getenv = (\<lambda>_. ''''), mbase_Decode = Inr \<circ> tl, UnmarshalPrivateKey = Inr,
     NewConnManager = (\<lambda>_ _ _. Inr ''manager''), ParseStringSlice = (\<lambda>x. x), GenerateKey = Inr ''key'',
     MarshalKey = Inr, mbase_Encode = (\<lambda>k. Inr (''m'' @ k)), host_MkdirAll = (\<lambda>_. None), Stat = (\<lambda>_. False),
     WriteConfigAs = (\<lambda>_ _. None), ReadInConfig = (\<lambda>_. None), MarshalConfig = (\<lambda>_. None),
     OpenBadger = (\<lambda>_. Inr d), hex_DecodeString = Inr,
     ParseBytes = (\<lambda>s. if s = ''10MiB'' then Inr 10485760 else Inl (go_error.New ''size'')),
     ParseDuration = (\<lambda>s. if s = ''1m'' then Inr minute else Inl (go_error.New ''duration''))\<rparr>"

definition sample_settings :: "settings \<Rightarrow> settings" where
  "sample_settings v = (defaults v)\<lparr>storage_provider_id := ''f01234'', wallet_addr_sig := ''signed'',
     deal_start_window := 500, running_bytes_limit := ''10MiB / 1m'', private_key := ''mkey'',
     lotus_api_conn_retries := 5\<rparr>"

definition sample_os :: os_calls where
  "sample_os = \<lparr>MkdirAll = (\<lambda>_. None), WriteFile = (\<lambda>_. None), Remove = (\<lambda>_. None)\<rparr>"

definition sample_startup :: startup where
  "sample_startup = \<lparr>NewLibp2pPubsub = Inr ''peer'', VerifyBidder = (\<lambda>_ _ _. Inr False),
     MarshalPrivateKey = Inr ''key'', DecryptionKeyFromBytes = (\<lambda>_. None)\<rparr>"

theorem config_roundtrip_witness:
  "\<exists>v1 c. WriteConfig (sample_host ()) (defaults v) ''BIDBOT_PATH'' ''/root/.bidbot'' =
      (Inr ''/root/.bidbot/config'', Some (''/root/.bidbot/config'', v1)) \<and>
    GetConfig (sample_host ()) v1 ''BIDBOT_PATH'' ''/root/.bidbot'' False = Inr c \<and> PrivKey c = ''key''"
proof -
  let ?X = "sample_host ()" and ?v = "defaults v" and ?cf = "''/root/.bidbot/config''"
  have cf: "path_Join [repo_path ?X ''BIDBOT_PATH'' ''/root/.bidbot'', ''config''] = ?cf"
    by (simp add: sample_host_def repo_path_def path_Join_def path_Clean_def Let_def)
  obtain v1 where eq: "WriteConfig ?X ?v ''BIDBOT_PATH'' ''/root/.bidbot'' = (Inr ?cf, Some (?cf, v1))"
    unfolding WriteConfig_def Let_def cf
    by (simp add: sample_host_def configKey_def defaults_def peerDefaults_def)
  from config_roundtrip [OF eq, of "''key''" "''manager''"] obtain c where
    "GetConfig ?X v1 ''BIDBOT_PATH'' ''/root/.bidbot'' False = Inr c \<and> PrivKey c = ''key''"
    by (auto simp: sample_host_def defaults_def peerDefaults_def)
  with eq show ?thesis by blast
qed

lemma backend_wired: "backend_of (wired sample_env L fn lc) = mem_backend"
  by (simp add: wired_def)

lemma sample_daemon:
  "\<exists>serv. daemonCmd (sample_host []) sample_env sample_lotus sample_node sample_os sample_startup None ''fresh''
     (\<lambda>_. sample_bid ''a'' Submitted) ''/root/.bidbot'' (sample_settings v) = Ret (Inr serv)"
proof -
  let ?X = "sample_host [] :: (key \<times> Bid option) list host" and ?v = "sample_settings v"
  have config: "\<exists>c. GetConfig ?X ?v ''BIDBOT_PATH'' ''/root/.bidbot'' False = Inr c"
    by (simp add: GetConfig_def sample_host_def sample_settings_def)
  have limit: "limiterFor ?X ?v = Inr (Running (NewRunningTotalLimiter 10485760 minute))"
    by (simp add: limiterFor_def parseRunningBytesLimit_def sample_host_def sample_settings_def TrimSpace_def is_space_def)
  have lotus: "\<exists>lc. Clients.New sample_lotus (lotus_miner_api_maddr ?v) (lotus_miner_api_token ?v) (lotus_market_api_maddr ?v)
      (lotus_market_api_token ?v) (lotus_api_conn_retries ?v) False (finalize_early ?v) = Inr lc"
    by (simp add: sample_settings_def defaults_def peerDefaults_def sample_clients numeral_eq_Suc)
  have verified: "Clients.VerifyBidder sample_node \<lparr>fc_fakeMode = False\<rparr> ''signed'' ''peer'' ''f01234'' = Inr True"
    by (simp add: Clients.VerifyBidder_def verifySignature_def sample_node_def)
  have store: "\<exists>st. NewStore mem_backend (io_of (wired sample_env sample_lotus sample_node lc)) now now' [] dir attempts
      timeout l imps chunked downloads h = Inr st" for lc now now' dir attempts timeout l imps chunked downloads h
    by (simp add: NewStore_def Fetch_Worker.HealthCheck_def wired_def getOrphaned_def getFetching_def mem_datastore_def
        mem_entries_def take_limit_def sample_io_def Clients.HealthCheck_def sample_lotus_def Let_def)
  obtain c lc where ok: "GetConfig ?X ?v ''BIDBOT_PATH'' ''/root/.bidbot'' False = Inr c"
    "Clients.New sample_lotus (lotus_miner_api_maddr ?v) (lotus_miner_api_token ?v) (lotus_market_api_maddr ?v)
      (lotus_market_api_token ?v) (lotus_api_conn_retries ?v) False (finalize_early ?v) = Inr lc"
    using config lotus by blast
  let ?conf = "serviceConfig ?X ?v ''/root/.bidbot'' ''f01234'' ''signed'' (Running (NewRunningTotalLimiter 10485760 minute))"
  have valid: "BidParams_Validate sample_os ''fresh'' (ConfBidParams ?conf) = None"
    "AuctionFilters_Validate (ConfAuctionFilters ?conf) = None"
    by (simp_all add: serviceConfig_def BidParams_Validate_def AuctionFilters_Validate_def MinMaxFilter_Validate_def
        sample_settings_def defaults_def peerDefaults_def sample_host_def sample_os_def path_Join_def path_Clean_def
        Let_def MinDealDuration_def MaxDealDuration_def epochsPerDay_def)
  have wallet: "WalletAddrSig (ConfBidParams ?conf) = ''signed''" "StorageProviderID (ConfBidParams ?conf) = ''f01234''"
    by (simp_all add: serviceConfig_def)
  have "\<exists>serv. NewService (wired sample_env sample_lotus sample_node lc) sample_os
      (sample_startup\<lparr>startup.VerifyBidder := Clients.VerifyBidder sample_node \<lparr>fc_fakeMode = False\<rparr>\<rparr>) ''fresh''
      (\<lambda>_. sample_bid ''a'' Submitted) ?conf [] = Inr serv"
  proof -
    let ?E = "wired sample_env sample_lotus sample_node lc"
    obtain st where st: "NewStore (backend_of ?E) (io_of ?E) (clock ?E 0) (clock ?E 1) []
        (DealDataDirectory (ConfBidParams ?conf)) (DealDataFetchAttempts (ConfBidParams ?conf))
        (DealDataFetchTimeout (ConfBidParams ?conf)) (ConfBytesLimiter ?conf) (ConcurrentImports ?conf)
        (ChunkedDownload ?conf) (ConcurrentDownloads ?conf) (\<lambda>_. sample_bid ''a'' Submitted) = Inr st"
      using store [of lc] by (metis backend_wired)
    show ?thesis
      by (simp only: NewService_def Let_def valid wallet st option.case sum.case)
        (simp add: sample_startup_def verified)
  qed
  moreover have "concurrent_data_download_limit ?v = 3" "storage_provider_id ?v = ''f01234''" "fake_mode ?v = False"
    "wallet_addr_sig ?v = ''signed''" "validStorageProviderID ''f01234''"
    by (simp_all add: sample_settings_def defaults_def peerDefaults_def MaxDataURIFetchConcurrency_def
        validStorageProviderID_def is_digit_def)
  moreover have "MarshalConfig ?X u = None" "OpenBadger ?X q = Inr []" "hex_DecodeString ?X q = Inr q" for u q
    by (simp_all add: sample_host_def)
  moreover have "fc_New sample_node q False = Inr \<lparr>fc_fakeMode = False\<rparr>" for q
    by (simp add: fc_New_def sample_node_def)
  ultimately show ?thesis
    by (auto simp add: daemonCmd_def Let_def ok limit)
qed

theorem daemon_started_witness:
  "\<forall>v. \<exists>serv. daemonCmd (sample_host []) sample_env sample_lotus sample_node sample_os sample_startup None ''fresh''
      (\<lambda>_. sample_bid ''a'' Submitted) ''/root/.bidbot'' (sample_settings v) = Ret (Inr serv) \<and>
    DealStartWindow (bidParams serv) = 500 \<and> \<not> isPaused serv"
proof
  fix v
  obtain serv where eq: "daemonCmd (sample_host []) sample_env sample_lotus sample_node sample_os sample_startup None
      ''fresh'' (\<lambda>_. sample_bid ''a'' Submitted) ''/root/.bidbot'' (sample_settings v) = Ret (Inr serv)"
    using sample_daemon by blast
  with daemon_started [OF eq] show "\<exists>serv. daemonCmd (sample_host []) sample_env sample_lotus sample_node sample_os sample_startup None ''fresh''
      (\<lambda>_. sample_bid ''a'' Submitted) ''/root/.bidbot'' (sample_settings v) = Ret (Inr serv) \<and>
    DealStartWindow (bidParams serv) = 500 \<and> \<not> isPaused serv"
    by (simp add: sample_settings_def)
qed

theorem default_prices_are_free_witness:
  "\<exists>serv. daemonCmd (sample_host []) sample_env sample_lotus sample_node sample_os sample_startup None ''fresh''
      (\<lambda>_. sample_bid ''a'' Submitted) ''/root/.bidbot'' (sample_settings v) = Ret (Inr serv) \<and>
    (\<forall>E' a sender. \<forall>tb \<in> set (published (snd (makeBid E' a sender serv))). BidAskPrice (snd tb) = 0)"
proof -
  obtain serv where eq: "daemonCmd (sample_host []) sample_env sample_lotus sample_node sample_os sample_startup None
      ''fresh'' (\<lambda>_. sample_bid ''a'' Submitted) ''/root/.bidbot'' (sample_settings v) = Ret (Inr serv)"
    using sample_daemon by blast
  have "BidAskPrice b = 0" if "(t, b) \<in> set (published (snd (makeBid E' a sender serv)))" for t b E' a sender
    using default_prices_are_free [OF eq _ _ _ that, of v]
    by (simp add: sample_settings_def defaults_def peerDefaults_def)
  with eq show ?thesis by force
qed

end
