(* ===== verification/Commands.thy ===== *)
theory Commands
  imports Cli
begin

text \<open>
  The commands of \<open>main.go\<close> other than the daemon: initializing, the calls of a running daemon with what
  they print, and the installation as a service of systemd. The exchange with the daemon, JSON, the
  table writer, the text of a field and the operating system are arguments.
\<close>

section \<open>Terminals\<close>

text \<open>A command ends well having printed a text, or fails with a message after what it has printed.\<close>

datatype outcome = Printed string | Fatal string string

text \<open>
  \<open>exchange\<close> sends a request and reads the status and the body of the answer; \<open>StatusLine\<close> is the text of
  a status, \<open>field_text\<close> that of a named field, and \<open>tabbed\<close> lays out rows of cells.
\<close>

record terminal =
  exchange :: "request \<Rightarrow> go_error + nat \<times> string"
  StatusLine :: "nat \<Rightarrow> string"
  decode_bids :: "string \<Rightarrow> go_error + Bid list"
  indent_bids :: "Bid list \<Rightarrow> go_error + string"
  indent_bid :: "Bid \<Rightarrow> go_error + string"
  field_text :: "string \<Rightarrow> Bid \<Rightarrow> string"
  tabbed :: "string list list \<Rightarrow> string"
  formatted :: "string \<Rightarrow> string"

definition newline :: string where "newline = [CHR 0x0A]"

definition failStatus :: "terminal \<Rightarrow> nat \<Rightarrow> string \<Rightarrow> string" where
  "failStatus W code body = StatusLine W code @ '': '' @ body"

section \<open>Calls of the daemon\<close>

definition idCmd :: "terminal \<Rightarrow> string \<Rightarrow> outcome" where
  "idCmd W port =
     (case exchange W (request_to ''GET'' (urlFor port [''id''])) of
        Inl e \<Rightarrow> Fatal '''' (Error e)
      | Inr (code, b) \<Rightarrow> if code \<noteq> 200 then Fatal '''' (failStatus W code b) else Printed (b @ newline))"

text \<open>The error of the call is used as a format.\<close>

definition versionCmd :: "terminal \<Rightarrow> string \<Rightarrow> string \<Rightarrow> outcome" where
  "versionCmd W port loc =
     (let fails = Fatal (''local'' @ loc @ newline) in
      case exchange W (request_to ''GET'' (urlFor port [''version''])) of
        Inl e \<Rightarrow> fails (formatted W (Error e))
      | Inr (code, remote) \<Rightarrow>
          if code \<noteq> 200 then fails (failStatus W code remote)
          else if remote = loc then Printed (loc @ newline)
          else Printed (''WARNING! You local and remote version don't match:'' @ newline @
            ''local'' @ loc @ newline @ newline @ ''daemon'' @ remote @ newline))"

definition getBids :: "terminal \<Rightarrow> request \<Rightarrow> string + Bid list" where
  "getBids W r =
     (case exchange W r of
        Inl e \<Rightarrow> Inl (Error e)
      | Inr (code, b) \<Rightarrow>
          if code \<noteq> 200 then Inl (failStatus W code b)
          else case decode_bids W b of Inl e \<Rightarrow> Inl (Error e) | Inr bids \<Rightarrow> Inr bids)"

definition print_json :: "go_error + string \<Rightarrow> outcome" where
  "print_json r = (case r of Inl e \<Rightarrow> Fatal '''' (Error e) | Inr b \<Rightarrow> Printed (b @ newline))"

definition dealsListFields :: "string list" where
  "dealsListFields = [''ID'', ''DealSize'', ''DealDuration'', ''Status'', ''AskPrice'', ''VerifiedAskPrice'',
     ''StartEpoch'', ''DataURIFetchAttempts'', ''CreatedAt'', ''ClientAddress'', ''ErrorCause'']"

text \<open>The header comes with the first bid.\<close>

definition show_bids :: "terminal \<Rightarrow> bool \<Rightarrow> Bid list \<Rightarrow> outcome" where
  "show_bids W json bids =
     (if json then print_json (indent_bids W bids)
      else Printed (tabbed W ((if bids = [] then [] else [dealsListFields]) @
        map (\<lambda>b. map (\<lambda>f. field_text W f b) dealsListFields) bids)))"

definition dealsListRun :: "terminal \<Rightarrow> string \<Rightarrow> bool \<Rightarrow> string \<Rightarrow> outcome" where
  "dealsListRun W port json status =
     (case getBids W (dealsListCmd port status) of
        Inl e \<Rightarrow> Fatal '''' e
      | Inr bids \<Rightarrow> show_bids W json bids)"

definition bidFields :: "string list" where
  "bidFields = [''ID'', ''AuctionID'', ''AuctioneerID'', ''PayloadCid'', ''DealSize'', ''DealDuration'', ''ClientAddress'',
     ''Sources'', ''Status'', ''AskPrice'', ''VerifiedAskPrice'', ''StartEpoch'', ''FastRetrieval'', ''ProposalCid'', ''DealUID'',
     ''DataURIFetchAttempts'', ''CreatedAt'', ''UpdatedAt'', ''ErrorCause'']"

definition show_bid :: "terminal \<Rightarrow> bool \<Rightarrow> Bid \<Rightarrow> outcome" where
  "show_bid W json bid =
     (if json then print_json (indent_bid W bid)
      else Printed (tabbed W (map (\<lambda>f. [f @ '':'', field_text W f bid]) bidFields)))"

definition dealsShowRun :: "terminal \<Rightarrow> string \<Rightarrow> bool \<Rightarrow> string \<Rightarrow> outcome" where
  "dealsShowRun W port json bidID =
     (case getBids W (request_to ''GET'' (urlFor port [''deals'', bidID])) of
        Inl e \<Rightarrow> Fatal '''' e
      | Inr [] \<Rightarrow> Printed ''''
      | Inr (bid # bids) \<Rightarrow> show_bid W json bid)"

text \<open>The answer is printed whatever its status; pausing and resuming do not look at it at all.\<close>

definition downloadRun :: "terminal \<Rightarrow> string \<Rightarrow> string \<Rightarrow> string \<Rightarrow> outcome" where
  "downloadRun W port payloadCid u =
     (case exchange W (downloadCmd port payloadCid u) of
        Inl e \<Rightarrow> Fatal '''' (Error e)
      | Inr (code, b) \<Rightarrow> Printed b)"

definition silently :: "terminal \<Rightarrow> request \<Rightarrow> outcome" where
  "silently W r = (case exchange W r of Inl e \<Rightarrow> Fatal '''' (Error e) | Inr cb \<Rightarrow> Printed '''')"

definition pauseRun :: "terminal \<Rightarrow> string \<Rightarrow> outcome" where
  "pauseRun W port = silently W (pauseCmd port)"

definition resumeRun :: "terminal \<Rightarrow> string \<Rightarrow> outcome" where
  "resumeRun W port = silently W (resumeCmd port)"

section \<open>Initializing\<close>

definition hex_EncodeToString :: "string \<Rightarrow> string" where
  "hex_EncodeToString s =
     concat (map (\<lambda>c. map (\<lambda>n. char_of (if n < 10 then 48 + n else 87 + n :: nat)) [of_char c div 16, of_char c mod 16]) s)"

definition instructions :: "string \<Rightarrow> string" where
  "instructions token = concat (map (\<lambda>l. l @ newline)
     [''Bidbot needs a signature from a miner wallet address to authenticate bids.'', '''',
      ''1. Sign this token with an address from your miner owner or worker Lotus wallet address of the storage provider:'', '''',
      ''    lotus wallet sign [owner-or-worker-address] '' @ token, '''',
      ''2. Start listening for deal auctions using the wallet address and signature from step 1:'', '''',
      ''    bidbot daemon --storage-provider-id <id>'',
      ''                  --wallet-addr-sig <signature>'',
      ''                  --lotus-miner-api-maddr <lotus-miner-api-maddr>'',
      ''                  --lotus-miner-api-token <lotus-miner-api-token-with-write-access>'',
      ''                  [--lotus-market-api-maddr <lotus-market-api-maddr>]'',
      ''                  [--lotus-market-api-token <lotus-market-api-token-with-write-access>]'',
      ''                  --deal-start-window <correct-deal-start-epoch-window-for-your-miner>'', '''',
      ''Note: In the event you win an auction, you must use this wallet address to make the deal(s).'', '''',
      ''Good luck!''])"

text \<open>The outcome, and what was written to which file; the peer id of a key is an argument.\<close>

definition initCmd ::
  "'d host \<Rightarrow> (string \<Rightarrow> go_error + string) \<Rightarrow> string \<Rightarrow> settings \<Rightarrow> outcome \<times> (string \<times> settings) option" where
  "initCmd X IDFromPrivateKey defaultConfigPath v =
     (case WriteConfig X v ''BIDBOT_PATH'' defaultConfigPath of
        (Inl e, w) \<Rightarrow> (Fatal '''' (''writing config: '' @ Error e), w)
      | (Inr cf, w) \<Rightarrow>
          let out = ''Initialized configuration file: '' @ cf @ newline @ newline;
              v1 = (case w of Some (f, v1) \<Rightarrow> v1 | None \<Rightarrow> v) in
          (case mbase_Decode X (private_key v1) of
             Inl e \<Rightarrow> Fatal out (''decoding private key: '' @ Error e)
           | Inr k \<Rightarrow>
          (case UnmarshalPrivateKey X k of
             Inl e \<Rightarrow> Fatal out (''unmarshaling private key: '' @ Error e)
           | Inr priv \<Rightarrow>
          (case IDFromPrivateKey priv of
             Inl e \<Rightarrow> Fatal out (''getting peer id: '' @ Error e)
           | Inr pid \<Rightarrow> Printed (out @ instructions (hex_EncodeToString pid)))), w))"

section \<open>Installing the service\<close>

record unix =
  GOOS :: string
  Executable :: "go_error + string"
  Getuid :: int
  LookupUser :: "string \<Rightarrow> go_error option"
  LookupGroup :: "string \<Rightarrow> go_error option"
  ConfigFileUsed :: string
  WriteUnit :: "string \<Rightarrow> string \<Rightarrow> go_error option"
  RunCommand :: "string list \<Rightarrow> go_error option"

definition systemdService :: "string \<Rightarrow> string \<Rightarrow> string \<Rightarrow> string \<Rightarrow> string" where
  "systemdService u g exePath bidbotPath = concat (map (\<lambda>l. l @ newline)
     [''[Unit]'', ''Description=Textile Bidbot'', ''# Wait for network AND daemon'', ''After=network-online.target'', '''',
      ''[Service]'', ''Type=simple'', ''User='' @ u, ''Group='' @ g, ''LimitNOFILE=1024'', '''',
      ''Restart=on-failure'', ''RestartSec=10'', '''',
      ''ExecStart='' @ exePath @ '' daemon --log-plaintext'', ''StandardOutput=journal'', ''StandardError=journal'',
      ''Environment=BIDBOT_PATH='' @ bidbotPath, '''',
      ''[Install]'', ''WantedBy=multi-user.target''])"

definition unitFile :: string where "unitFile = ''/etc/systemd/system/bidbot.service''"

text \<open>The outcome, the content written to the unit file, and the command that ran.\<close>

definition installServiceCmd ::
  "unix \<Rightarrow> string \<Rightarrow> string \<Rightarrow> outcome \<times> string option \<times> string list option" where
  "installServiceCmd X u g =
     (if GOOS X \<noteq> ''linux'' then (Fatal '''' ''only available on Linux with systemd.'', None, None)
      else case Executable X of
        Inl e \<Rightarrow> (Fatal '''' (Error e), None, None)
      | Inr exePath \<Rightarrow>
      if Getuid X \<noteq> 0 then (Fatal '''' (''try '' @ quoted (''sudo '' @ exePath @ '' install-service'') @ ''.''), None, None)
      else if u = '''' \<or> g = '''' then (Fatal '''' ''both --user and --group are required to install service.'', None, None)
      else case LookupUser X u of
        Some e \<Rightarrow> (Fatal '''' (''looking up user: '' @ Error e), None, None)
      | None \<Rightarrow>
     (case LookupGroup X g of
        Some e \<Rightarrow> (Fatal '''' (''looking up group: '' @ Error e), None, None)
      | None \<Rightarrow>
          let content = systemdService u g exePath (path_Dir (ConfigFileUsed X)); cmd = [''systemctl'', ''enable'', ''bidbot''] in
         (case WriteUnit X unitFile content of
            Some e \<Rightarrow> (Fatal '''' (Error e), None, None)
          | None \<Rightarrow>
         (case RunCommand X cmd of
            Some e \<Rightarrow> (Fatal '''' (Error e), Some content, None)
          | None \<Rightarrow> (Printed (''Service installed to '' @ unitFile @ '' and was configured to start on system boot.'' @ newline @
              ''To start the service right now, make sure the bidbot daemon is not running, and run '' @ [CHR 0x22] @
              ''sudo systemctl start bidbot'' @ [CHR 0x22] @ ''.'' @ newline), Some content, Some cmd)))))"

section \<open>What the commands show\<close>

text \<open>The exchange of a terminal with the API of a bot, for a request.\<close>

definition talks_to :: "terminal \<Rightarrow> ('i, 's) service_api \<Rightarrow> 'i http_libs \<Rightarrow> 's \<Rightarrow> request \<Rightarrow> bool" where
  "talks_to W A H s r \<longleftrightarrow>
     exchange W r = (case serveRequest A H r s of (w, s') \<Rightarrow> Inr (the (sentStatus w), sent w))"

text \<open>
  What encoding/json does with a list of bids. Every bid is written, but \<open>Multiaddrs\<close> is a slice of an
  interface, which cannot be read back: \<open>Decode\<close> fails for a list with a bid that has such addresses, and
  gives back all others. Texts are supposed to be UTF-8, and urls to hold no user.
\<close>

definition readable :: "Bid \<Rightarrow> bool" where
  "readable b = (case CARIPFS (BidSources b) of None \<Rightarrow> True | Some ipfs \<Rightarrow> Multiaddrs ipfs = [])"

definition json_law :: "terminal \<Rightarrow> 'i http_libs \<Rightarrow> (string \<rightharpoonup> Bid) \<Rightarrow> bool" where
  "json_law W H m \<longleftrightarrow> (\<forall>bs. set bs \<subseteq> ran m \<longrightarrow> (\<exists>t. json_bids H bs = Inr t \<and>
     (if list_all readable bs then decode_bids W t = Inr bs else \<exists>e. decode_bids W t = Inl e)))"

lemma newest_with_ran: "set (newest_with m sts) \<subseteq> ran m"
proof -
  have "set (ordered_ids OrderDescending (dom m)) \<subseteq> dom m"
    by (cases "finite (dom m)") (simp_all add: ordered_ids_def)
  then have "the (m i) \<in> ran m" if "i \<in> set (take 1000 (ordered_ids OrderDescending (dom m)))" for i
    using that in_set_takeD by (fastforce simp: ran_def)
  then show ?thesis by (auto simp: newest_with_def)
qed

lemma answers_read:
  "the (sentStatus (httpError newWriter e n)) = n" "sent (httpError newWriter e n) = e @ newline"
  by (simp_all add: httpError_def newWriter_def w_Write_def WriteHeader_def SetContentType_def Let_def newline_def)

lemma getBids_answer:
  assumes "talks_to W A H s r" and "json_law W H m" and "set bids \<subseteq> ran m" and "serveRequest A H r s = (writeBids H bids newWriter, s')"
  shows "if list_all readable bids then getBids W r = Inr bids else \<exists>e. getBids W r = Inl (Error e)"
proof -
  from assms(2,3) obtain t where t: "json_bids H bids = Inr t"
    "if list_all readable bids then decode_bids W t = Inr bids else \<exists>e. decode_bids W t = Inl e"
    unfolding json_law_def by blast
  have "getBids W r = (case decode_bids W t of Inl e \<Rightarrow> Inl (Error e) | Inr bs \<Rightarrow> Inr bs)"
    using assms(1,4) t(1)
    by (simp add: getBids_def talks_to_def writeBids_def w_Write_def newWriter_def WriteHeader_def Let_def)
  with t(2) show ?thesis by (auto split: if_splits)
qed

lemma getBids_refused:
  assumes "talks_to W A H s r" and "serveRequest A H r s = (httpError newWriter e n, s')" and "n \<noteq> 200"
  shows "getBids W r = Inl (failStatus W n (e @ newline))"
  using assms by (simp add: getBids_def talks_to_def answers_read)

text \<open>
  C30: listing the deals on the command line shows exactly the newest thousand bids of the running bot that
  have one of the statuses asked for, in order, whether won or not; a text that is no status ends the
  command with the status of the answer and that text. When one of these bids has addresses of IPFS
  nodes among its sources, JSON cannot be read back, and the command ends with that error.
\<close>

theorem deals_list_shows:
  assumes "reliable_backend (backend_of E) vd vt" and "represents (Decode (backend_of E)) (vd (db (store s))) m"
    and "\<forall>i \<in> dom m. i \<le> maxID" and "CHR ''/'' \<notin> set port"
    and "talks_to W (bot_api E maxID info) H (s, opened) (dealsListCmd port status)" and "json_law W H m"
  shows "case parseFilters (split_on CHR '','' status) of
       Inl e \<Rightarrow> dealsListRun W port json status = Fatal '''' (failStatus W 400 (e @ newline))
     | Inr sts \<Rightarrow> if list_all readable (newest_with m sts)
         then dealsListRun W port json status = show_bids W json (newest_with m sts)
         else \<exists>e. dealsListRun W port json status = Fatal '''' (Error e)"
proof -
  let ?r = "dealsListCmd port status"
  have r: "Method ?r = ''GET''" "URLPath ?r = ''/deals''" by (simp_all add: command_requests [OF assms(4)])
  have path: "URLPath ?r = ''/deals'' \<or> URLPath ?r = ''/deals/''" using r(2) by simp
  note answer = deals_answer [OF assms(1-3) r(1) path, of info H opened, unfolded dealsListCmd_status [OF assms(4)]]
  show ?thesis
  proof (cases "parseFilters (split_on CHR '','' status)")
    case (Inl e)
    with answer getBids_refused [OF assms(5), of e 400 "(s, opened)"] show ?thesis by (simp add: dealsListRun_def)
  next
    case (Inr sts)
    with answer getBids_answer [OF assms(5,6) newest_with_ran, of sts "(s, opened)"] show ?thesis
      by (auto simp: dealsListRun_def split: if_splits)
  qed
qed

lemma show_request:
  assumes "CHR ''/'' \<notin> set port" and "plain_segment i" and "CHR ''?'' \<notin> set i"
  shows "request_to ''GET'' (urlFor port [''deals'', i]) = \<lparr>Method = ''GET'', URLPath = ''/deals/'' @ i, RawQuery = ''''\<rparr>"
    "cleanPath (''/deals/'' @ i) = ''/deals/'' @ i"
    "mux_handler (createMux A H) (''/deals/'' @ i) = Some (getOnly (dealsHandler A H))"
    "SplitN 3 CHR ''/'' (''/deals/'' @ i) = ['''', ''deals'', i]"
proof -
  have i: "i \<noteq> ''''" "i \<noteq> ''.''" "i \<noteq> ''..''" "CHR ''/'' \<notin> set i" using assms(2) by (simp_all add: plain_segment_def)
  have seg: "split_on CHR ''/'' i = [i]" by (rule split_on_segment [OF i(4)])
  have join: "path_Join [''deals'', i] = ''deals/'' @ i"
    using i seg by (simp add: path_Join_def path_Clean_def Let_def)
  show "request_to ''GET'' (urlFor port [''deals'', i]) = \<lparr>Method = ''GET'', URLPath = ''/deals/'' @ i, RawQuery = ''''\<rparr>"
    using request_to_local(2) [OF assms(1), of "''deals/'' @ i"] assms(3) by (simp add: urlFor_def join)
  have "last i \<noteq> CHR ''/''" using i(1,4) last_in_set by metis
  then show "cleanPath (''/deals/'' @ i) = ''/deals/'' @ i"
    using i seg by (simp add: cleanPath_def path_Clean_def Let_def)
  show "mux_handler (createMux A H) (''/deals/'' @ i) = Some (getOnly (dealsHandler A H))"
    using i(1) by (simp add: mux_handler_def createMux_def starts_with_def)
  show "SplitN 3 CHR ''/'' (''/deals/'' @ i) = ['''', ''deals'', i]"
    by (simp add: numeral_3_eq_3 cut_def)
qed

text \<open>
  C31: showing a deal shows the bid that the running bot stores under the id, and nothing when it stores
  none; but an empty id is the path of all deals, and shows the newest of them. A bid with addresses of
  IPFS nodes among its sources, or such a bid among all deals, cannot be read back from its JSON: the
  command ends with that error.
\<close>

theorem deals_show_shows:
  assumes "reliable_backend (backend_of E) vd vt" and "represents (Decode (backend_of E)) (vd (db (store s))) m"
    and "\<forall>i \<in> dom m. i \<le> maxID" and "CHR ''/'' \<notin> set port" and "i = '''' \<or> plain_segment i \<and> CHR ''?'' \<notin> set i"
    and "talks_to W (bot_api E maxID info) H (s, opened) (request_to ''GET'' (urlFor port [''deals'', i]))" and "json_law W H m"
    and "bids = (if i = '''' then newest_with m [] else case m i of None \<Rightarrow> [] | Some b \<Rightarrow> [b])"
  shows "if list_all readable bids
    then dealsShowRun W port json i = (case bids of [] \<Rightarrow> Printed '''' | b # bs \<Rightarrow> show_bid W json b)
    else \<exists>e. dealsShowRun W port json i = Fatal '''' (Error e)"
proof -
  let ?A = "bot_api E maxID info" and ?r = "request_to ''GET'' (urlFor port [''deals'', i])"
  let ?bids = "if i = '''' then newest_with m [] else case m i of None \<Rightarrow> [] | Some b \<Rightarrow> [b]"
  have "serveRequest ?A H ?r (s, opened) = (writeBids H ?bids newWriter, (s, opened))"
  proof (cases "i = ''''")
    case True
    have "urlFor port [''deals'', '''']  = ''http://127.0.0.1:'' @ port @ ''/'' @ ''deals''"
      by (simp add: urlFor_def path_Join_def path_Clean_def Let_def)
    then have r: "request_to ''GET'' (urlFor port [''deals'', '''']) = \<lparr>Method = ''GET'', URLPath = ''/deals'', RawQuery = ''''\<rparr>"
      using request_to_local(2) [OF assms(4), of "''deals''"] by simp
    have "Values_Get (ParseQuery '''') ''status'' = ''''" by (simp add: ParseQuery_def parse_setting_def Values_Get_def)
    with deals_answer [OF assms(1-3), of "\<lparr>Method = ''GET'', URLPath = ''/deals'', RawQuery = ''''\<rparr>" info H opened] True show ?thesis
      by (simp add: r TrimSpace_def)
  next
    case False
    with assms(5) have i: "plain_segment i" "CHR ''?'' \<notin> set i" by simp_all
    note show_request = show_request [OF assms(4) i, unfolded append_Cons append_Nil]
    have "api_GetBid ?A i (s, opened) = (case m i of None \<Rightarrow> Inl ErrBidNotFound | Some b \<Rightarrow> Inr b)"
      using reliable_backend.GetBid_reliable [OF assms(1,2)] by (simp add: bot_api_def)
    then have "dealsHandler ?A H ?r (newWriter, (s, opened)) = (writeBids H ?bids newWriter, (s, opened))"
      using False by (simp add: dealsHandler_def show_request Let_def split: option.split)
    then show ?thesis
      by (simp add: serveRequest_def ServeHTTP_def show_request getOnly_def methodOnly_def writeBids_sent)
  qed
  moreover have "set ?bids \<subseteq> ran m" by (auto simp: ranI newest_with_ran [THEN subsetD] split: option.split)
  ultimately show ?thesis
    using getBids_answer [OF assms(6,7)] unfolding assms(8) [symmetric]
    by (fastforce simp: dealsShowRun_def split: list.split if_splits)
qed

text \<open>
  C35: initializing never overwrites a configuration. The key it writes is the key that the daemon reads
  back, and the token it asks the wallet to sign is the id of the peer with this key.
\<close>

theorem init_then_daemon:
  assumes "initCmd X IDFromPrivateKey d v = (out, w)"
    and "\<And>k t. mbase_Encode X k = Inr t \<Longrightarrow> t \<noteq> '''' \<and> mbase_Decode X t = Inr k"
    and "\<And>p k. MarshalKey X p = Inr k \<Longrightarrow> UnmarshalPrivateKey X k = Inr p"
    and "GenerateKey X = Inr priv" and "private_key v = ''''"
    and "NewConnManager X (conn_low v) (conn_high v) (conn_grace v) = Inr cm"
  shows "case w of
      None \<Rightarrow> (\<exists>err. out = Fatal '''' err)
    | Some (f, v1) \<Rightarrow> f = path_Join [repo_path X ''BIDBOT_PATH'' d, ''config''] \<and> \<not> Stat X f \<and>
        (\<exists>c. GetConfig X v1 ''BIDBOT_PATH'' d False = Inr c \<and> PrivKey c = priv) \<and>
        (\<forall>t. out = Printed t \<longrightarrow> (\<exists>pid. IDFromPrivateKey priv = Inr pid \<and>
           t = ''Initialized configuration file: '' @ f @ newline @ newline @ instructions (hex_EncodeToString pid)))"
proof -
  obtain r where w: "WriteConfig X v ''BIDBOT_PATH'' d = (r, w)"
    using assms(1) by (cases "WriteConfig X v ''BIDBOT_PATH'' d") (auto simp: initCmd_def Let_def split: sum.split_asm)
  note written = config_roundtrip [OF w assms(2-6)]
  show ?thesis
  proof (cases w)
    case None
    with written obtain e where "r = Inl e" by auto
    with assms(1) w None show ?thesis by (auto simp: initCmd_def)
  next
    case (Some fv)
    obtain f v1 where fv: "fv = (f, v1)" by (cases fv)
    with written Some obtain c where c: "GetConfig X v1 ''BIDBOT_PATH'' d False = Inr c" "PrivKey c = priv" by auto
    then obtain k where "mbase_Decode X (private_key v1) = Inr k" "UnmarshalPrivateKey X k = Inr priv"
      by (auto simp: GetConfig_def split: if_split_asm sum.split_asm)
    moreover have "r = Inr cf \<Longrightarrow> cf = f" for cf
      using w Some fv by (auto simp: WriteConfig_def Let_def split: if_split_asm option.split_asm sum.split_asm)
    ultimately have "out = Printed t \<Longrightarrow> \<exists>pid. IDFromPrivateKey priv = Inr pid \<and>
        t = ''Initialized configuration file: '' @ f @ newline @ newline @ instructions (hex_EncodeToString pid)" for t
      using assms(1) w Some fv by (cases r) (auto simp: initCmd_def Let_def split: sum.split_asm)
    with written Some fv c show ?thesis by auto
  qed
qed

text \<open>
  The unit file is written, and systemd told of it, only by root on Linux and for a user and a group
  that exist; it runs the installed program with the directory of the configuration.
\<close>

lemma install_guarded:
  assumes "installServiceCmd X u g = (out, Some content, cmd)"
  shows "GOOS X = ''linux'' \<and> Getuid X = 0 \<and> u \<noteq> '''' \<and> g \<noteq> '''' \<and> LookupUser X u = None \<and> LookupGroup X g = None \<and>
    (\<exists>exe. Executable X = Inr exe \<and> content = systemdService u g exe (path_Dir (ConfigFileUsed X)))"
  using assms by (auto simp: installServiceCmd_def Let_def split: if_split_asm sum.split_asm option.split_asm)

section \<open>The hypotheses hold\<close>

text \<open>Bids travel as their ids, for the three bids of the sample.\<close>

definition sample_terminal :: "(request \<Rightarrow> go_error + nat \<times> string) \<Rightarrow> (string \<Rightarrow> go_error + Bid list) \<Rightarrow> terminal" where
  "sample_terminal ex dec = \<lparr>exchange = ex, StatusLine = (\<lambda>n. if n = 400 then ''400 Bad Request'' else ''200 OK''),
     decode_bids = dec, indent_bids = (\<lambda>bs. Inr (concat (map ID bs))), indent_bid = (\<lambda>b. Inr (ID b)),
     field_text = (\<lambda>f b. f), tabbed = (\<lambda>rows. concat (concat rows)), formatted = (\<lambda>f. f)\<rparr>"

definition sample_ids :: "string list" where "sample_ids = [''a'', ''c'', ''b'']"

text \<open>The terminal of the running bot of the sample; its bids have ids of one letter.\<close>

definition sample_running :: terminal where
  "sample_running = sample_terminal
     (\<lambda>r. case serveRequest (bot_api sample_env ''z'' (Inr ())) sample_http r (sample_service (sample_db sample_ids Submitted), []) of
        (w, s) \<Rightarrow> Inr (the (sentStatus w), sent w))
     (\<lambda>t. Inr (map (\<lambda>c. sample_bid [c] Submitted) t))"

lemma sample_talks:
  "talks_to sample_running (bot_api sample_env ''z'' (Inr ())) sample_http (sample_service (sample_db sample_ids Submitted), []) r"
  by (simp add: talks_to_def sample_running_def sample_terminal_def)

lemma sample_readable [simp]: "readable (sample_bid i st)"
  by (simp add: readable_def sample_bid_def)

lemma sample_json: "json_law sample_running sample_http (sample_bids sample_ids Submitted)"
proof -
  have ran: "ran (sample_bids sample_ids Submitted) \<subseteq> {b. \<exists>c. b = sample_bid [c] Submitted}"
    by (auto simp: ran_def sample_bids_def sample_ids_def split: if_split_asm)
  have inv: "list_all readable bs \<and> map (\<lambda>c. sample_bid [c] Submitted) (concat (map ID bs)) = bs"
    if "set bs \<subseteq> {b. \<exists>c. b = sample_bid [c] Submitted}" for bs
    using that by (induction bs) auto
  show ?thesis
    unfolding json_law_def
  proof (intro allI impI)
    fix bs assume "set bs \<subseteq> ran (sample_bids sample_ids Submitted)"
    with ran have "set bs \<subseteq> {b. \<exists>c. b = sample_bid [c] Submitted}" by blast
    from inv [OF this] show "\<exists>t. json_bids sample_http bs = Inr t \<and> (if list_all readable bs
        then decode_bids sample_running t = Inr bs else \<exists>e. decode_bids sample_running t = Inl e)"
      by (simp add: sample_running_def sample_terminal_def sample_http_def)
  qed
qed

lemma sample_backs:
  "reliable_backend (backend_of sample_env) map_of map_of"
  "represents (Decode (backend_of sample_env)) (map_of (db (store (sample_service (sample_db sample_ids Submitted)))))
     (sample_bids sample_ids Submitted)"
  "\<forall>i \<in> dom (sample_bids sample_ids Submitted). i \<le> ''z''"
proof -
  show "reliable_backend (backend_of sample_env) map_of map_of" using memb.reliable_backend_axioms by simp
  show "represents (Decode (backend_of sample_env)) (map_of (db (store (sample_service (sample_db sample_ids Submitted)))))
     (sample_bids sample_ids Submitted)"
    using sample_represents [of sample_ids Submitted] by (simp add: sample_ids_def)
  show "\<forall>i \<in> dom (sample_bids sample_ids Submitted). i \<le> ''z''" by (simp add: sample_ids_def)
qed

lemma sample_newest:
  "newest_with (sample_bids sample_ids Submitted) sts =
     (if sts = [] \<or> Submitted \<in> set sts then map (\<lambda>i. sample_bid i Submitted) [''c'', ''b'', ''a''] else [])"
proof -
  have list: "sorted_list_of_set (set [''a'', ''b'', ''c'']) = [''a'', ''b'', ''c'']"
    by (rule sorted_list_of_set.idem_if_sorted_distinct) simp_all
  have dom: "dom (sample_bids sample_ids Submitted) = set [''a'', ''b'', ''c'']" by (auto simp: sample_ids_def)
  have order: "ordered_ids OrderDescending (dom (sample_bids sample_ids Submitted)) = [''c'', ''b'', ''a'']"
    unfolding dom ordered_ids_def list_order.case list by simp
  show ?thesis unfolding newest_with_def order by (simp add: sample_bids_at sample_ids_def)
qed

theorem deals_list_shows_witness:
  "dealsListRun sample_running ''9999'' True ''submitted'' = Printed (''cba'' @ newline) \<and>
   dealsListRun sample_running ''9999'' True ''lost'' =
     Fatal '''' (''400 Bad Request: lost: invalid bid status'' @ newline)"
proof -
  note shown = deals_list_shows [OF sample_backs _ sample_talks sample_json, of "''9999''" "True"]
  have "TrimSpace ''submitted'' = ''submitted''" "TrimSpace ''lost'' = ''lost''"
    by (simp_all add: TrimSpace_def is_space_def)
  then have "parseFilters [''submitted''] = Inr [Submitted]" "parseFilters [''lost''] = Inl ''lost: invalid bid status''"
    by (simp_all add: BidStatusByString_def bidStatusByString_def bidStatusStrings_def)
  with shown [of "''submitted''"] shown [of "''lost''"] show ?thesis
    by (simp add: sample_newest show_bids_def print_json_def sample_running_def sample_terminal_def failStatus_def)
qed

text \<open>A running bot whose one bid has the address of an IPFS node.\<close>

definition ipfs_bid :: Bid where
  "ipfs_bid = (sample_bid ''a'' Submitted)\<lparr>BidSources := \<lparr>CARURL = None,
     CARIPFS = Some \<lparr>IPFSCid = Cid ''root'', Multiaddrs = [''/ip4/10.0.0.1/tcp/4001'']\<rparr>\<rparr>\<rparr>"

definition ipfs_service :: "(key \<times> Bid option) list Service" where
  "ipfs_service = sample_service [(ChildString dsPrefix ''a'', Some ipfs_bid)]"

definition json_error :: go_error where
  "json_error = Sentinel ''json: cannot unmarshal string into Go value of type multiaddr.Multiaddr''"

definition ipfs_running :: terminal where
  "ipfs_running = sample_terminal
     (\<lambda>r. case serveRequest (bot_api sample_env ''z'' (Inr ())) sample_http r (ipfs_service, []) of
        (w, s) \<Rightarrow> Inr (the (sentStatus w), sent w))
     (\<lambda>t. if t = '''' then Inr [] else Inl json_error)"

lemma ipfs_facts:
  "talks_to ipfs_running (bot_api sample_env ''z'' (Inr ())) sample_http (ipfs_service, []) r"
  "represents (Decode (backend_of sample_env)) (map_of (db (store ipfs_service))) [''a'' \<mapsto> ipfs_bid]"
  "json_law ipfs_running sample_http [''a'' \<mapsto> ipfs_bid]"
proof -
  show "talks_to ipfs_running (bot_api sample_env ''z'' (Inr ())) sample_http (ipfs_service, []) r"
    by (simp add: talks_to_def ipfs_running_def sample_terminal_def)
  show "represents (Decode (backend_of sample_env)) (map_of (db (store ipfs_service))) [''a'' \<mapsto> ipfs_bid]"
    using represents_one [of ipfs_bid "Decode mem_backend" "Some ipfs_bid"]
    by (simp add: ipfs_service_def ipfs_bid_def)
  have "bs = [] \<or> \<not> list_all readable bs \<and> concat (map ID bs) \<noteq> ''''" if "set bs \<subseteq> {ipfs_bid}" for bs
    using that by (cases bs) (auto simp: readable_def ipfs_bid_def)
  then show "json_law ipfs_running sample_http [''a'' \<mapsto> ipfs_bid]"
    unfolding json_law_def by (fastforce simp: ipfs_running_def sample_terminal_def sample_http_def)
qed

theorem deals_show_shows_witness:
  "dealsShowRun sample_running ''9999'' True ''b'' = Printed (''b'' @ newline) \<and>
   dealsShowRun sample_running ''9999'' True ''d'' = Printed '''' \<and>
   dealsShowRun sample_running ''9999'' True '''' = Printed (''c'' @ newline) \<and>
   (\<exists>e. dealsShowRun ipfs_running ''9999'' True ''a'' = Fatal '''' (Error e))"
proof -
  note shown = deals_show_shows [OF sample_backs _ _ sample_talks sample_json refl, of "''9999''" _ "True"]
  have "sample_bids sample_ids Submitted ''b'' = Some (sample_bid ''b'' Submitted)"
    "sample_bids sample_ids Submitted ''d'' = None"
    by (simp_all add: sample_bids_def sample_ids_def)
  moreover have "\<exists>e. dealsShowRun ipfs_running ''9999'' True ''a'' = Fatal '''' (Error e)"
    using deals_show_shows [OF sample_backs(1) ipfs_facts(2) _ _ _ ipfs_facts(1,3) refl, of "''9999''" "''a''" True]
    by (simp add: plain_segment_def readable_def ipfs_bid_def)
  ultimately show ?thesis
    using shown [of "''b''"] shown [of "''d''"] shown [of "''''"]
    by (simp add: sample_newest plain_segment_def show_bid_def print_json_def sample_running_def sample_terminal_def)
qed

theorem init_then_daemon_witness:
  "\<forall>v. \<exists>v1 c. initCmd (sample_host ()) (\<lambda>k. Inr (''id of '' @ k)) ''/root/.bidbot'' (defaults v) =
      (Printed (''Initialized configuration file: /root/.bidbot/config'' @ newline @ newline @
         instructions (hex_EncodeToString ''id of key'')), Some (''/root/.bidbot/config'', v1)) \<and>
    GetConfig (sample_host ()) v1 ''BIDBOT_PATH'' ''/root/.bidbot'' False = Inr c \<and> PrivKey c = ''key''"
proof
  fix v
  let ?X = "sample_host ()" and ?v = "defaults v" and ?cf = "''/root/.bidbot/config''" and ?id = "\<lambda>k. Inr (''id of '' @ k)"
  have cf: "path_Join [repo_path ?X ''BIDBOT_PATH'' ''/root/.bidbot'', ''config''] = ?cf"
    by (simp add: sample_host_def repo_path_def path_Join_def path_Clean_def Let_def)
  obtain v1 where w: "WriteConfig ?X ?v ''BIDBOT_PATH'' ''/root/.bidbot'' = (Inr ?cf, Some (?cf, v1))"
    "private_key v1 = ''mkey''"
    unfolding WriteConfig_def Let_def cf
    by (simp add: sample_host_def configKey_def defaults_def peerDefaults_def)
  then obtain t where eq: "initCmd ?X ?id ''/root/.bidbot'' ?v = (Printed t, Some (?cf, v1))"
    by (simp add: initCmd_def Let_def sample_host_def)
  from init_then_daemon [OF eq, of "''key''" "''manager''"] obtain c where
    "GetConfig ?X v1 ''BIDBOT_PATH'' ''/root/.bidbot'' False = Inr c \<and> PrivKey c = ''key''"
    "t = ''Initialized configuration file: '' @ ?cf @ newline @ newline @ instructions (hex_EncodeToString ''id of key'')"
    by (auto simp: sample_host_def defaults_def peerDefaults_def)
  with eq show "\<exists>v1 c. initCmd (sample_host ()) (\<lambda>k. Inr (''id of '' @ k)) ''/root/.bidbot'' (defaults v) =
      (Printed (''Initialized configuration file: /root/.bidbot/config'' @ newline @ newline @
         instructions (hex_EncodeToString ''id of key'')), Some (''/root/.bidbot/config'', v1)) \<and>
    GetConfig (sample_host ()) v1 ''BIDBOT_PATH'' ''/root/.bidbot'' False = Inr c \<and> PrivKey c = ''key''"
    by auto
qed

end
