(* ===== verification/Txn_Wrap.thy ===== *)
theory Txn_Wrap
  imports Datastore Auction
begin

text \<open>
  The datastore with a prefix, \<open>lib/dshelper/txndswrap/txndswrap.go\<close>: its construction, the operations of
  its transactions, and the split of a query into the part that the child answers and the part that is
  applied to the results. A store under a prefix keeps the laws of transactions, and its queries answer
  as the documentation of queries says; the query outside a transaction forgets the prefix.
\<close>

section \<open>The child and the libraries\<close>

text \<open>The further operations of a child; the ones of \<open>datastore\<close> are those that bidbot calls.\<close>

record ('d, 't, 'v) txn_child = "('d, 't, 'v) datastore" +
  NewTransactionExtended :: "bool \<Rightarrow> 'd \<Rightarrow> go_error + 't"
  TxnDiscard :: "'t \<Rightarrow> 't"
  TxnHas :: "'t \<Rightarrow> key \<Rightarrow> go_error + bool"
  TxnGetSize :: "'t \<Rightarrow> key \<Rightarrow> go_error + int"
  TxnQueryExtended :: "'t \<Rightarrow> Query \<Rightarrow> go_error + (go_error + key \<times> 'v) list"

record KeyTransform =
  ConvertKey :: "key \<Rightarrow> key"
  InvertKey :: "key \<Rightarrow> key"
  isPrefixTransform :: bool

text \<open>The datastore that \<open>keytransform.Wrap\<close> makes, as far as bidbot calls it, and the naive query.\<close>

record ('d, 't, 'v) kt_libs =
  PrefixTransform :: "key \<Rightarrow> KeyTransform"
  kt_Get :: "('d, 't, 'v) txn_child \<Rightarrow> KeyTransform \<Rightarrow> 'd \<Rightarrow> key \<Rightarrow> go_error + 'v"
  kt_Delete :: "('d, 't, 'v) txn_child \<Rightarrow> KeyTransform \<Rightarrow> 'd \<Rightarrow> key \<Rightarrow> go_error option \<times> 'd"
  NaiveQueryApply :: "Query \<Rightarrow> (go_error + key \<times> 'v) list \<Rightarrow> (go_error + key \<times> 'v) list"

section \<open>The wrapped datastore\<close>

record ('d, 't, 'v) wrapped =
  child :: "('d, 't, 'v) txn_child"
  embedded_Get :: "'d \<Rightarrow> key \<Rightarrow> go_error + 'v"
  embedded_Delete :: "'d \<Rightarrow> key \<Rightarrow> go_error option \<times> 'd"
  transform :: KeyTransform

text \<open>\<open>ChildString\<close> of a key cleans the path that it makes.\<close>

definition cleanChild :: "key \<Rightarrow> string \<Rightarrow> key" where
  "cleanChild k part = clean_segs True [] (k @ [part])"

definition prefix_key :: "string \<Rightarrow> key" where
  "prefix_key prefix = foldl cleanChild [] (split_on CHR ''/'' prefix)"

definition Wrap ::
  "('d, 't, 'v) kt_libs \<Rightarrow> ('d, 't, 'v) txn_child \<Rightarrow> string \<Rightarrow> ('d, 't, 'v) wrapped" where
  "Wrap K c prefix =
     (let t = PrefixTransform K (prefix_key prefix) in
      \<lparr>child = c, embedded_Get = kt_Get K c t, embedded_Delete = kt_Delete K c t, transform = t\<rparr>)"

definition newTransaction :: "('d, 't, 'v) wrapped \<Rightarrow> bool \<Rightarrow> 'd \<Rightarrow> go_error + 't" where
  "newTransaction D readOnly d =
     (case NewTransactionExtended (child D) readOnly d of Inl e \<Rightarrow> Inl e | Inr t \<Rightarrow> Inr t)"

definition ds_QueryExtended ::
  "('d, 't, 'v) wrapped \<Rightarrow> 'd \<Rightarrow> Query \<Rightarrow> go_error + (go_error + key \<times> 'v) list" where
  "ds_QueryExtended D d q = QueryExtended (child D) d q"

section \<open>Transactions\<close>

definition txn_Commit :: "('d, 't, 'v) wrapped \<Rightarrow> 't \<Rightarrow> 'd \<Rightarrow> go_error option \<times> 'd" where
  "txn_Commit D t d = TxnCommit (child D) t d"

definition txn_Discard :: "('d, 't, 'v) wrapped \<Rightarrow> 't \<Rightarrow> 't" where
  "txn_Discard D t = TxnDiscard (child D) t"

definition txn_Put :: "('d, 't, 'v) wrapped \<Rightarrow> 't \<Rightarrow> key \<Rightarrow> 'v \<Rightarrow> go_error option \<times> 't" where
  "txn_Put D t k v = TxnPut (child D) t (ConvertKey (transform D) k) v"

definition txn_Delete :: "('d, 't, 'v) wrapped \<Rightarrow> 't \<Rightarrow> key \<Rightarrow> go_error option \<times> 't" where
  "txn_Delete D t k = TxnDelete (child D) t (ConvertKey (transform D) k)"

definition txn_Get :: "('d, 't, 'v) wrapped \<Rightarrow> 't \<Rightarrow> key \<Rightarrow> go_error + 'v" where
  "txn_Get D t k = TxnGet (child D) t (ConvertKey (transform D) k)"

definition txn_Has :: "('d, 't, 'v) wrapped \<Rightarrow> 't \<Rightarrow> key \<Rightarrow> go_error + bool" where
  "txn_Has D t k = TxnHas (child D) t (ConvertKey (transform D) k)"

definition txn_GetSize :: "('d, 't, 'v) wrapped \<Rightarrow> 't \<Rightarrow> key \<Rightarrow> go_error + int" where
  "txn_GetSize D t k = TxnGetSize (child D) t (ConvertKey (transform D) k)"

section \<open>Queries\<close>

text \<open>The orders that are left to the child, or nothing when one of them cannot be.\<close>

fun child_orders :: "bool \<Rightarrow> Order list \<Rightarrow> Order list option" where
  "child_orders orderPreserving [] = Some []"
| "child_orders orderPreserving (b # os) =
     (case b of
        OrderByValue \<Rightarrow> map_option (Cons b) (child_orders orderPreserving os)
      | OrderByValueDescending \<Rightarrow> map_option (Cons b) (child_orders orderPreserving os)
      | OrderByKey \<Rightarrow> if orderPreserving then Some [b] else None
      | OrderByKeyDescending \<Rightarrow> if orderPreserving then Some [b] else None
      | OrderByFunction n \<Rightarrow> None)"

text \<open>\<open>NewKey\<close> cleans a text to a key, whose \<open>String\<close> is a slash for the key without namespaces.\<close>

definition NewKey :: "string \<Rightarrow> key" where
  "NewKey s = clean_segs True [] (split_on CHR ''/'' s)"

definition key_text :: "key \<Rightarrow> string" where
  "key_text k = (if k = [] then ''/'' else key_string k)"

text \<open>The filters for the child, or nothing when one of them is not known.\<close>

fun child_filters :: "KeyTransform \<Rightarrow> Filter list \<Rightarrow> Filter list option" where
  "child_filters T [] = Some []"
| "child_filters T (f # fs) =
     (case f of
        FilterValueCompare c v \<Rightarrow> map_option (Cons f) (child_filters T fs)
      | FilterKeyCompare c s \<Rightarrow>
          map_option (Cons (FilterKeyCompare c (key_text (ConvertKey T (NewKey s))))) (child_filters T fs)
      | FilterKeyPrefix s \<Rightarrow>
          map_option (Cons (FilterKeyPrefix (key_text (ConvertKey T (NewKey s))))) (child_filters T fs)
      | FilterFunction n \<Rightarrow> None)"

definition emptyQuery :: Query where
  "emptyQuery = \<lparr>Prefix = [], Filters = [], Orders = [], Limit = 0, Offset = 0, KeysOnly = False, SeekPrefix = None\<rparr>"

text \<open>The window moves to the naive query.\<close>

definition punt :: "Query \<Rightarrow> Query \<times> Query \<Rightarrow> Query \<times> Query" where
  "punt q nc = ((fst nc)\<lparr>Limit := Limit q, Offset := Offset q\<rparr>, (snd nc)\<lparr>Limit := 0, Offset := 0\<rparr>)"

definition split_orders :: "KeyTransform \<Rightarrow> Query \<Rightarrow> Query \<times> Query \<Rightarrow> Query \<times> Query" where
  "split_orders T q nc =
     (case child_orders (isPrefixTransform T) (Orders q) of
        Some os \<Rightarrow> (fst nc, (snd nc)\<lparr>Orders := os\<rparr>)
      | None \<Rightarrow> punt q ((fst nc)\<lparr>Orders := Orders q\<rparr>, (snd nc)\<lparr>Orders := []\<rparr>))"

definition split_filters :: "KeyTransform \<Rightarrow> Query \<Rightarrow> Query \<times> Query \<Rightarrow> Query \<times> Query" where
  "split_filters T q nc =
     (case child_filters T (Filters q) of
        Some fs \<Rightarrow> (fst nc, (snd nc)\<lparr>Filters := fs\<rparr>)
      | None \<Rightarrow> punt q ((fst nc)\<lparr>Filters := Filters q\<rparr>, (snd nc)\<lparr>Filters := []\<rparr>))"

text \<open>The naive query and the child's.\<close>

definition prepareQuery :: "KeyTransform \<Rightarrow> Query \<Rightarrow> Query \<times> Query" where
  "prepareQuery T q =
     split_filters T q (split_orders T q
       (emptyQuery, q\<lparr>Prefix := ConvertKey T (Prefix q), SeekPrefix := map_option (ConvertKey T) (SeekPrefix q)\<rparr>))"

text \<open>A result of the child, with its key inverted; an error stays.\<close>

definition getIterator :: "KeyTransform \<Rightarrow> (go_error + key \<times> 'v) list \<Rightarrow> (go_error + key \<times> 'v) list" where
  "getIterator T = map (map_sum (\<lambda>e. e) (apfst (InvertKey T)))"

definition txn_QueryExtended ::
  "('d, 't, 'v) kt_libs \<Rightarrow> ('d, 't, 'v) wrapped \<Rightarrow> 't \<Rightarrow> Query \<Rightarrow> go_error + (go_error + key \<times> 'v) list" where
  "txn_QueryExtended K D t q =
     (case prepareQuery (transform D) q of (nq, cq) \<Rightarrow>
        (case TxnQueryExtended (child D) t cq of
           Inl e \<Rightarrow> Inl e
         | Inr qr \<Rightarrow> Inr (NaiveQueryApply K nq (getIterator (transform D) qr))))"

definition txn_Query ::
  "('d, 't, 'v) kt_libs \<Rightarrow> ('d, 't, 'v) wrapped \<Rightarrow> 't \<Rightarrow> Query \<Rightarrow> go_error + (go_error + key \<times> 'v) list" where
  "txn_Query K D t q =
     (case prepareQuery (transform D) (q\<lparr>SeekPrefix := None\<rparr>) of (nq, cq) \<Rightarrow>
        (case TxnQuery (child D) t cq of
           Inl e \<Rightarrow> Inl e
         | Inr qr \<Rightarrow> Inr (NaiveQueryApply K nq (getIterator (transform D) qr))))"

text \<open>The wrapped datastore as a datastore.\<close>

definition wrapped_store :: "('d, 't, 'v) kt_libs \<Rightarrow> ('d, 't, 'v) wrapped \<Rightarrow> ('d, 't, 'v) datastore" where
  "wrapped_store K D =
     \<lparr>NewTransaction = newTransaction D False, TxnGet = txn_Get D, TxnPut = txn_Put D, TxnDelete = txn_Delete D,
      TxnQuery = txn_Query K D, TxnCommit = txn_Commit D, StoreGet = embedded_Get D,
      StoreDelete = embedded_Delete D, QueryExtended = ds_QueryExtended D\<rparr>"

section \<open>Keys below a prefix\<close>

lemma key_string_append: "key_string (p @ k) = key_string p @ key_string k"
  by (simp add: key_string_def)

lemma string_le_append [simp]: "(p @ a \<le> p @ b) = (a \<le> b)" for p :: string
  by (induction p) (simp_all add: Cons_le_Cons)

lemma string_less_append [simp]: "(p @ a < p @ b) = (a < b)" for p :: string
  by (simp add: less_le)

lemma below_append: "below (p @ q) (p @ k) = below q k"
  by (simp add: below_def)

lemma below_append_key: "below (p @ q) k \<Longrightarrow> k = p @ drop (length p) k"
  by (metis append_eq_conv_conj append_take_drop_id below_def length_append take_take)

text \<open>What the transform of a prefix is documented to do.\<close>

definition prefixes :: "KeyTransform \<Rightarrow> key \<Rightarrow> bool" where
  "prefixes T p \<longleftrightarrow> (\<forall>k. ConvertKey T k = p @ k \<and> InvertKey T (p @ k) = k) \<and> isPrefixTransform T"

definition strip :: "key \<Rightarrow> key \<times> 'v \<Rightarrow> key \<times> 'v" where
  "strip p e = (drop (length p) (fst e), snd e)"

lemma getIterator_strip:
  assumes "prefixes T p" and "\<forall>e \<in> set es. below (p @ q) (fst e)"
  shows "getIterator T (map Inr es) = map Inr (map (strip p) es)"
proof -
  have "apfst (InvertKey T) e = strip p e" if "e \<in> set es" for e
  proof -
    obtain k v where e: "e = (k, v)" by (cases e)
    with that assms(2) have "below (p @ q) k" by auto
    then obtain j where "k = p @ j" using below_append_key by blast
    with assms(1) e show ?thesis by (simp add: prefixes_def strip_def)
  qed
  then show ?thesis by (simp add: getIterator_def)
qed

lemma drop_key_inj:
  assumes "\<forall>e \<in> set es. below (p @ q) (fst e)"
  shows "map fst es = map (\<lambda>e. p @ fst (strip p e)) es"
  using assms below_append_key by (auto simp: strip_def)

section \<open>The laws of transactions\<close>

lemma key_order_append: "key_order os (s @ a) (s @ b) = key_order os a b" for s :: string
  by (auto simp: key_order_def)

lemma seek_ok_append: "seek_ok (key_order os) (map_option ((@) p) s) (p @ k) = seek_ok (key_order os) s k"
  by (auto simp: seek_ok_def key_order_append key_string_append split: option.split)

lemma answers_strip:
  assumes "answers m (q\<lparr>Prefix := p @ Prefix q, SeekPrefix := map_option ((@) p) (SeekPrefix q)\<rparr>) es"
  shows "answers (\<lambda>k. m (p @ k)) q (map (strip p) es)"
    and "\<forall>e \<in> set es. below (p @ Prefix q) (fst e)"
proof -
  from assms obtain full where full: "es = take_limit (Limit q) full" "distinct (map fst full)"
    "set full = {(k, v). m k = Some v \<and> below (p @ Prefix q) k \<and>
       seek_ok (key_order (Orders q)) (map_option ((@) p) (SeekPrefix q)) k}"
    "sorted_wrt (key_order (Orders q)) (map (key_string \<circ> fst) full)"
    by (auto simp: answers_def)
  have keys: "\<forall>e \<in> set full. below (p @ Prefix q) (fst e)" using full(3) by auto
  then show "\<forall>e \<in> set es. below (p @ Prefix q) (fst e)"
    using full(1) by (auto simp: take_limit_def dest: in_set_takeD split: if_splits)
  note restored = drop_key_inj [OF keys]
  have "distinct (map ((@) p) (map (fst \<circ> strip p) full))" using full(2) restored by (simp add: comp_def)
  then have "distinct (map fst (map (strip p) full))" by (auto simp: distinct_map comp_def inj_on_def)
  moreover have "set (map (strip p) full) = {(k, v). m (p @ k) = Some v \<and> below (Prefix q) k \<and>
      seek_ok (key_order (Orders q)) (SeekPrefix q) k}" (is "?L = ?R")
  proof
    show "?L \<subseteq> ?R"
    proof
      fix e assume "e \<in> ?L"
      then obtain k v where kv: "(k, v) \<in> set full" "e = strip p (k, v)" by auto
      with keys have "below (p @ Prefix q) k" by auto
      then obtain j where "k = p @ j" using below_append_key by blast
      with kv full(3) show "e \<in> ?R" by (auto simp: strip_def below_append seek_ok_append)
    qed
    show "?R \<subseteq> ?L"
    proof
      fix e assume "e \<in> ?R"
      then have "(p @ fst e, snd e) \<in> set full" using full(3) by (auto simp: below_append seek_ok_append)
      moreover have "strip p (p @ fst e, snd e) = e" by (simp add: strip_def)
      ultimately show "e \<in> ?L" by (metis image_eqI set_map)
    qed
  qed
  moreover have "sorted_wrt (key_order (Orders q)) (map (key_string \<circ> fst) (map (strip p) full))"
  proof -
    have "map (key_string \<circ> fst) full = map ((@) (key_string p)) (map (key_string \<circ> fst) (map (strip p) full))"
      using arg_cong [OF restored, of "map key_string"] by (simp add: comp_def key_string_append)
    with full(4) have "sorted_wrt (\<lambda>a b. key_order (Orders q) (key_string p @ a) (key_string p @ b))
        (map (key_string \<circ> fst) (map (strip p) full))"
      by (simp add: sorted_wrt_map del: map_map)
    then show ?thesis by (simp add: key_order_append)
  qed
  moreover have "map (strip p) es = take_limit (Limit q) (map (strip p) full)"
    using full(1) by (simp add: take_limit_def take_map)
  ultimately show "answers (\<lambda>k. m (p @ k)) q (map (strip p) es)"
    unfolding answers_def by blast
qed

text \<open>
  A wrapped datastore over a child that keeps the laws, with a transform to a prefix; the naive query
  without anything to do returns the results.
\<close>

locale prefixed_store =
  fixes D :: "('d, 't, 'v) wrapped" and K :: "('d, 't, 'v) kt_libs"
    and vd :: "'d \<Rightarrow> key \<Rightarrow> 'v option" and vt :: "'t \<Rightarrow> key \<Rightarrow> 'v option" and p :: key
  assumes child_laws: "txn_datastore (child D) vd vt"
    and transform_prefixes: "prefixes (transform D) p"
    and extended_view: "NewTransactionExtended (child D) ro d = Inr t \<Longrightarrow> vt t = vd d"
    and naive_idle: "NaiveQueryApply K emptyQuery rs = rs"
begin

lemma convert [simp]: "ConvertKey (transform D) k = p @ k" "isPrefixTransform (transform D)"
  using transform_prefixes by (simp_all add: prefixes_def)

lemma prepare_plain:
  assumes "plain_query q"
  shows "prepareQuery (transform D) q =
    (emptyQuery, q\<lparr>Prefix := p @ Prefix q, SeekPrefix := map_option ((@) p) (SeekPrefix q)\<rparr>)"
proof -
  have "ConvertKey (transform D) = (@) p" by (rule ext) simp
  with assms show ?thesis
    by (auto simp: prepareQuery_def plain_query_def split_orders_def split_filters_def)
qed

lemma update_below: "(m(p @ k \<mapsto> v)) (p @ j) = ((\<lambda>j. m (p @ j))(k \<mapsto> v)) j"
  "(m(p @ k := None)) (p @ j) = ((\<lambda>j. m (p @ j))(k := None)) j"
  by simp_all

lemma query_below:
  assumes q: "plain_query q" and seek: "SeekPrefix q = None" and res: "txn_Query K D t q = Inr rs" and rs: "rs = map Inr es"
  shows "answers (\<lambda>k. vt t (p @ k)) q es"
proof -
  let ?q = "q\<lparr>Prefix := p @ Prefix q, SeekPrefix := map_option ((@) p) (SeekPrefix q)\<rparr>"
  have same: "q\<lparr>SeekPrefix := None\<rparr> = q" using seek by (cases q) simp
  obtain qr where qr: "TxnQuery (child D) t ?q = Inr qr" "rs = getIterator (transform D) qr"
    using res by (auto simp: txn_Query_def same prepare_plain [OF q] naive_idle split: sum.split_asm)
  have "\<exists>ces. qr = map Inr ces"
  proof -
    have "\<forall>r \<in> set qr. \<exists>e. r = Inr e"
    proof
      fix r assume "r \<in> set qr"
      then have "map_sum (\<lambda>e. e) (apfst (InvertKey (transform D))) r \<in> set (map Inr es)"
        using qr(2) rs by (simp add: getIterator_def)
      then show "\<exists>e. r = Inr e" by (cases r) auto
    qed
    then show ?thesis by (metis ex_map_conv)
  qed
  then obtain ces where ces: "qr = map Inr ces" by blast
  have "plain_query ?q" "SeekPrefix ?q = None" using q seek by (simp_all add: plain_query_def)
  then have ans: "answers (vt t) ?q ces" using txn_datastore.query_law [OF child_laws _ _ qr(1) ces] by blast
  then have "rs = map Inr (map (strip p) ces)"
    using qr(2) ces getIterator_strip [OF transform_prefixes answers_strip(2) [OF ans]] by simp
  then have "es = map (strip p) ces" using rs by (metis inj_Inr inj_map_eq_map)
  with answers_strip(1) [OF ans] show ?thesis by simp
qed

end

sublocale prefixed_store \<subseteq> under: txn_datastore "wrapped_store K D" "\<lambda>d k. vd d (p @ k)" "\<lambda>t k. vt t (p @ k)"
proof
  show "NewTransaction (wrapped_store K D) d = Inr t \<Longrightarrow> (\<lambda>k. vt t (p @ k)) = (\<lambda>k. vd d (p @ k))" for d t
    using extended_view [of False d t] by (auto simp: wrapped_store_def newTransaction_def split: sum.split_asm)
  show "plain_query q \<Longrightarrow> SeekPrefix q = None \<Longrightarrow> TxnQuery (wrapped_store K D) t q = Inr rs \<Longrightarrow>
      rs = map Inr es \<Longrightarrow> answers (\<lambda>k. vt t (p @ k)) q es" for q t rs es
    by (rule query_below) (simp_all add: wrapped_store_def)
qed (auto simp: wrapped_store_def txn_Get_def txn_Put_def txn_Delete_def txn_Commit_def fun_eq_iff
    txn_datastore.get_found [OF child_laws] txn_datastore.get_missing [OF child_laws]
    dest!: txn_datastore.put_ok [OF child_laws] txn_datastore.put_fail [OF child_laws]
    txn_datastore.delete_ok [OF child_laws] txn_datastore.delete_fail [OF child_laws]
    txn_datastore.commit_ok [OF child_laws] txn_datastore.commit_fail [OF child_laws])

context prefixed_store
begin

lemma below_laws: "txn_datastore (wrapped_store K D) (\<lambda>d k. vd d (p @ k)) (\<lambda>t k. vt t (p @ k))"
  by (rule under.txn_datastore_axioms)

end

section \<open>What a query means\<close>

text \<open>
  The documented meaning of orders and filters, over the comparison of values and the functions that
  the caller supplies: entries are compared by the orders one after the other and then by key; the
  comparison of keys, of which only that a common prefix does not matter is used, is \<open>filter_key\<close>.
\<close>

record 'v meaning =
  value_cmp :: "'v \<Rightarrow> 'v \<Rightarrow> int"
  order_fun :: "nat \<Rightarrow> key \<times> 'v \<Rightarrow> key \<times> 'v \<Rightarrow> int"
  filter_value :: "nat \<Rightarrow> string \<Rightarrow> 'v \<Rightarrow> bool"
  filter_key :: "nat \<Rightarrow> string \<Rightarrow> string \<Rightarrow> bool"
  filter_fun :: "nat \<Rightarrow> key \<times> 'v \<Rightarrow> bool"

definition string_cmp :: "string \<Rightarrow> string \<Rightarrow> int" where
  "string_cmp a b = (if a < b then -1 else if a = b then 0 else 1)"

fun entry_cmp :: "'v meaning \<Rightarrow> Order \<Rightarrow> key \<times> 'v \<Rightarrow> key \<times> 'v \<Rightarrow> int" where
  "entry_cmp S OrderByValue a b = value_cmp S (snd a) (snd b)"
| "entry_cmp S OrderByValueDescending a b = - value_cmp S (snd a) (snd b)"
| "entry_cmp S OrderByKey a b = string_cmp (key_string (fst a)) (key_string (fst b))"
| "entry_cmp S OrderByKeyDescending a b = string_cmp (key_string (fst b)) (key_string (fst a))"
| "entry_cmp S (OrderByFunction n) a b = order_fun S n a b"

fun before :: "'v meaning \<Rightarrow> Order list \<Rightarrow> key \<times> 'v \<Rightarrow> key \<times> 'v \<Rightarrow> bool" where
  "before S [] a b = (key_string (fst a) \<le> key_string (fst b))"
| "before S (c # os) a b = (entry_cmp S c a b < 0 \<or> entry_cmp S c a b = 0 \<and> before S os a b)"

fun passes :: "'v meaning \<Rightarrow> Filter \<Rightarrow> key \<times> 'v \<Rightarrow> bool" where
  "passes S (FilterValueCompare c v) e = filter_value S c v (snd e)"
| "passes S (FilterKeyCompare c s) e = filter_key S c s (key_string (fst e))"
| "passes S (FilterKeyPrefix s) e = (take (length s) (key_string (fst e)) = s)"
| "passes S (FilterFunction n) e = filter_fun S n e"

definition window :: "Query \<Rightarrow> 'a list \<Rightarrow> 'a list" where
  "window q xs = take_limit (Limit q) (drop (Offset q) xs)"

definition matching :: "'v meaning \<Rightarrow> Query \<Rightarrow> (key \<rightharpoonup> 'v) \<Rightarrow> (key \<times> 'v) set" where
  "matching S q m = {e. m (fst e) = Some (snd e) \<and> below (Prefix q) (fst e) \<and> (\<forall>f \<in> set (Filters q). passes S f e)}"

text \<open>Entries are listed once each; without orders they come in any order.\<close>

definition query_answers :: "'v meaning \<Rightarrow> (key \<rightharpoonup> 'v) \<Rightarrow> Query \<Rightarrow> (key \<times> 'v) list \<Rightarrow> bool" where
  "query_answers S m q es \<longleftrightarrow> (\<exists>full. es = window q full \<and> distinct (map (key_string \<circ> fst) full) \<and>
     set full = matching S q m \<and> (Orders q \<noteq> [] \<longrightarrow> sorted_wrt (before S (Orders q)) full))"

text \<open>The naive query filters, orders and cuts a list of entries; without orders it keeps their order.\<close>

definition naive_law :: "'v meaning \<Rightarrow> (Query \<Rightarrow> (go_error + key \<times> 'v) list \<Rightarrow> (go_error + key \<times> 'v) list) \<Rightarrow> bool" where
  "naive_law S N \<longleftrightarrow> (\<forall>q es. Prefix q = [] \<longrightarrow>
     (let hits = filter (\<lambda>e. \<forall>f \<in> set (Filters q). passes S f e) es in
      \<exists>full. N q (map Inr es) = map Inr (window q full) \<and>
        (if Orders q = [] then full = hits
         else set full = set hits \<and> length full = length hits \<and> sorted_wrt (before S (Orders q)) full)))"

section \<open>The split of a query\<close>

lemma string_cmp_append: "string_cmp (s @ a) (s @ b) = string_cmp a b"
  by (auto simp: string_cmp_def)

lemma string_cmp_zero: "string_cmp a b = 0 \<longleftrightarrow> a = b"
  by (simp add: string_cmp_def)

lemma entry_cmp_append:
  "b \<in> {OrderByValue, OrderByValueDescending, OrderByKey, OrderByKeyDescending} \<Longrightarrow>
     entry_cmp S b (p @ fst x, snd x) (p @ fst y, snd y) = entry_cmp S b x y"
  by (auto simp: key_string_append string_cmp_append)

text \<open>What the child orders by its part of the orders is ordered by all of them.\<close>

lemma child_orders_before:
  assumes "child_orders pres os = Some os'" and "key_string (fst x) \<noteq> key_string (fst y)"
    and "before S os' (p @ fst x, snd x) (p @ fst y, snd y)"
  shows "before S os x y"
  using assms
proof (induction pres os arbitrary: os' rule: child_orders.induct)
  case (2 pres b os)
  show ?case
  proof (cases "b \<in> {OrderByValue, OrderByValueDescending}")
    case True
    then obtain os2 where "child_orders pres os = Some os2" "os' = b # os2" using 2(3) by auto
    with True 2(1,2,4,5) show ?thesis by (auto simp: entry_cmp_append)
  next
    case False
    with 2(3) have "os' = [b]" "b = OrderByKey \<or> b = OrderByKeyDescending"
      by (auto split: Order.split_asm if_split_asm)
    with 2(4,5) show ?thesis by (auto simp: key_string_append string_cmp_append string_cmp_zero)
  qed
qed (simp add: key_string_append)

lemma child_orders_nonempty: "child_orders pres os = Some os' \<Longrightarrow> os \<noteq> [] \<Longrightarrow> os' \<noteq> []"
  by (cases os) (auto split: Order.split_asm if_split_asm)

definition key_law :: "'v meaning \<Rightarrow> bool" where
  "key_law S \<longleftrightarrow> (\<forall>n s a b. filter_key S n (s @ a) (s @ b) = filter_key S n a b)"

text \<open>A filter whose text is that of a key with a namespace, so that \<open>NewKey\<close> leaves it as it is.\<close>

definition clean_text :: "string \<Rightarrow> bool" where
  "clean_text s \<longleftrightarrow> NewKey s \<noteq> [] \<and> key_string (NewKey s) = s"

fun clean_filter :: "Filter \<Rightarrow> bool" where
  "clean_filter (FilterKeyCompare c s) = clean_text s"
| "clean_filter (FilterKeyPrefix s) = clean_text s"
| "clean_filter f = True"

lemma clean_text_below: "clean_text s \<Longrightarrow> key_text (p @ NewKey s) = key_string p @ s"
  by (simp add: clean_text_def key_text_def key_string_append)

lemma child_filters_pass:
  assumes "child_filters T fs = Some fs'" and "prefixes T p" and "key_law S" and "\<forall>f \<in> set fs. clean_filter f"
  shows "(\<forall>f \<in> set fs'. passes S f (p @ fst e, snd e)) \<longleftrightarrow> (\<forall>f \<in> set fs. passes S f e)"
  using assms
proof (induction T fs arbitrary: fs' rule: child_filters.induct)
  case (2 T f fs)
  then show ?case
    by (cases f) (auto simp: prefixes_def key_law_def key_string_append clean_text_below)
qed simp

text \<open>
  The two parts of a query: the filters of both are the filters of the query, the orders are with one
  of them, and so is the window, which is with the naive part whenever this has anything to do.
\<close>

lemma prepareQuery_parts:
  assumes "prepareQuery T q = (nq, cq)" and "prefixes T p" and "key_law S" and "\<forall>f \<in> set (Filters q). clean_filter f"
  shows "Prefix nq = []" "Prefix cq = p @ Prefix q"
    and "\<And>e. (\<forall>f \<in> set (Filters cq). passes S f (p @ fst e, snd e)) \<and> (\<forall>f \<in> set (Filters nq). passes S f e) \<longleftrightarrow>
      (\<forall>f \<in> set (Filters q). passes S f e)"
    and "Orders nq = Orders q \<and> Orders cq = [] \<and> Orders q \<noteq> [] \<or>
      Orders nq = [] \<and> child_orders (isPrefixTransform T) (Orders q) = Some (Orders cq)"
    and "Limit cq = 0 \<and> Offset cq = 0 \<and> Limit nq = Limit q \<and> Offset nq = Offset q \<or>
      Limit cq = Limit q \<and> Offset cq = Offset q \<and> Limit nq = 0 \<and> Offset nq = 0 \<and> Filters nq = [] \<and> Orders nq = []"
proof -
  have conv: "ConvertKey T k = p @ k" for k using assms(2) by (simp add: prefixes_def)
  note defs = prepareQuery_def split_orders_def split_filters_def punt_def emptyQuery_def
  show "Prefix nq = []" "Prefix cq = p @ Prefix q"
    using assms(1) by (auto simp: defs conv split: option.split_asm)
  show "(\<forall>f \<in> set (Filters cq). passes S f (p @ fst e, snd e)) \<and> (\<forall>f \<in> set (Filters nq). passes S f e) \<longleftrightarrow>
      (\<forall>f \<in> set (Filters q). passes S f e)" for e
  proof (cases "child_filters T (Filters q)")
    case None
    with assms(1) have "Filters cq = []" "Filters nq = Filters q" by (auto simp: defs split: option.split_asm)
    then show ?thesis by simp
  next
    case (Some fs)
    with assms(1) have "Filters cq = fs" "Filters nq = []" by (auto simp: defs split: option.split_asm)
    with child_filters_pass [OF Some assms(2-4), of e] show ?thesis by simp
  qed
  have "child_orders (isPrefixTransform T) (Orders q) = None \<Longrightarrow> Orders q \<noteq> []" by auto
  then show "Orders nq = Orders q \<and> Orders cq = [] \<and> Orders q \<noteq> [] \<or>
      Orders nq = [] \<and> child_orders (isPrefixTransform T) (Orders q) = Some (Orders cq)"
    using assms(1) by (auto simp: defs split: option.split_asm)
  show "Limit cq = 0 \<and> Offset cq = 0 \<and> Limit nq = Limit q \<and> Offset nq = Offset q \<or>
      Limit cq = Limit q \<and> Offset cq = Offset q \<and> Limit nq = 0 \<and> Offset nq = 0 \<and> Filters nq = [] \<and> Orders nq = []"
    using assms(1) by (auto simp: defs split: option.split_asm)
qed

lemma sorted_wrt_distinct_mono:
  assumes "sorted_wrt R xs" and "distinct (map f xs)"
    and "\<And>x y. x \<in> set xs \<Longrightarrow> y \<in> set xs \<Longrightarrow> R x y \<Longrightarrow> f x \<noteq> f y \<Longrightarrow> Q x y"
  shows "sorted_wrt Q xs"
  using assms by (induction xs) (auto simp: image_iff)

lemma distinct_map_same:
  assumes "set xs = set ys" and "length xs = length ys" and "distinct (map f ys)"
  shows "distinct (map f xs)"
  using assms(1,2) distinct_card [OF assms(3)] by (intro card_distinct) simp

lemma matching_strip:
  assumes "set full = matching S cq m" and "Prefix cq = p @ Prefix q"
    and "\<And>e. (\<forall>f \<in> set (Filters cq). passes S f (p @ fst e, snd e)) \<and> F e \<longleftrightarrow> (\<forall>f \<in> set (Filters q). passes S f e)"
  shows "{e \<in> set (map (strip p) full). F e} = matching S q (\<lambda>k. m (p @ k))" (is "?L = ?R")
proof
  show "?L \<subseteq> ?R"
  proof
    fix e assume "e \<in> ?L"
    then obtain k v where kv: "(k, v) \<in> set full" "e = strip p (k, v)" "F e" by auto
    with assms(1,2) have "below (p @ Prefix q) k" by (auto simp: matching_def)
    then obtain j where "k = p @ j" using below_append_key by blast
    with kv assms(1,2) assms(3) [of e] show "e \<in> ?R" by (auto simp: matching_def strip_def below_append)
  qed
  show "?R \<subseteq> ?L"
  proof
    fix e assume R: "e \<in> ?R"
    with assms(1,2) assms(3) [of e] have "(p @ fst e, snd e) \<in> set full" by (auto simp: matching_def below_append)
    moreover have "strip p (p @ fst e, snd e) = e" by (simp add: strip_def)
    ultimately have "e \<in> set (map (strip p) full)" by (metis image_eqI set_map)
    moreover have "F e" using R assms(3) [of e] by (simp add: matching_def)
    ultimately show "e \<in> ?L" by simp
  qed
qed

lemma strip_keys:
  assumes "\<forall>e \<in> set full. below (p @ q) (fst e)" and "distinct (map (key_string \<circ> fst) full)"
  shows "distinct (map (key_string \<circ> fst) (map (strip p) full))"
proof -
  have "map (key_string \<circ> fst) full = map ((@) (key_string p)) (map (key_string \<circ> fst) (map (strip p) full))"
    using arg_cong [OF drop_key_inj [OF assms(1)], of "map key_string"] by (simp add: comp_def key_string_append)
  with assms(2) have "distinct (map ((@) (key_string p)) (map (key_string \<circ> fst) (map (strip p) full)))" by simp
  then show ?thesis by (simp only: distinct_map)
qed

text \<open>
  C38: when the child answers its part of a query as queries are documented, the query of a transaction
  under a prefix answers the whole query over the entries below the prefix, with the prefix taken off
  the keys: whatever mix of orders and filters it has, and with the offset and the limit applied once,
  after all of them. The texts of its key filters are supposed to be those of keys, such as \<open>/a/b\<close>:
  others, such as \<open>/a/\<close>, are cleaned on their way to the child, and then mean something else.
\<close>

theorem prefixed_query_answers:
  assumes "prefixes (transform D) p" and "key_law S" and "naive_law S (NaiveQueryApply K)"
    and "TxnQuery (child D) t (snd (prepareQuery (transform D) q)) = Inr (map Inr es)"
    and "query_answers S m (snd (prepareQuery (transform D) q)) es" and "SeekPrefix q = None"
    and "\<forall>f \<in> set (Filters q). clean_filter f"
  shows "\<exists>res. txn_Query K D t q = Inr (map Inr res) \<and> query_answers S (\<lambda>k. m (p @ k)) q res"
proof -
  obtain nq cq where parts: "prepareQuery (transform D) q = (nq, cq)" by fastforce
  note pq = prepareQuery_parts [OF parts assms(1,2,7)]
  from assms(5) parts obtain full where full: "es = window cq full" "distinct (map (key_string \<circ> fst) full)"
    "set full = matching S cq m" "Orders cq \<noteq> [] \<longrightarrow> sorted_wrt (before S (Orders cq)) full"
    by (auto simp: query_answers_def)
  have below: "\<forall>e \<in> set full. below (p @ Prefix q) (fst e)" using full(3) pq(2) by (auto simp: matching_def)
  have "set es \<subseteq> set full"
    using full(1) by (auto simp: window_def take_limit_def dest: in_set_takeD in_set_dropD split: if_splits)
  with below have inv: "getIterator (transform D) (map Inr es) = map Inr (map (strip p) es)"
    using getIterator_strip [OF assms(1)] by blast
  have "q\<lparr>SeekPrefix := None\<rparr> = q" using assms(6) by (cases q) simp
  then have result: "txn_Query K D t q = Inr (NaiveQueryApply K nq (map Inr (map (strip p) es)))"
    using assms(4) parts inv by (simp add: txn_Query_def)
  let ?F = "\<lambda>e. \<forall>f \<in> set (Filters nq). passes S f e"
  let ?hits = "filter ?F (map (strip p) full)"
  from assms(3) pq(1) obtain cutfull where naive:
    "NaiveQueryApply K nq (map Inr (map (strip p) es)) = map Inr (window nq cutfull)"
    "if Orders nq = [] then cutfull = filter ?F (map (strip p) es)
     else set cutfull = set (filter ?F (map (strip p) es)) \<and> length cutfull = length (filter ?F (map (strip p) es)) \<and>
       sorted_wrt (before S (Orders nq)) cutfull"
    unfolding naive_law_def Let_def by blast
  have hits: "set ?hits = matching S q (\<lambda>k. m (p @ k))"
    using matching_strip [OF full(3) pq(2), of ?F] pq(3) by simp
  have keys: "distinct (map (key_string \<circ> fst) (map (strip p) full))" by (rule strip_keys [OF below full(2)])
  then have dist: "distinct (map (key_string \<circ> fst) ?hits)" by (simp add: distinct_map_filter del: map_map)
  have order: "sorted_wrt (before S (Orders q)) (map (strip p) full)"
    if "Orders nq = []" "Orders q \<noteq> []"
  proof -
    from that pq(4) have co: "child_orders (isPrefixTransform (transform D)) (Orders q) = Some (Orders cq)" by auto
    with that full(4) have "sorted_wrt (before S (Orders cq)) full" using child_orders_nonempty by blast
    then have "sorted_wrt (\<lambda>x y. before S (Orders q) (strip p x) (strip p y)) full"
    proof (rule sorted_wrt_distinct_mono [where f = "\<lambda>e. key_string (fst (strip p e))"])
      show "distinct (map (\<lambda>e. key_string (fst (strip p e))) full)" using keys by (simp add: comp_def)
      fix x y assume x: "x \<in> set full" and y: "y \<in> set full" and xy: "before S (Orders cq) x y"
        and ne: "key_string (fst (strip p x)) \<noteq> key_string (fst (strip p y))"
      have "x = (p @ fst (strip p x), snd (strip p x))" "y = (p @ fst (strip p y), snd (strip p y))"
        using below x y below_append_key by (auto simp: strip_def prod_eq_iff)
      with xy have "before S (Orders cq) (p @ fst (strip p x), snd (strip p x)) (p @ fst (strip p y), snd (strip p y))"
        by simp
      from child_orders_before [OF co ne this] show "before S (Orders q) (strip p x) (strip p y)" .
    qed
    then show ?thesis by (simp add: sorted_wrt_map)
  qed
  from pq(5) show ?thesis
  proof (elim disjE conjE)
    assume w: "Limit cq = 0" "Offset cq = 0" "Limit nq = Limit q" "Offset nq = Offset q"
    then have es: "es = full" using full(1) by (simp add: window_def take_limit_def)
    have "set cutfull = set ?hits" "length cutfull = length ?hits"
      using naive(2) es by (simp_all split: if_splits)
    moreover from calculation dist have "distinct (map (key_string \<circ> fst) cutfull)"
      by (rule distinct_map_same)
    moreover have "Orders q \<noteq> [] \<longrightarrow> sorted_wrt (before S (Orders q)) cutfull"
    proof (cases "Orders nq = []")
      case True
      with naive(2) es order show ?thesis by (auto simp: sorted_wrt_filter)
    next
      case False
      with naive(2) pq(4) show ?thesis by auto
    qed
    moreover have "window nq cutfull = window q cutfull" using w by (simp add: window_def)
    ultimately have "query_answers S (\<lambda>k. m (p @ k)) q (window nq cutfull)"
      using hits unfolding query_answers_def by (intro exI [of _ cutfull]) simp
    then show ?thesis using result naive(1) by (intro exI [of _ "window nq cutfull"]) simp
  next
    assume w: "Limit cq = Limit q" "Offset cq = Offset q" "Limit nq = 0" "Offset nq = 0" and idle: "Filters nq = []" "Orders nq = []"
    have "window nq cutfull = map (strip p) es" using naive(2) idle w by (simp add: window_def take_limit_def)
    also have "\<dots> = window q (map (strip p) full)"
      using full(1) w by (simp add: window_def take_limit_def take_map drop_map)
    finally have "NaiveQueryApply K nq (map Inr (map (strip p) es)) = map Inr (window q (map (strip p) full))"
      using naive(1) by simp
    moreover have "set (map (strip p) full) = matching S q (\<lambda>k. m (p @ k))" using hits idle by simp
    then have "query_answers S (\<lambda>k. m (p @ k)) q (window q (map (strip p) full))"
      using keys order idle(2) unfolding query_answers_def by (intro exI [of _ "map (strip p) full"]) simp
    ultimately show ?thesis using result by (intro exI [of _ "window q (map (strip p) full)"]) simp
  qed
qed

section \<open>An instance\<close>

text \<open>The store in memory as a child, and a naive query for entries that are ordered by their keys only.\<close>

definition mem_child :: "((key \<times> 'v) list, (key \<times> 'v) list, 'v) txn_child" where
  "mem_child = datastore.extend mem_datastore
     \<lparr>NewTransactionExtended = (\<lambda>_. Inr), TxnDiscard = (\<lambda>t. t),
      TxnHas = (\<lambda>t k. Inr (map_of t k \<noteq> None)),
      TxnGetSize = (\<lambda>t k. case map_of t k of None \<Rightarrow> Inl ErrNotFound | Some v \<Rightarrow> Inr 1),
      TxnQueryExtended = (\<lambda>t q. Inr (map Inr (mem_entries t q)))\<rparr>"

lemma mem_child_sel [simp]:
  "NewTransaction mem_child = NewTransaction mem_datastore" "TxnGet mem_child = TxnGet mem_datastore"
  "TxnPut mem_child = TxnPut mem_datastore" "TxnDelete mem_child = TxnDelete mem_datastore"
  "TxnQuery mem_child = TxnQuery mem_datastore" "TxnCommit mem_child = TxnCommit mem_datastore"
  "StoreGet mem_child = StoreGet mem_datastore" "StoreDelete mem_child = StoreDelete mem_datastore"
  "QueryExtended mem_child = QueryExtended mem_datastore" "NewTransactionExtended mem_child ro = Inr"
  by (simp_all add: mem_child_def mem_datastore_def datastore.defs)

lemma mem_child_laws: "txn_datastore mem_child map_of map_of"
proof
  fix q :: Query and t :: "(key \<times> 'v) list" and rs es
  show "plain_query q \<Longrightarrow> SeekPrefix q = None \<Longrightarrow> TxnQuery mem_child t q = Inr rs \<Longrightarrow> rs = map Inr es \<Longrightarrow>
      answers (map_of t) q es"
    unfolding mem_child_sel by (rule mem.query_law)
qed (auto simp: mem_datastore_def mem_get_def update_conv' delete_conv' split: option.splits)

definition prefix_transform :: "key \<Rightarrow> KeyTransform" where
  "prefix_transform p = \<lparr>ConvertKey = (@) p, InvertKey = drop (length p), isPrefixTransform = True\<rparr>"

fun descending :: "Order list \<Rightarrow> bool" where
  "descending [] = False"
| "descending (b # os) = (b = OrderByKeyDescending \<or> b \<noteq> OrderByKey \<and> descending os)"

text \<open>Values are not told apart; the function filters keep the values from 2 on.\<close>

definition sample_meaning :: "nat meaning" where
  "sample_meaning = \<lparr>value_cmp = (\<lambda>_ _. 0), order_fun = (\<lambda>_ _ _. 0), filter_value = (\<lambda>_ _ _. True),
     filter_key = (\<lambda>_ _ _. True), filter_fun = (\<lambda>_ e. 2 \<le> snd e)\<rparr>"

definition naive_order :: "Order list \<Rightarrow> (key \<times> nat) list \<Rightarrow> (key \<times> nat) list" where
  "naive_order os es =
     (if os = [] then es
      else let up = sort_key (key_string \<circ> fst) es in if descending os then rev up else up)"

definition mem_naive :: "Query \<Rightarrow> (go_error + key \<times> nat) list \<Rightarrow> (go_error + key \<times> nat) list" where
  "mem_naive q rs =
     (if q = emptyQuery then rs
      else map Inr (window q (naive_order (Orders q)
        (filter (\<lambda>e. \<forall>f \<in> set (Filters q). passes sample_meaning f e)
           (concat (map (case_sum (\<lambda>_. []) (\<lambda>e. [e])) rs))))))"

definition mem_kt :: "((key \<times> nat) list, (key \<times> nat) list, nat) kt_libs" where
  "mem_kt = \<lparr>PrefixTransform = prefix_transform,
     kt_Get = (\<lambda>c T d k. StoreGet c d (ConvertKey T k)), kt_Delete = (\<lambda>c T d k. StoreDelete c d (ConvertKey T k)),
     NaiveQueryApply = mem_naive\<rparr>"

interpretation below_mem: prefixed_store "Wrap mem_kt mem_child prefix" mem_kt map_of map_of "prefix_key prefix"
  by (rule prefixed_store.intro)
    (simp_all add: Wrap_def Let_def mem_child_laws mem_kt_def prefixes_def prefix_transform_def mem_naive_def)

lemma sample_before:
  "before sample_meaning os x y \<longleftrightarrow>
    (if descending os then key_string (fst y) \<le> key_string (fst x) else key_string (fst x) \<le> key_string (fst y))"
proof (induction os)
  case (Cons b os)
  then show ?case by (cases b) (auto simp: sample_meaning_def string_cmp_def less_le not_le)
qed simp

lemma naive_order_sorted: "os \<noteq> [] \<Longrightarrow> sorted_wrt (before sample_meaning os) (naive_order os es)"
proof -
  have "sorted (map (key_string \<circ> fst) (sort_key (key_string \<circ> fst) es))" by simp
  then have up: "sorted_wrt (\<lambda>x y. key_string (fst x) \<le> key_string (fst y)) (sort_key (key_string \<circ> fst) es)"
    by (simp add: sorted_wrt_map del: sorted_sort_key)
  have before: "before sample_meaning os = (\<lambda>x y. if descending os then key_string (fst y) \<le> key_string (fst x)
      else key_string (fst x) \<le> key_string (fst y))"
    by (intro ext) (rule sample_before)
  from up show "os \<noteq> [] \<Longrightarrow> ?thesis"
    using before by (cases "descending os") (simp_all add: naive_order_def Let_def sorted_wrt_rev)
qed

lemma mem_naive_law: "naive_law sample_meaning mem_naive"
proof -
  have only: "concat (map (case_sum (\<lambda>_. []) (\<lambda>e. [e])) (map Inr es)) = es" for es :: "(key \<times> nat) list"
    by (induction es) simp_all
  have set: "set (naive_order os es) = set es" "length (naive_order os es) = length es" for os es
    by (simp_all add: naive_order_def Let_def)
  show ?thesis
    unfolding naive_law_def Let_def
  proof (intro allI impI)
    fix q :: Query and es :: "(key \<times> nat) list"
    let ?hits = "filter (\<lambda>e. \<forall>f \<in> set (Filters q). passes sample_meaning f e) es"
    have "mem_naive q (map Inr es) = map Inr (window q (naive_order (Orders q) ?hits))"
      by (simp only: mem_naive_def only)
        (simp add: emptyQuery_def window_def naive_order_def take_limit_def)
    moreover have "Orders q = [] \<Longrightarrow> naive_order (Orders q) ?hits = ?hits" by (simp add: naive_order_def)
    ultimately show "\<exists>full. mem_naive q (map Inr es) = map Inr (window q full) \<and>
        (if Orders q = [] then full = ?hits
         else set full = set ?hits \<and> length full = length ?hits \<and> sorted_wrt (before sample_meaning (Orders q)) full)"
      using set naive_order_sorted by (intro exI [of _ "naive_order (Orders q) ?hits"]) auto
  qed
qed

text \<open>Two bids under the prefix and an entry beside it; the first one that passes a prefix and a function.\<close>

definition sample_entries :: "(key \<times> nat) list" where
  "sample_entries = [([''bids'', ''a''], 1), ([''bids'', ''b''], 2), ([''other'', ''c''], 3)]"

theorem prefixed_query_answers_witness:
  "\<exists>res. txn_Query mem_kt (Wrap mem_kt mem_child ''/bids'') sample_entries
      (emptyQuery\<lparr>Filters := [FilterKeyPrefix ''/b'', FilterFunction 0], Orders := [OrderByKey], Limit := 1\<rparr>) = Inr (map Inr res) \<and>
    res = [([''b''], 2)]"
proof -
  let ?D = "Wrap mem_kt mem_child ''/bids'' :: ((key \<times> nat) list, (key \<times> nat) list, nat) wrapped"
  let ?q = "emptyQuery\<lparr>Filters := [FilterKeyPrefix ''/b'', FilterFunction 0], Orders := [OrderByKey], Limit := 1\<rparr>"
  let ?cq = "emptyQuery\<lparr>Prefix := [''bids''], Orders := [OrderByKey]\<rparr>"
  have pre: "prefix_key ''/bids'' = [''bids'']"
    by (simp add: prefix_key_def cleanChild_def)
  have pt: "prefixes (transform ?D) [''bids'']" "transform ?D = prefix_transform [''bids'']" "child ?D = mem_child"
    using below_mem.transform_prefixes [of "''/bids''"] by (simp_all add: pre Wrap_def mem_kt_def Let_def)
  have part: "snd (prepareQuery (transform ?D) ?q) = ?cq"
    by (simp add: pt prepareQuery_def split_orders_def split_filters_def punt_def prefix_transform_def emptyQuery_def)
  have clean: "clean_text ''/b''" by (simp add: clean_text_def NewKey_def key_string_def)
  let ?es = "mem_entries sample_entries ?cq"
  have es: "?es = [([''bids'', ''a''], 1), ([''bids'', ''b''], 2)]"
    by code_simp
  have "query_answers sample_meaning (map_of sample_entries) ?cq ?es"
    unfolding query_answers_def es
    by (intro exI [of _ "[([''bids'', ''a''], 1), ([''bids'', ''b''], 2)]"])
      (auto simp: window_def take_limit_def emptyQuery_def key_string_def matching_def below_def sample_entries_def sample_before
        string_cmp_def split: if_splits)
  moreover have "TxnQuery (child ?D) sample_entries ?cq = Inr (map Inr ?es)" by (simp add: pt mem_datastore_def)
  moreover have "naive_law sample_meaning (NaiveQueryApply mem_kt)" using mem_naive_law by (simp add: mem_kt_def)
  moreover have "key_law sample_meaning" by (simp add: key_law_def sample_meaning_def)
  ultimately obtain res where res: "txn_Query mem_kt ?D sample_entries ?q = Inr (map Inr res)"
    "query_answers sample_meaning (\<lambda>k. map_of sample_entries ([''bids''] @ k)) ?q res"
    using prefixed_query_answers [of ?D "[''bids'']" sample_meaning mem_kt sample_entries ?q ?es "map_of sample_entries"]
      pt(1) part clean by (auto simp: emptyQuery_def)
  have "matching sample_meaning ?q (\<lambda>k. map_of sample_entries ([''bids''] @ k)) = {([''b''], 2)}"
    by (auto simp: matching_def sample_entries_def sample_meaning_def emptyQuery_def below_def key_string_def split: if_splits)
  with res(2) obtain full where full: "res = window ?q full" "distinct (map (key_string \<circ> fst) full)" "set full = {([''b''], 2)}"
    by (auto simp: query_answers_def)
  from full(2) have "distinct full" by (simp add: distinct_map)
  with full(3) have "full = [([''b''], 2)]" by (cases full) (auto simp: insert_eq_iff dest: subset_singletonD)
  with full(1) have "res = [([''b''], 2)]" by (simp add: window_def take_limit_def emptyQuery_def)
  with res(1) show ?thesis by blast
qed

text \<open>
  A prefix that ends with a slash asks for what is below a key. It loses the slash on its way to the child,
  which then also answers the entries next to that key whose names go on.
\<close>

theorem key_prefix_filter_widened:
  "Filters (snd (prepareQuery (prefix_transform [''bids'']) (emptyQuery\<lparr>Filters := [FilterKeyPrefix ''/a/'']\<rparr>))) =
     [FilterKeyPrefix ''/bids/a''] \<and>
   passes S (FilterKeyPrefix ''/bids/a'') ([''bids''] @ [''ab''], v) \<and> \<not> passes S (FilterKeyPrefix ''/a/'') ([''ab''], v)"
  by (simp add: prepareQuery_def split_orders_def split_filters_def prefix_transform_def emptyQuery_def NewKey_def
      key_text_def key_string_def)

section \<open>A prefix as a datastore of its own\<close>

text \<open>
  C39: over a child that keeps the laws of transactions, the wrapped datastore keeps them for the contents
  below its prefix: what is put, deleted, found and listed in its transactions is what lies there.
\<close>

theorem prefixed_transactions:
  assumes "txn_datastore (child D) vd vt" and "prefixes (transform D) p"
    and "\<And>ro d t. NewTransactionExtended (child D) ro d = Inr t \<Longrightarrow> vt t = vd d"
    and "\<And>rs. NaiveQueryApply K emptyQuery rs = rs"
  shows "txn_datastore (wrapped_store K D) (\<lambda>d k. vd d (p @ k)) (\<lambda>t k. vt t (p @ k))"
  by (rule prefixed_store.below_laws) (rule prefixed_store.intro, (rule assms; assumption?)+)

theorem prefixed_transactions_witness:
  "txn_datastore (wrapped_store mem_kt (Wrap mem_kt mem_child ''/bids''))
     (\<lambda>d k. map_of d ([''bids''] @ k)) (\<lambda>t k. map_of t ([''bids''] @ k))"
proof -
  let ?D = "Wrap mem_kt mem_child ''/bids'' :: ((key \<times> nat) list, (key \<times> nat) list, nat) wrapped"
  have "prefix_key ''/bids'' = [''bids'']" by (simp add: prefix_key_def cleanChild_def)
  then have "prefixes (transform ?D) [''bids'']" using below_mem.transform_prefixes [of "''/bids''"] by simp
  then show ?thesis
    by (rule prefixed_transactions [OF below_mem.child_laws _ below_mem.extended_view below_mem.naive_idle])
qed

text \<open>
  The query outside a transaction is that of the child: the prefix of the query is not converted and the
  keys are not inverted. A query of everything lists the entries beside the prefix too, under keys that
  the datastore does not know, so it is no datastore of the entries below its prefix.
\<close>

theorem query_extended_forgets_prefix:
  defines "D \<equiv> Wrap mem_kt mem_child ''/bids''" and "q \<equiv> emptyQuery\<lparr>Orders := [OrderByKey]\<rparr>"
  shows "QueryExtended (wrapped_store mem_kt D) sample_entries q = Inr (map Inr sample_entries) \<and>
    txn_Query mem_kt D sample_entries q = Inr (map Inr [([''a''], 1), ([''b''], 2)]) \<and>
    \<not> ext_datastore (wrapped_store mem_kt D) (\<lambda>d k. map_of d ([''bids''] @ k)) (\<lambda>t k. map_of t ([''bids''] @ k))"
proof -
  have pre: "prefix_key ''/bids'' = [''bids'']" by (simp add: prefix_key_def cleanChild_def)
  have all: "mem_entries sample_entries q = sample_entries" unfolding q_def by code_simp
  have ext: "QueryExtended (wrapped_store mem_kt D) sample_entries q = Inr (map Inr sample_entries)"
    by (simp add: wrapped_store_def ds_QueryExtended_def D_def Wrap_def Let_def mem_datastore_def all)
  have "mem_entries sample_entries (q\<lparr>Prefix := [''bids'']\<rparr>) = [([''bids'', ''a''], 1), ([''bids'', ''b''], 2)]"
    unfolding q_def by code_simp
  moreover have "prepareQuery (prefix_transform [''bids'']) (q\<lparr>SeekPrefix := None\<rparr>) = (emptyQuery, q\<lparr>Prefix := [''bids'']\<rparr>)"
    by (simp add: q_def emptyQuery_def prepareQuery_def split_orders_def split_filters_def prefix_transform_def)
  ultimately have txn: "txn_Query mem_kt D sample_entries q = Inr (map Inr [([''a''], 1), ([''b''], 2)])"
    by (simp add: txn_Query_def D_def Wrap_def Let_def mem_kt_def pre mem_datastore_def mem_naive_def getIterator_def)
      (simp add: prefix_transform_def)
  have "\<not> answers (\<lambda>k. map_of sample_entries ([''bids''] @ k)) q sample_entries"
  proof
    assume "answers (\<lambda>k. map_of sample_entries ([''bids''] @ k)) q sample_entries"
    then obtain full where "sample_entries = take_limit (Limit q) full"
      "set full = {(k, v). map_of sample_entries ([''bids''] @ k) = Some v \<and> below (Prefix q) k \<and>
        seek_ok (key_order (Orders q)) (SeekPrefix q) k}"
      unfolding answers_def by blast
    moreover have "Limit q = 0" by (simp add: q_def emptyQuery_def)
    moreover have "([''other'', ''c''], 3) \<in> set sample_entries" by (simp add: sample_entries_def)
    ultimately have "map_of sample_entries ([''bids''] @ [''other'', ''c'']) = Some 3" by (simp add: take_limit_def)
    then show False by (simp add: sample_entries_def)
  qed
  then have "\<not> ext_datastore (wrapped_store mem_kt D) (\<lambda>d k. map_of d ([''bids''] @ k)) (\<lambda>t k. map_of t ([''bids''] @ k))"
    using ext_datastore.query_ext_law [OF _ _ ext refl] by (auto simp: q_def plain_query_def emptyQuery_def)
  with ext txn show ?thesis by blast
qed

end
