(* ===== verification/Bid_Types.thy ===== *)
theory Bid_Types
  imports Service_Run
begin

text \<open>
  What the fields of a stored bid have to do with its status. A bid is validated when it is saved, and
  every later operation adds what its new status needs: sources when it is won, a proposal or a deal
  id when it is accepted. The relation holds of all bids in every state of a running service, so the
  worker never meets a bid without sources or without a proposal.
\<close>

section \<open>Well-typed bids\<close>

text \<open>What the validation of a new bid establishes and nothing changes.\<close>

definition core :: "'z libs_scheme \<Rightarrow> Bid \<Rightarrow> bool" where
  "core L b \<longleftrightarrow> AuctionID b \<noteq> '''' \<and> peer_Validate L (AuctioneerID b) = None \<and> Bid.DealSize b \<noteq> 0 \<and> Bid.DealDuration b \<noteq> 0 \<and>
     0 \<le> sint (Bid.AskPrice b) \<and> 0 \<le> sint (Bid.VerifiedAskPrice b) \<and> StartEpoch b \<noteq> 0"

definition fetchable :: "Bid \<Rightarrow> bool" where
  "fetchable b \<longleftrightarrow> Sources_Validate (BidSources b) = None \<and> Defined (ProposalCid b)"

fun typed_for :: "BidStatus \<Rightarrow> Bid \<Rightarrow> bool" where
  "typed_for Unspecified b = False"
| "typed_for Submitted b = (\<not> Defined (ProposalCid b) \<and> ErrorCause b = '''')"
| "typed_for AwaitingProposal b =
     (\<not> Defined (ProposalCid b) \<and> ErrorCause b = '''' \<and> Sources_Validate (BidSources b) = None)"
| "typed_for QueuedData b = fetchable b"
| "typed_for FetchingData b = fetchable b"
| "typed_for Finalized b =
     (Sources_Validate (BidSources b) = None \<and> (Defined (ProposalCid b) \<or> DealUID b \<noteq> '''') \<and> ErrorCause b = '''')"
| "typed_for Errored b = fetchable b"

definition typed :: "'z libs_scheme \<Rightarrow> Bid \<Rightarrow> bool" where
  "typed L b \<longleftrightarrow> core L b \<and> typed_for (Status b) b"

lemma core_saved [simp]: "core L (saved now st b) = core L b"
  by (simp add: core_def saved_def touch_def)

lemma fetchable_saved [simp]: "fetchable (saved now st b) = fetchable b"
  by (simp add: fetchable_def)

lemma typed_for_saved [simp]: "typed_for st (saved now st' b) = typed_for st b"
  by (cases st) simp_all

lemma typed_saved: "typed L (saved now st b) \<longleftrightarrow> core L b \<and> typed_for st b"
  by (simp add: typed_def)

lemma typed_queued_or_fetching: "core L b \<Longrightarrow> fetchable b \<Longrightarrow> typed L (queued_or_fetching now now' room b)"
  by (simp add: queued_or_fetching_def typed_saved)

lemma validate_typed: "validate L b = None \<Longrightarrow> core L b \<and> typed_for Submitted b"
  by (auto simp: validate_def core_def split: if_split_asm option.split_asm)

section \<open>Typed machines\<close>

text \<open>The bids of the jobs in memory are fetchable, and one that is to be finalized carries no error.\<close>

definition jobs_typed :: "'z libs_scheme \<Rightarrow> 'd machine \<Rightarrow> bool" where
  "jobs_typed L M \<longleftrightarrow> (\<forall>p \<in> set (live M). core L (heap (mem M) p) \<and> fetchable (heap (mem M) p)) \<and>
     (\<forall>p. (p, Ending Finalized) \<in> set (busy M) \<longrightarrow> ErrorCause (heap (mem M) p) = '''')"

definition machine_typed :: "'z libs_scheme \<Rightarrow> (string \<rightharpoonup> Bid) \<Rightarrow> 'd machine \<Rightarrow> bool" where
  "machine_typed L m M \<longleftrightarrow> ran m \<subseteq> {b. typed L b} \<and> jobs_typed L M"

lemma ran_typed_upd: "ran m \<subseteq> {b. typed L b} \<Longrightarrow> typed L b \<Longrightarrow> ran (m(i \<mapsto> b)) \<subseteq> {b. typed L b}"
  using ran_upd [of _ m i b] by blast

lemma typed_stored: "ran m \<subseteq> {b. typed L b} \<Longrightarrow> m i = Some b \<Longrightarrow> typed L b"
  using ranI_some [of m i b] by blast

lemma jobs_typed_db [simp]: "jobs_typed L (M\<lparr>mem := (mem M)\<lparr>db := d\<rparr>\<rparr>) = jobs_typed L M"
  by (simp add: jobs_typed_def live_def)

lemma jobs_typed_limiter [simp]: "jobs_typed L (M\<lparr>mem := s\<lparr>bytesLimiter := l\<rparr>\<rparr>) = jobs_typed L (M\<lparr>mem := s\<rparr>)"
  by (simp add: jobs_typed_def live_def)

lemma awaiting_typed:
  assumes "ran m \<subseteq> {b. typed L b}"
  shows "ran (snd (awaiting_spec now i sources m)) \<subseteq> {b. typed L b}"
proof (cases "Sources_Validate sources = None \<and> i \<in> with_status m Submitted")
  case True
  then obtain b where b: "m i = Some b" "Status b = Submitted" by (auto simp: with_status_def)
  then have "core L b" "typed_for Submitted b" using typed_stored [OF assms b(1)] by (simp_all add: typed_def)
  then have "core L (b\<lparr>BidSources := sources\<rparr>)" "typed_for AwaitingProposal (b\<lparr>BidSources := sources\<rparr>)"
    using True by (simp_all add: core_def)
  with True b ran_typed_upd [OF assms, of "saved now AwaitingProposal (b\<lparr>BidSources := sources\<rparr>)" i] show ?thesis
    by (simp add: awaiting_spec_def typed_saved)
next
  case False
  then have "snd (awaiting_spec now i sources m) = m"
    by (auto simp: awaiting_spec_def with_status_def split: option.splits)
  with assms show ?thesis by simp
qed

lemma deal_uid_typed:
  assumes "ran m \<subseteq> {b. typed L b}"
  shows "ran (snd (deal_uid_spec now i uid m)) \<subseteq> {b. typed L b}"
proof (cases "uid \<noteq> '''' \<and> i \<in> with_status m AwaitingProposal")
  case True
  then obtain b where b: "m i = Some b" "Status b = AwaitingProposal" by (auto simp: with_status_def)
  then have "core L b" "typed_for AwaitingProposal b" using typed_stored [OF assms b(1)] by (simp_all add: typed_def)
  then have "core L (b\<lparr>DealUID := uid\<rparr>)" "typed_for Finalized (b\<lparr>DealUID := uid\<rparr>)"
    using True by (simp_all add: core_def)
  with True b ran_typed_upd [OF assms, of "saved now Finalized (b\<lparr>DealUID := uid\<rparr>)" i] show ?thesis
    by (simp add: deal_uid_spec_def proposal_spec_def typed_saved)
next
  case False
  then have "snd (deal_uid_spec now i uid m) = m"
    by (auto simp: deal_uid_spec_def proposal_spec_def with_status_def split: option.splits)
  with assms show ?thesis by simp
qed

lemma save_typed:
  assumes "ran m \<subseteq> {b. typed L b}" and "fst (save_spec L now now' b m) = None"
  shows "ran (snd (save_spec L now now' b m)) \<subseteq> {b. typed L b}"
proof -
  have v: "validate L b = None" using assms(2) by (simp add: save_spec_def split: option.splits)
  then have "core L (b\<lparr>CreatedAt := now\<rparr>)" "typed_for Submitted (b\<lparr>CreatedAt := now\<rparr>)"
    using validate_typed [OF v] by (simp_all add: core_def)
  with v ran_typed_upd [OF assms(1), of "saved now' Submitted (b\<lparr>CreatedAt := now\<rparr>)" "ID b"] show ?thesis
    by (simp add: save_spec_def typed_saved)
qed

lemma all_or_nothing_typed:
  assumes "all_or_nothing dec view m r spec" "ran m \<subseteq> {b. typed L b}"
    and "fst spec = None \<Longrightarrow> ran (snd spec) \<subseteq> {b. typed L b}"
  shows "\<exists>m'. represents dec view m' \<and> ran m' \<subseteq> {b. typed L b}"
  using assms by (cases r) (auto simp: all_or_nothing_def)

lemma enqueue_typed:
  assumes "machine_typed L m M" "jobs_ok m M" "core L b" "fetchable b"
  shows "machine_typed L (m(ID b \<mapsto> queued_or_fetching now now' (has_room (mem M)) b))
    (M\<lparr>mem := (enqueued now now' b (mem M))\<lparr>db := d\<rparr>\<rparr>)"
proof -
  let ?h = "heap (enqueued now now' b (mem M))"
  have new: "core L (?h (nextAddr (mem M)))" "fetchable (?h (nextAddr (mem M)))"
    using assms(3,4) by (simp_all add: enqueued_def queued_or_fetching_def)
  have old: "?h p = heap (mem M) p" if "p \<in> set (live M)" for p
    using that assms(2) by (auto simp: jobs_ok_def jobs_inv_def enqueued_def)
  have "core L (?h p) \<and> fetchable (?h p)"
    if "p \<in> set (jobCh (enqueued now now' b (mem M))) \<or> p \<in> fst ` set (busy M)" for p
    using that new old [of p] assms(1)
    by (auto simp: enqueued_def live_def machine_typed_def jobs_typed_def split: if_split_asm)
  moreover have "ErrorCause (?h p) = ''''" if "(p, Ending Finalized) \<in> set (busy M)" for p
    using that old [of p] assms(1) by (force simp: live_def machine_typed_def jobs_typed_def)
  moreover have "ran (m(ID b \<mapsto> queued_or_fetching now now' (has_room (mem M)) b)) \<subseteq> {b. typed L b}"
    by (rule ran_typed_upd [OF _ typed_queued_or_fetching [OF assms(3,4)]])
      (use assms(1) in \<open>simp add: machine_typed_def\<close>)
  ultimately show ?thesis
    by (simp add: machine_typed_def jobs_typed_def live_def)
qed

section \<open>Steps keep the types\<close>

lemma busy_live: "(p, ph) \<in> set (busy M) \<Longrightarrow> p \<in> set (live M)"
  by (force simp: live_def)

lemma nth_busy_live: "k < length (busy M) \<Longrightarrow> busy M ! k = (p, ph) \<Longrightarrow> p \<in> set (live M)"
  using busy_live nth_mem by metis

text \<open>A worker moves on with its job, whose bid changes in the error text only.\<close>

lemma keeps_typed:
  assumes "machine_typed L m M" "machine_ok m M" "k < length (busy M)" "busy M ! k = (p, ph)" "keeps p (mem M) s"
    and "ph' = Ending Finalized \<Longrightarrow> ErrorCause (heap s p) = ''''"
  shows "machine_typed L m (M\<lparr>mem := s, busy := (busy M)[k := (p, ph')]\<rparr>)"
proof -
  let ?M = "M\<lparr>mem := s, busy := (busy M)[k := (p, ph')]\<rparr>"
  obtain c where h: "heap s = (heap (mem M))(p := (heap (mem M) p)\<lparr>ErrorCause := c\<rparr>)"
    and rest: "same_rest (mem M) s" using assms(5) by (auto simp: keeps_def)
  have live: "live ?M = live M"
    using rest map_fst_update [OF assms(3,4)] by (simp add: live_def same_rest_def)
  have "core L (heap s q) = core L (heap (mem M) q)" "fetchable (heap s q) = fetchable (heap (mem M) q)" for q
    by (simp_all add: h core_def fetchable_def)
  then have "\<forall>q \<in> set (live ?M). core L (heap s q) \<and> fetchable (heap s q)"
    using assms(1) unfolding live by (simp add: machine_typed_def jobs_typed_def)
  moreover have "ErrorCause (heap s q) = ''''" if q: "(q, Ending Finalized) \<in> set ((busy M)[k := (p, ph')])" for q
  proof (cases "q = p")
    case True
    have dist: "distinct (map fst (busy M))"
      using assms(2) live_distinct [of m M] by (simp add: machine_ok_def live_def)
    then have "set ((busy M)[k := (p, ph')]) = insert (p, ph') (set (busy M) - {(p, ph)})"
      using set_update_distinct [OF _ assms(3)] assms(4) by (simp add: distinct_map)
    moreover have "(p, ph) \<in> set (busy M)" using assms(3,4) nth_mem by metis
    ultimately have "ph' = Ending Finalized"
      using q True eq_key_imp_eq_value [OF dist] by fastforce
    with assms(6) True show ?thesis by simp
  next
    case False
    with q have "(q, Ending Finalized) \<in> set (busy M)"
      using set_update_subset_insert [of "busy M" k "(p, ph')"] by auto
    with assms(1) False show ?thesis by (simp add: h machine_typed_def jobs_typed_def)
  qed
  ultimately show ?thesis
    using assms(1) by (simp add: machine_typed_def jobs_typed_def)
qed

lemma fetchData_not_final: "fetchData L w p s = (Inl st, s') \<Longrightarrow> st \<noteq> Finalized"
  by (auto simp: fetchData_def fail_def Let_def apfst_def map_prod_def
      split: if_split_asm sum.split_asm prod.split_asm)

lemma importData_final: "importData w now p f s = (Finalized, s') \<Longrightarrow> ErrorCause (heap s' p) = ''''"
  by (auto simp: importData_def fail_def Let_def set_bid_def report_to_def split: option.split_asm if_split_asm)

lemma recv_typed:
  assumes "machine_typed L m M" "machine_ok m M" "recvJob (mem M) = Some (Some p, s)"
  shows "machine_typed L m (M\<lparr>mem := s, busy := busy M @ [(p, Downloading)]\<rparr>)"
proof -
  obtain ps where ps: "jobCh (mem M) = p # ps" and s: "s = set_bid p ((heap (mem M) p)
      \<lparr>DataURIFetchAttempts := DataURIFetchAttempts (heap (mem M) p) + 1\<rparr>) ((mem M)\<lparr>jobCh := ps\<rparr>)"
    using assms(3) by (auto simp: recvJob_def split: list.splits if_splits)
  have h: "core L (heap s q) = core L (heap (mem M) q)" "fetchable (heap s q) = fetchable (heap (mem M) q)"
    "ErrorCause (heap s q) = ErrorCause (heap (mem M) q)" for q
    by (simp_all add: s set_bid_def core_def fetchable_def)
  have "jobCh s = ps" by (simp add: s set_bid_def)
  with assms(1) h ps show ?thesis
    by (auto simp: machine_typed_def jobs_typed_def live_def)
qed

context reliable_backend
begin

lemma getNext_typed:
  assumes "represents (Decode B) (vd (db (mem M))) m" "jobs_ok m M" "machine_typed L m M"
  shows "\<exists>m'. represents (Decode B) (vd (db (getNext B now now' (mem M)))) m' \<and>
    machine_typed L m' (M\<lparr>mem := getNext B now now' (mem M)\<rparr>)"
proof (rule getNext_total [OF assms(1), of now now'])
  assume "with_status m QueuedData = {}" "getNext B now now' (mem M) = mem M"
  with assms show ?thesis by (intro exI [of _ m]) simp
next
  fix b d assume b: "m (ID b) = Some b" "least_queued m (ID b)"
    and eq: "getNext B now now' (mem M) = (enqueued now now' b (mem M))\<lparr>db := d\<rparr>"
    and rep: "represents (Decode B) (vd d) (m(ID b \<mapsto> queued_or_fetching now now' (has_room (mem M)) b))"
  have "Status b = QueuedData" using b by (auto simp: least_queued_def with_status_def)
  moreover have "typed L b" using assms(3) b(1) typed_stored by (auto simp: machine_typed_def)
  ultimately have "core L b" "fetchable b" by (simp_all add: typed_def)
  from enqueue_typed [OF assms(3,2) this, of now now' d] rep show ?thesis unfolding eq by auto
qed

lemma proposal_typed:
  assumes "represents (Decode B) (vd (db (mem M))) m" "jobs_ok m M" "machine_typed L m M"
    and "SetProposalCid B now now' i pcid (mem M) = (r, s)"
  shows "\<exists>m'. represents (Decode B) (vd (db s)) m' \<and> machine_typed L m' (M\<lparr>mem := s\<rparr>)"
proof (cases "Defined pcid \<and> i \<in> with_status m AwaitingProposal")
  case True
  then obtain b where b: "m i = Some b" "Status b = AwaitingProposal" by (auto simp: with_status_def)
  let ?b = "b\<lparr>ProposalCid := pcid\<rparr>"
  have ID: "ID ?b = i" using represents_get [OF assms(1) b(1)] by simp
  obtain d where s: "s = (enqueued now now' ?b (mem M))\<lparr>db := d\<rparr>"
    and rep: "represents (Decode B) (vd d) (m(i \<mapsto> queued_or_fetching now now' (has_room (mem M)) ?b))"
    using SetProposalCid_exact [OF assms(1), of pcid i now now'] assms(4) True b
    by (auto simp: proposal_cid_spec_def proposal_spec_def)
  have "typed L b" using assms(3) b(1) typed_stored by (auto simp: machine_typed_def)
  then have "core L ?b" "fetchable ?b" using b(2) True by (simp_all add: typed_def core_def fetchable_def)
  from enqueue_typed [OF assms(3,2) this, of now now' d] rep show ?thesis
    by (auto simp: s ID [simplified])
next
  case False
  then have "s = mem M" using SetProposalCid_exact [OF assms(1), of pcid i now now'] assms(4) by simp
  with assms(1,3) show ?thesis by (intro exI [of _ m]) simp
qed

lemma handler_typed:
  assumes "handler B L M M'" "represents (Decode B) (vd (db (mem M))) m" "jobs_ok m M" "machine_typed L m M"
  shows "\<exists>m'. represents (Decode B) (vd (db (mem M'))) m' \<and> machine_typed L m' M'"
proof -
  have ran: "ran m \<subseteq> {b. typed L b}" using assms(4) by (simp add: machine_typed_def)
  have frame: "\<exists>m'. represents (Decode B) (vd (db s)) m' \<and> machine_typed L m' (M\<lparr>mem := s\<rparr>)"
    if "\<exists>m'. represents (Decode B) (vd (db s)) m' \<and> ran m' \<subseteq> {b. typed L b}" and s: "s = (mem M)\<lparr>db := db s\<rparr>" for s
  proof -
    have "jobs_typed L (M\<lparr>mem := s\<rparr>)"
      using assms(4) jobs_typed_db [where L = L and M = M and d = "db s"] unfolding s [symmetric] by (simp add: machine_typed_def)
    with that(1) show ?thesis by (auto simp: machine_typed_def)
  qed
  from assms(1) show ?thesis
  proof cases
    case (handle_save b now now' r s)
    from SaveBid_refines [OF handle_save(3) assms(2) GetBid_missing [OF assms(2) handle_save(2)]]
    have "\<exists>m'. represents (Decode B) (vd (db s)) m' \<and> ran m' \<subseteq> {b. typed L b}"
      by (rule all_or_nothing_typed [OF _ ran save_typed [OF ran]])
    from frame [OF this SaveBid_frame [OF handle_save(3)]] show ?thesis unfolding handle_save(1) by simp
  next
    case (handle_awaiting now i sources r s)
    from SetAwaitingProposalCid_refines [OF handle_awaiting(2) assms(2)]
    have "\<exists>m'. represents (Decode B) (vd (db s)) m' \<and> ran m' \<subseteq> {b. typed L b}"
      by (rule all_or_nothing_typed [OF _ ran awaiting_typed [OF ran]])
    from frame [OF this SetAwaitingProposalCid_frame [OF handle_awaiting(2)]] show ?thesis
      unfolding handle_awaiting(1) by simp
  next
    case (handle_deal_uid now i uid r s)
    from SetDealUID_refines [OF handle_deal_uid(2) assms(2)]
    have "\<exists>m'. represents (Decode B) (vd (db s)) m' \<and> ran m' \<subseteq> {b. typed L b}"
      by (rule all_or_nothing_typed [OF _ ran deal_uid_typed [OF ran]])
    from frame [OF this SetDealUID_frame [OF handle_deal_uid(2)]] show ?thesis
      unfolding handle_deal_uid(1) by simp
  next
    case (handle_proposal now now' i pcid r s)
    from proposal_typed [OF assms(2,3,4) handle_proposal(2)] show ?thesis unfolding handle_proposal(1) by simp
  qed
qed

end

context reliable_backend
begin

lemma end_typed:
  assumes "represents (Decode B) (vd (db (mem M))) m" "machine_ok m M" "machine_typed L m M"
    and "k < length (busy M)" "busy M ! k = (p, Ending st)"
  shows "\<exists>m'. represents (Decode B) (vd (db (endJob B now p st (mem M)))) m' \<and>
    machine_typed L m' (M\<lparr>mem := endJob B now p st (mem M), busy := take k (busy M) @ drop (Suc k) (busy M)\<rparr>)"
proof -
  have busy: "(p, Ending st) \<in> set (busy M)" using assms(4,5) by (metis nth_mem)
  have live: "p \<in> set (live M)" by (rule nth_busy_live [OF assms(4,5)])
  let ?b = "heap (mem M) p"
  have ph: "phase_ok (max_tries M) ?b (Ending st)" by (rule busy_phase [OF assms(2,4,5)])
  have typed: "core L ?b" "fetchable ?b" "st = Finalized \<Longrightarrow> ErrorCause ?b = ''''"
    using assms(3) busy live by (auto simp: machine_typed_def jobs_typed_def)
  have new: "typed L (saved now st ?b)"
    using typed ph by (auto simp: typed_saved fetchable_def)
  have "Status ?b = FetchingData" "ID ?b \<in> with_status m FetchingData"
    using assms(2) live by (auto simp: machine_ok_def jobs_ok_def jobs_inv_def)
  then obtain old where "m (ID ?b) = Some old" "Status old = Status ?b" by (auto simp: with_status_def)
  then have "consistent m ?b st" by (rule consistent_same)
  from endJob_total [OF assms(1) this, of now] obtain d where
    d: "endJob B now p st (mem M) = sendTick (set_bid p (saved now st ?b) ((mem M)\<lparr>db := d\<rparr>))"
      "represents (Decode B) (vd d) (m(ID ?b \<mapsto> saved now st ?b))" .
  let ?s = "endJob B now p st (mem M)"
  have h: "heap ?s q = (if q = p then saved now st ?b else heap (mem M) q)" for q
    by (simp add: d(1) sendTick_def set_bid_def)
  have flds: "db ?s = d" "jobCh ?s = jobCh (mem M)" by (simp_all add: d(1) sendTick_def set_bid_def)
  have sub: "set (take k (busy M) @ drop (Suc k) (busy M)) \<subseteq> set (busy M)"
    by (auto dest: in_set_takeD in_set_dropD)
  have "jobs_typed L (M\<lparr>mem := ?s, busy := take k (busy M) @ drop (Suc k) (busy M)\<rparr>)"
    unfolding jobs_typed_def
  proof (intro conjI ballI allI impI)
    fix q assume "q \<in> set (live (M\<lparr>mem := ?s, busy := take k (busy M) @ drop (Suc k) (busy M)\<rparr>))"
    then have "q \<in> set (live M)" using sub by (auto simp: live_def flds)
    with assms(3) typed have "core L (heap ?s q)" "fetchable (heap ?s q)"
      by (simp_all add: h machine_typed_def jobs_typed_def)
    then show "core L (heap (mem (M\<lparr>mem := ?s, busy := take k (busy M) @ drop (Suc k) (busy M)\<rparr>)) q)"
      "fetchable (heap (mem (M\<lparr>mem := ?s, busy := take k (busy M) @ drop (Suc k) (busy M)\<rparr>)) q)" by simp_all
  next
    fix q assume "(q, Ending Finalized) \<in> set (busy (M\<lparr>mem := ?s, busy := take k (busy M) @ drop (Suc k) (busy M)\<rparr>))"
    then have "(q, Ending Finalized) \<in> set (busy M)" using sub by auto
    with assms(3) show "ErrorCause (heap (mem (M\<lparr>mem := ?s, busy := take k (busy M) @ drop (Suc k) (busy M)\<rparr>)) q) = ''''"
      by (auto simp: h machine_typed_def jobs_typed_def)
  qed
  with d(2) new assms(3) show ?thesis
    by (intro exI [of _ "m(ID ?b \<mapsto> saved now st ?b)"])
      (simp only: flds machine_typed_def ran_typed_upd simp_thms)
qed

lemma worker_typed:
  assumes "worker B L M M'" "represents (Decode B) (vd (db (mem M))) m" "machine_ok m M" "machine_typed L m M"
  shows "\<exists>m'. represents (Decode B) (vd (db (mem M'))) m' \<and> machine_typed L m' M'"
proof -
  have jobs: "jobs_ok m M" using assms(3) by (simp add: machine_ok_def)
  have along: "\<exists>m'. represents (Decode B) (vd (db s)) m' \<and>
      machine_typed L m' (M\<lparr>mem := s, busy := (busy M)[k := (p, ph')]\<rparr>)"
    if "k < length (busy M)" "busy M ! k = (p, ph)" "keeps p (mem M) s"
      "ph' = Ending Finalized \<Longrightarrow> ErrorCause (heap s p) = ''''" for k p ph s ph'
    using keeps_typed [OF assms(4,3) that] assms(2) that(3)
    by (intro exI [of _ m]) (simp add: keeps_def same_rest_def)
  from assms(1) show ?thesis
  proof cases
    case (work_recv p s)
    have "db s = db (mem M)" using work_recv(3) by (auto simp: recvJob_def split: list.splits if_splits)
    with recv_typed [OF assms(4,3) work_recv(3)] assms(2) show ?thesis
      unfolding work_recv(1) by (intro exI [of _ m]) simp
  next
    case (work_download k p w r s)
    have "ErrorCause (heap s p) = ''''" if "(case r of Inl st \<Rightarrow> Ending st | Inr f \<Rightarrow> Waiting f) = Ending Finalized"
      using that fetchData_not_final [of L w p "mem M"] work_download(4) by (cases r) auto
    from along [OF work_download(2,3) _ this] fetchData_keeps [OF work_download(4)] show ?thesis
      unfolding work_download(1) by simp
  next
    case (work_acquire k p f s)
    note acq = acquire_release [OF work_acquire(4)]
    from along [OF work_acquire(2,3) keeps_same [OF acq(3,4)], of "Importing f"] show ?thesis
      unfolding work_acquire(1) by simp
  next
    case (work_import k p f w now st s)
    have "ErrorCause (heap s p) = ''''" if "Ending st = Ending Finalized"
      using that importData_final work_import(4) by simp
    from along [where ph' = "Ending st", OF work_import(2,3) _ this] importData_keeps [OF work_import(4)] show ?thesis
      unfolding work_import(1) by simp
  next
    case (work_end k p st now)
    from end_typed [OF assms(2,3,4) work_end(2,3), of now] show ?thesis unfolding work_end(1) by simp
  next
    case (work_tick n now now')
    let ?M = "M\<lparr>mem := (mem M)\<lparr>tickCh := n\<rparr>\<rparr>"
    have "jobs_ok m ?M" "machine_typed L m ?M"
      using jobs assms(4) by (simp_all add: jobs_ok_def live_def machine_typed_def jobs_typed_def)
    from getNext_typed [OF _ this, of now now'] assms(2) show ?thesis unfolding work_tick(1) by simp
  next
    case (work_timer now now')
    let ?M = "M\<lparr>timerArmed := False\<rparr>"
    have "jobs_ok m ?M" "machine_typed L m ?M"
      using jobs assms(4) by (simp_all add: jobs_ok_def live_def machine_typed_def jobs_typed_def)
    from getNext_typed [OF _ this, of now now'] assms(2) show ?thesis unfolding work_timer(1) by simp
  qed
qed

lemma calls_typed:
  assumes "calls B L (mem M) st" "represents (Decode B) (vd (db (mem M))) m" "machine_ok m M" "machine_typed L m M"
  shows "\<exists>m'. represents (Decode B) (vd (db st)) m' \<and> machine_typed L m' (M\<lparr>mem := st\<rparr>)"
proof -
  obtain l l' st1 where st1: "st1 = (mem M)\<lparr>bytesLimiter := l\<rparr> \<or>
      (\<forall>M'. mem M' = (mem M)\<lparr>bytesLimiter := l\<rparr> \<longrightarrow> handler B L M' (M'\<lparr>mem := st1\<rparr>))"
    and st: "st = st1\<lparr>bytesLimiter := l'\<rparr>"
    using assms(1) unfolding calls_def by blast
  let ?M = "M\<lparr>mem := (mem M)\<lparr>bytesLimiter := l\<rparr>\<rparr>"
  have ok: "jobs_ok m ?M" "machine_typed L m ?M"
    using assms(3,4) by (simp_all add: machine_ok_def jobs_ok_def live_def machine_typed_def)
  from st1 show ?thesis
  proof
    assume "st1 = (mem M)\<lparr>bytesLimiter := l\<rparr>"
    with assms(2,4) st show ?thesis by (intro exI [of _ m]) (simp add: machine_typed_def)
  next
    assume "\<forall>M'. mem M' = (mem M)\<lparr>bytesLimiter := l\<rparr> \<longrightarrow> handler B L M' (M'\<lparr>mem := st1\<rparr>)"
    then have "handler B L ?M (?M\<lparr>mem := st1\<rparr>)" by (auto dest!: spec [of _ ?M])
    from handler_typed [OF this _ ok] assms(2) st show ?thesis by (simp add: machine_typed_def)
  qed
qed

end

section \<open>The running service\<close>

context reliable_backend
begin

lemma serve_typed:
  assumes "serve B L S S'" "represents (Decode B) (vd (db (store (svc S)))) m" "machine_ok m (machine_of S)"
    and "machine_typed L m (machine_of S)"
  shows "\<exists>m'. represents (Decode B) (vd (db (store (svc S')))) m' \<and> machine_typed L m' (machine_of S')"
  using assms(1)
proof (cases rule: serve_cases)
  case (call s)
  with calls_typed [of L "machine_of S" "store s"] assms(2-4) show ?thesis by simp
next
  case (work M)
  with worker_typed [of L "machine_of S" M m] assms(2-4) show ?thesis by simp
qed

lemma serves_typed:
  assumes "serves B L S0 S" "boots B vd (machine_of S0)" "represents (Decode B) (vd (db (store (svc S0)))) m0"
    and "ran m0 \<subseteq> {b. typed L b}"
  shows "\<exists>m. represents (Decode B) (vd (db (store (svc S)))) m \<and> machine_typed L m (machine_of S)"
  using assms(1)
proof induction
  case serves_start
  from boots_idle [OF assms(2)] obtain m where m: "represents (Decode B) (vd (db (store (svc S0)))) m" "live (machine_of S0) = []"
    by auto
  moreover have "m = m0" by (rule represents_unique [OF m(1) assms(3)])
  moreover have "busy (machine_of S0) = []" using assms(2) by (simp add: boots_def)
  ultimately show ?case using assms(3,4)
    by (intro exI [of _ m0]) (simp add: machine_typed_def jobs_typed_def)
next
  case (serves_step S S')
  then obtain m where m: "represents (Decode B) (vd (db (store (svc S)))) m" "machine_typed L m (machine_of S)" by blast
  from serve_typed [OF serves_step(2) m(1) serves_at [OF serves_step(1) assms(2) m(1)] m(2)] show ?case .
qed

end

section \<open>Properties\<close>

text \<open>
  C6: whatever a running service handles, every bid in its store has the fields of its status: those that
  its validation checked; sources from the win on; a proposal while its data is fetched and when that
  failed; a proposal or a deal id, and no error, when it is finalized. And each job of a worker is a
  bid with sources and a proposal.
\<close>

theorem stored_bids_typed:
  assumes "reliable_backend B vd vt" "boots B vd (machine_of S0)"
    and "represents (Decode B) (vd (db (store (svc S0)))) m0" "\<forall>b \<in> ran m0. typed L b"
    and "serves B L S0 S" "represents (Decode B) (vd (db (store (svc S)))) m"
  shows "(\<forall>i b. m i = Some b \<longrightarrow> typed L b) \<and>
    (\<forall>p \<in> set (live (machine_of S)). core L (heap (store (svc S)) p) \<and> fetchable (heap (store (svc S)) p))"
proof -
  have "ran m0 \<subseteq> {b. typed L b}" using assms(4) by blast
  from reliable_backend.serves_typed [OF assms(1,5,2,3) this] obtain m' where
    m': "represents (Decode B) (vd (db (store (svc S)))) m'" "machine_typed L m' (machine_of S)" by blast
  have "m' = m" by (rule represents_unique [OF m'(1) assms(6)])
  with m'(2) show ?thesis by (auto simp: machine_typed_def jobs_typed_def dest: typed_stored)
qed

lemma root_boots:
  "boots mem_backend map_of (machine_of \<lparr>svc = root_service Submitted NopeLimiter, jobs = [], armed = True\<rparr>)"
proof -
  have store: "store (root_service Submitted NopeLimiter) = sample_store [(ChildString dsPrefix ''a'', Some (root_bid Submitted))]"
    by (simp add: root_service_def sample_store_def)
  have "represents (Decode mem_backend) (map_of [(ChildString dsPrefix ''a'', Some (root_bid Submitted))]) [''a'' \<mapsto> root_bid Submitted]"
    using root_represents [of Submitted NopeLimiter] unfolding store by simp
  then have "boots mem_backend map_of (sample_machine [(ChildString dsPrefix ''a'', Some (root_bid Submitted))])"
    by (rule sample_machine_boots) (simp_all add: with_status_def tries_def root_bid_def sample_bid_def)
  then show ?thesis by (simp add: machine_of_def sample_machine_def store)
qed

theorem stored_bids_typed_witness:
  "\<exists>r s' m'. WinsHandler sample_env (sample_win ''msg'') (root_service Submitted NopeLimiter) = Ret (r, s') \<and>
     represents (Decode mem_backend) (map_of (db (store s'))) m' \<and> (\<forall>i b. m' i = Some b \<longrightarrow> typed sample_libs b)"
proof -
  let ?S = "\<lparr>svc = root_service Submitted NopeLimiter, jobs = [], armed = True\<rparr>"
  obtain r s' where win: "WinsHandler sample_env (sample_win ''msg'') (svc ?S) = Ret (r, s')"
    using root_win by auto
  have rep: "represents (Decode mem_backend) (map_of (db (store (svc ?S)))) [''a'' \<mapsto> root_bid Submitted]"
    using root_represents [of Submitted NopeLimiter] by simp
  have typed: "\<forall>b \<in> ran [''a'' \<mapsto> root_bid Submitted]. typed sample_libs b"
    by (simp add: typed_def core_def root_bid_def sample_bid_def sample_libs_def Defined_def)
  have "serve mem_backend (libs_of sample_env) ?S (?S\<lparr>svc := s'\<rparr>)"
    using win by (intro serve_win [OF _ refl]) simp_all
  then have step: "serve mem_backend sample_libs ?S (?S\<lparr>svc := s'\<rparr>)" by simp
  then have run: "serves mem_backend sample_libs ?S (?S\<lparr>svc := s'\<rparr>)" by (rule serves_step [OF serves_start])
  have "machine_ok [''a'' \<mapsto> root_bid Submitted] (machine_of ?S)"
    by (rule memb.serves_at [OF serves_start root_boots]) (rule rep)
  from memb.serve_preserves [OF step _ this] rep obtain m' where
    m': "represents (Decode mem_backend) (map_of (db (store (svc (?S\<lparr>svc := s'\<rparr>))))) m'" by auto
  from stored_bids_typed [OF memb.reliable_backend_axioms root_boots rep typed run m'] m' win show ?thesis by auto
qed

end
