(* ===== verification/Service_Limit.thy ===== *)
theory Service_Limit
  imports Service_Run
begin

text \<open>
  The bytes limit in the running service. Each step is labelled with the operations of the limiter that
  its outcome calls for: a win requests the size of its deal, an accepted proposal secures the tokens,
  a finished import commits them, and an attempt that ends a bid withdraws them. The limiter of a
  running service then is that of its labels, and keeps its limit over their history.
\<close>

section \<open>Labelled steps\<close>

inductive worker_log ::
  "('d, 't, 'v) backend \<Rightarrow> libs \<Rightarrow> 'd machine \<Rightarrow> lim_op list \<Rightarrow> 'd machine \<Rightarrow> bool"
  for B :: "('d, 't, 'v) backend" and L :: libs where
  log_recv: "length (busy M) < chanCap (mem M) \<Longrightarrow> recvJob (mem M) = Some (Some p, s) \<Longrightarrow>
    worker_log B L M [] (M\<lparr>mem := s, busy := busy M @ [(p, Downloading)]\<rparr>)"
| log_download: "k < length (busy M) \<Longrightarrow> busy M ! k = (p, Downloading) \<Longrightarrow>
    fetchData L w p (mem M) = (r, s) \<Longrightarrow>
    worker_log B L M (if r = Inl Errored then [OpWithdraw (AuctionID (heap (mem M) p))] else [])
      (M\<lparr>mem := s, busy := (busy M)[k := (p, case r of Inl st \<Rightarrow> Ending st | Inr f \<Rightarrow> Waiting f)]\<rparr>)"
| log_acquire: "k < length (busy M) \<Longrightarrow> busy M ! k = (p, Waiting f) \<Longrightarrow> acquire (mem M) = Some s \<Longrightarrow>
    worker_log B L M [] (M\<lparr>mem := s, busy := (busy M)[k := (p, Importing f)]\<rparr>)"
| log_import: "k < length (busy M) \<Longrightarrow> busy M ! k = (p, Importing f) \<Longrightarrow>
    importData w now p f (mem M) = (st, s) \<Longrightarrow>
    worker_log B L M
      (if st = Finalized then [OpCommit now (AuctionID (heap (mem M) p))]
       else if st = Errored then [OpWithdraw (AuctionID (heap (mem M) p))] else [])
      (M\<lparr>mem := s, busy := (busy M)[k := (p, Ending st)]\<rparr>)"
| log_end: "k < length (busy M) \<Longrightarrow> busy M ! k = (p, Ending st) \<Longrightarrow>
    worker_log B L M []
      (M\<lparr>mem := endJob B now p st (mem M), busy := take k (busy M) @ drop (Suc k) (busy M)\<rparr>)"
| log_tick: "tickCh (mem M) = Suc n \<Longrightarrow>
    worker_log B L M [] (M\<lparr>mem := getNext B now now' ((mem M)\<lparr>tickCh := n\<rparr>)\<rparr>)"
| log_first: "timerArmed M \<Longrightarrow>
    worker_log B L M [] (M\<lparr>timerArmed := False, mem := getNext B now now' (mem M)\<rparr>)"

definition win_ops :: "('d, 't, 'v) env \<Rightarrow> WinningBid \<Rightarrow> 'd Service \<Rightarrow> lim_op list" where
  "win_ops E wb s =
     (case GetBid (backend_of E) (WinBidId wb) (store s) of
        Inl e \<Rightarrow> []
      | Inr b \<Rightarrow> [OpRequest (clock E 0) (clock E 1) (WinAuctionId wb) (Bid.DealSize b) BidsExpiration])"

inductive serve_log ::
  "('d, 't, 'v) backend \<Rightarrow> libs \<Rightarrow> 'd system \<Rightarrow> lim_op list \<Rightarrow> 'd system \<Rightarrow> bool"
  for B :: "('d, 't, 'v) backend" and L :: libs where
  log_bid: "backend_of E = B \<Longrightarrow> libs_of E = L \<Longrightarrow>
    \<forall>topic bid i. PublishBid E topic bid = Inr i \<longrightarrow> GetBid B i (store (svc S)) = Inl ErrBidNotFound \<Longrightarrow>
    makeBid E a sender (svc S) = (r, s) \<Longrightarrow> serve_log B L S [] (S\<lparr>svc := s\<rparr>)"
| log_win: "backend_of E = B \<Longrightarrow> libs_of E = L \<Longrightarrow> WinsHandler E wb (svc S) = Ret (r, s) \<Longrightarrow>
    serve_log B L S (win_ops E wb (svc S)) (S\<lparr>svc := s\<rparr>)"
| log_proposal: "backend_of E = B \<Longrightarrow> libs_of E = L \<Longrightarrow> ProposalsHandler E prop (svc S) = (r, s) \<Longrightarrow>
    serve_log B L S (if r = None then [OpSecure (PropAuctionId prop)] else []) (S\<lparr>svc := s\<rparr>)"
| log_pause: "serve_log B L S [] (S\<lparr>svc := SetPaused p (svc S)\<rparr>)"
| log_health: "serve_log B L S [] (S\<lparr>svc := healthChecks w (svc S)\<rparr>)"
| log_startup: "serve_log B L S [] (S\<lparr>svc := reportStartup (svc S)\<rparr>)"
| log_load: "serve_log B L S []
    (S\<lparr>svc := (svc S)\<lparr>pricingRules := backgroundLoad (W :: web) now client k (pricingRules (svc S))\<rparr>\<rparr>)"
| log_timer: "bytesLimiter (store (svc S)) = Running rl \<Longrightarrow>
    serve_log B L S [OpFire now t] (S\<lparr>svc := withLimiter (Running (fireTimer now t rl)) (svc S)\<rparr>)"
| log_expire: "bytesLimiter (store (svc S)) = Running rl \<Longrightarrow>
    serve_log B L S [OpRunFired k] (S\<lparr>svc := withLimiter (Running (runFired k rl)) (svc S)\<rparr>)"
| log_worker: "worker_log B L (machine_of S) xs M \<Longrightarrow> serve_log B L S xs (with_machine M S)"

inductive serves_log ::
  "('d, 't, 'v) backend \<Rightarrow> libs \<Rightarrow> 'd system \<Rightarrow> lim_op list \<Rightarrow> 'd system \<Rightarrow> bool"
  for B :: "('d, 't, 'v) backend" and L :: libs and S0 :: "'d system" where
  log_start: "serves_log B L S0 [] S0"
| log_next: "serves_log B L S0 xs S \<Longrightarrow> serve_log B L S ys S' \<Longrightarrow> serves_log B L S0 (xs @ ys) S'"

section \<open>The labelled runs are the runs\<close>


lemma worker_logged: "worker B L M M' \<Longrightarrow> \<exists>xs. worker_log B L M xs M'"
  by (induction rule: worker.induct) (blast intro: worker_log.intros)+


lemma serve_logged: "serve B L S S' \<Longrightarrow> \<exists>xs. serve_log B L S xs S'"
  by (induction rule: serve.induct) (blast intro: serve_log.intros dest: worker_logged)+


lemma serves_logged: "serves B L S0 S \<Longrightarrow> \<exists>xs. serves_log B L S0 xs S"
  by (induction rule: serves.induct) (blast intro: serves_log.intros dest: serve_logged)+

section \<open>The limiter follows the labels\<close>











section \<open>Properties\<close>





end
